(* ===== verification/Prelude.thy ===== *)
theory Prelude
  imports Main "HOL-Library.Word"
begin

text \<open>
  Shared ground of the development: the widths of the C integers, the outcome of a C
  call, byte-wise loads and stores with the bounds check that C leaves out, and the
  little-endian byte codec that the memory, the instruction codec, the assembler and
  the file format all spell out as loops over \<open>8 * i\<close>.
\<close>

unbundle bit_operations_syntax

named_theorems outcome_simps \<open>evaluation of outcomes and their bind\<close>
named_theorems post_intros \<open>introduction rules for postconditions of outcomes\<close>

type_synonym u8 = "8 word"
type_synonym u32 = "32 word"
type_synonym u64 = "64 word"

section \<open>Outcomes of C calls\<close>

text \<open>
  A call returns a value (\<open>Done\<close>), ends the process with \<open>exit(EXIT_FAILURE)\<close>
  (\<open>Exit_failure\<close>), or leaves the language (\<open>Undefined\<close>: an access outside an array, a
  shift by 64 or more, the division \<open>INT64_MIN / -1\<close>, a read of an indeterminate value
  that decides a branch). Nothing is claimed of what happens after \<open>Undefined\<close>.
\<close>

datatype 'a outcome = Done 'a | Exit_failure | Undefined

fun obind :: "'a outcome \<Rightarrow> ('a \<Rightarrow> 'b outcome) \<Rightarrow> 'b outcome" where
  "obind (Done x) k = k x"
| "obind Exit_failure k = Exit_failure"
| "obind Undefined k = Undefined"

lemma obind_assoc [outcome_simps]:
  "obind (obind x f) g = obind x (\<lambda>y. obind (f y) g)"
  by (cases x) simp_all

lemma obind_Done_iff:
  "obind x k = Done y \<longleftrightarrow> (\<exists>z. x = Done z \<and> k z = Done y)"
  by (cases x) simp_all

lemma obind_Done_right [simp]: "obind x Done = x"
  by (cases x) simp_all

text \<open>\<open>post P x\<close>: if the call returns, its result satisfies \<open>P\<close>.\<close>

fun post :: "('a \<Rightarrow> bool) \<Rightarrow> 'a outcome \<Rightarrow> bool" where
  "post P (Done x) = P x"
| "post P Exit_failure = True"
| "post P Undefined = True"

lemma post_iff: "post P x \<longleftrightarrow> (\<forall>y. x = Done y \<longrightarrow> P y)"
  by (cases x) simp_all

lemma post_DoneD: "post P x \<Longrightarrow> x = Done y \<Longrightarrow> P y"
  by simp

lemma post_mono: "post P x \<Longrightarrow> (\<And>y. P y \<Longrightarrow> Q y) \<Longrightarrow> post Q x"
  by (cases x) simp_all

lemma post_obind [post_intros]:
  "post (\<lambda>x. post Q (k x)) x \<Longrightarrow> post Q (obind x k)"
  by (cases x) simp_all

lemma post_if [post_intros]:
  "(c \<Longrightarrow> post Q x) \<Longrightarrow> (\<not> c \<Longrightarrow> post Q y) \<Longrightarrow> post Q (if c then x else y)"
  by simp

text \<open>\<open>returns P x\<close>: the call returns, and its result satisfies \<open>P\<close>.\<close>

fun returns :: "('a \<Rightarrow> bool) \<Rightarrow> 'a outcome \<Rightarrow> bool" where
  "returns P (Done x) = P x"
| "returns P Exit_failure = False"
| "returns P Undefined = False"

lemma returns_iff: "returns P x \<longleftrightarrow> (\<exists>y. x = Done y \<and> P y)"
  by (cases x) simp_all

lemma returns_mono: "returns P x \<Longrightarrow> (\<And>y. P y \<Longrightarrow> Q y) \<Longrightarrow> returns Q x"
  by (cases x) simp_all

lemma returns_obind:
  "returns P x \<Longrightarrow> (\<And>y. P y \<Longrightarrow> returns Q (k y)) \<Longrightarrow> returns Q (obind x k)"
  by (cases x) simp_all

section \<open>Splicing a run of bytes into a list\<close>

definition overlay :: "nat \<Rightarrow> 'a list \<Rightarrow> 'a list \<Rightarrow> 'a list" where
  "overlay i bs xs = take i xs @ bs @ drop (i + length bs) xs"

lemma overlay_Nil [simp]: "overlay i [] xs = xs"
  by (simp add: overlay_def)

lemma length_overlay [simp]:
  "i + length bs \<le> length xs \<Longrightarrow> length (overlay i bs xs) = length xs"
  by (simp add: overlay_def)

lemma nth_overlay:
  assumes "i + length bs \<le> length xs" "n < length xs"
  shows "overlay i bs xs ! n =
    (if i \<le> n \<and> n < i + length bs then bs ! (n - i) else xs ! n)"
proof -
  consider "n < i" | "i \<le> n" "n < i + length bs" | "i + length bs \<le> n" by linarith
  then show ?thesis
    by cases (use assms in \<open>auto simp: overlay_def nth_append min_def\<close>)
qed

lemma take_drop_overlay_same [simp]:
  "i + length bs \<le> length xs \<Longrightarrow> take (length bs) (drop i (overlay i bs xs)) = bs"
  by (simp add: overlay_def)

lemma take_drop_overlay_disjoint:
  assumes "i + length bs \<le> length xs" "j + n \<le> length xs"
    and "j + n \<le> i \<or> i + length bs \<le> j"
  shows "take n (drop j (overlay i bs xs)) = take n (drop j xs)"
  by (rule nth_equalityI) (use assms in \<open>auto simp: nth_overlay\<close>)

lemma take_overlay_below:
  "n \<le> i \<Longrightarrow> i + length bs \<le> length xs \<Longrightarrow> take n (overlay i bs xs) = take n xs"
  by (simp add: overlay_def min_absorb1)

section \<open>Checked byte accesses\<close>

text \<open>
  \<open>load_bytes mem p n\<close> is the sequence of reads \<open>mem[p++]\<close> with a 64-bit \<open>p\<close>, and
  \<open>store_bytes\<close> the sequence of writes; either is \<open>Undefined\<close> as soon as one index lies
  outside the array.
\<close>

fun load_bytes :: "'a list \<Rightarrow> u64 \<Rightarrow> nat \<Rightarrow> 'a list outcome" where
  "load_bytes mem p 0 = Done []"
| "load_bytes mem p (Suc n) =
     (if unat p < length mem
      then obind (load_bytes mem (p + 1) n) (\<lambda>bs. Done (mem ! unat p # bs))
      else Undefined)"

fun store_bytes :: "'a list \<Rightarrow> u64 \<Rightarrow> 'a list \<Rightarrow> 'a list outcome" where
  "store_bytes mem p [] = Done mem"
| "store_bytes mem p (b # bs) =
     (if unat p < length mem then store_bytes (mem[unat p := b]) (p + 1) bs
      else Undefined)"

lemma unat_plus_1: "unat (p :: u64) < n \<Longrightarrow> n < 2 ^ 64 \<Longrightarrow> unat (p + 1) = Suc (unat p)"
  by (simp add: unat_word_ariths)

lemma load_bytes_Done:
  "unat p + n \<le> length mem \<Longrightarrow> length mem < 2 ^ 64 \<Longrightarrow>
    load_bytes mem p n = Done (take n (drop (unat p) mem))"
proof (induction n arbitrary: p)
  case (Suc n)
  then have p: "unat p < length mem" "unat (p + 1) = Suc (unat p)"
    by (simp_all add: unat_plus_1 [of p "length mem"])
  with Suc show ?case by (simp add: Cons_nth_drop_Suc [symmetric])
qed simp

lemma length_load_bytes: "load_bytes mem p n = Done bs \<Longrightarrow> length bs = n"
  by (induction n arbitrary: p bs) (auto simp: obind_Done_iff split: if_splits)

lemma load_bytes_Undefined:
  "length mem < 2 ^ 64 \<Longrightarrow> length mem < unat p + n \<Longrightarrow> 0 < n \<Longrightarrow> load_bytes mem p n = Undefined"
proof (induction n arbitrary: p)
  case (Suc n)
  show ?case
  proof (cases "unat p < length mem")
    case True
    with Suc.prems have "unat (p + 1) = Suc (unat p)" "0 < n"
      by (simp_all add: unat_plus_1 [of p "length mem"])
    with Suc show ?thesis by simp
  qed simp
qed simp

lemma store_bytes_Done:
  "unat p + length bs \<le> length mem \<Longrightarrow> length mem < 2 ^ 64 \<Longrightarrow>
    store_bytes mem p bs = Done (overlay (unat p) bs mem)"
proof (induction bs arbitrary: p mem)
  case (Cons b bs)
  then have p: "unat p < length mem" "unat (p + 1) = Suc (unat p)"
    by (simp_all add: unat_plus_1 [of p "length mem"])
  with Cons.IH [of "p + 1" "mem[unat p := b]"] Cons.prems
  show ?case by (simp add: overlay_def take_Suc_conv_app_nth take_update_swap [symmetric])
qed simp

lemma store_bytes_length: "store_bytes mem p bs = Done mem' \<Longrightarrow> length mem' = length mem"
  by (induction bs arbitrary: p mem) (auto split: if_splits)

lemma store_bytes_Undefined:
  "length mem < 2 ^ 64 \<Longrightarrow> length mem < unat p + length bs \<Longrightarrow> bs \<noteq> [] \<Longrightarrow>
    store_bytes mem p bs = Undefined"
proof (induction bs arbitrary: p mem)
  case (Cons b bs)
  show ?case
  proof (cases "unat p < length mem")
    case True
    with Cons.prems have "unat (p + 1) = Suc (unat p)" "bs \<noteq> []"
      by (auto simp: unat_plus_1 [of p "length mem"])
    with Cons.IH [of "mem[unat p := b]" "p + 1"] Cons.prems True show ?thesis by simp
  qed simp
qed simp

section \<open>Little-endian bytes\<close>

text \<open>The bytes \<open>(uint8_t)(w >> (8 * j))\<close> for \<open>j = 0, \<dots>, k - 1\<close>.\<close>

definition bytes_le :: "nat \<Rightarrow> 'a::len word \<Rightarrow> u8 list" where
  "bytes_le k w = map (\<lambda>j. ucast (drop_bit (8 * j) w)) [0..<k]"

text \<open>The loop \<open>acc |= ((T) bs[j]) << (8 * j)\<close>, started at index \<open>j\<close>.\<close>

fun or_bytes :: "nat \<Rightarrow> u8 list \<Rightarrow> 'a::len word \<Rightarrow> 'a word" where
  "or_bytes j [] acc = acc"
| "or_bytes j (x # xs) acc = or_bytes (Suc j) xs (acc OR push_bit (8 * j) (ucast x))"

definition word_le :: "u8 list \<Rightarrow> 'a::len word" where
  "word_le bs = or_bytes 0 bs 0"

lemma length_bytes_le [simp]: "length (bytes_le k w) = k"
  by (simp add: bytes_le_def)

lemma nth_bytes_le [simp]: "j < k \<Longrightarrow> bytes_le k w ! j = ucast (drop_bit (8 * j) w)"
  by (simp add: bytes_le_def)

lemma bit_push_byte:
  fixes x :: u8
  shows "bit (push_bit (8 * j) (ucast x :: 'a::len word)) n \<longleftrightarrow>
    n < LENGTH('a) \<and> n div 8 = j \<and> bit x (n mod 8)"
proof -
  define q r where "q = n div 8" and "r = n mod 8"
  then have n: "n = 8 * q + r" "r < 8" by simp_all
  have "bit (push_bit (8 * j) (ucast x :: 'a word)) n \<longleftrightarrow>
      n < LENGTH('a) \<and> 8 * j \<le> n \<and> n - 8 * j < 8 \<and> bit x (n - 8 * j)"
    by (auto simp: bit_push_bit_iff bit_unsigned_iff dest: bit_imp_le_length)
  also have "\<dots> \<longleftrightarrow> n < LENGTH('a) \<and> q = j \<and> bit x r"
  proof (cases "q = j")
    case True
    with n show ?thesis by simp
  next
    case False
    with n have "8 * j \<le> n \<Longrightarrow> 8 \<le> n - 8 * j" by simp
    with False show ?thesis by auto
  qed
  finally show ?thesis by (simp add: q_def r_def)
qed

lemma bit_or_bytes:
  fixes acc :: "'a::len word"
  shows "bit (or_bytes j bs acc) n \<longleftrightarrow> bit acc n \<or>
    (n < LENGTH('a) \<and> j \<le> n div 8 \<and> n div 8 < j + length bs \<and> bit (bs ! (n div 8 - j)) (n mod 8))"
proof (induction bs arbitrary: j acc)
  case (Cons x xs)
  show ?case
  proof (cases "n div 8 = j")
    case True
    then show ?thesis by (simp add: Cons.IH bit_or_iff bit_push_byte)
  next
    case False
    then have "j \<le> n div 8 \<longleftrightarrow> Suc j \<le> n div 8" by linarith
    moreover have "Suc j \<le> n div 8 \<Longrightarrow> (x # xs) ! (n div 8 - j) = xs ! (n div 8 - Suc j)"
      by (simp add: nth_Cons' Suc_diff_Suc)
    ultimately show ?thesis using False by (auto simp: Cons.IH bit_or_iff bit_push_byte)
  qed
qed auto

lemma bit_word_le:
  "bit (word_le bs :: 'a::len word) n \<longleftrightarrow>
    n < LENGTH('a) \<and> n div 8 < length bs \<and> bit (bs ! (n div 8)) (n mod 8)"
  by (simp add: word_le_def bit_or_bytes)

lemma or_bytes_word_le: "or_bytes 0 bs acc = acc OR word_le bs"
  by (rule bit_word_eqI) (simp add: bit_or_bytes bit_word_le bit_or_iff)

lemma word_le_bytes_le:
  fixes w :: "'a::len word"
  assumes "LENGTH('a) \<le> 8 * k"
  shows "word_le (bytes_le k w) = w"
proof (rule bit_word_eqI)
  fix n assume n: "n < LENGTH('a)"
  with assms have "n div 8 < k" by (auto simp: less_mult_imp_div_less mult.commute)
  with n show "bit (word_le (bytes_le k w) :: 'a word) n \<longleftrightarrow> bit w n"
    by (auto simp: bit_word_le bit_unsigned_iff bit_drop_bit_eq)
qed

lemma bytes_le_word_le:
  assumes "length bs = k" "8 * k \<le> LENGTH('a)"
  shows "bytes_le k (word_le bs :: 'a::len word) = bs"
proof (rule nth_equalityI)
  fix j assume "j < length (bytes_le k (word_le bs :: 'a word))"
  then have j: "j < k" by simp
  have "ucast (drop_bit (8 * j) (word_le bs :: 'a word)) = bs ! j"
  proof (rule bit_word_eqI)
    fix m assume m: "m < LENGTH(8)"
    then have "(8 * j + m) div 8 = j" "(8 * j + m) mod 8 = m" "8 * j + m < LENGTH('a)"
      using j assms by auto
    with m j assms show "bit (ucast (drop_bit (8 * j) (word_le bs :: 'a word)) :: u8) m \<longleftrightarrow> bit (bs ! j) m"
      by (simp add: bit_unsigned_iff bit_drop_bit_eq bit_word_le)
  qed
  with j show "bytes_le k (word_le bs :: 'a word) ! j = bs ! j" by simp
qed (simp add: assms)

text \<open>
  Shifting a signed 64-bit value right before truncating to a byte gives the same byte
  as the unsigned shift, since no shift in the code passes 56.
\<close>

lemma ucast_signed_drop_bit:
  "k \<le> 56 \<Longrightarrow> (ucast (signed_drop_bit k (w :: u64)) :: u8) = ucast (drop_bit k w)"
  by (rule bit_word_eqI)
    (auto simp: bit_unsigned_iff bit_signed_drop_bit_iff bit_drop_bit_eq)

lemma sint_small: "unat (x :: u64) < 2 ^ 63 \<Longrightarrow> sint x = int (unat x)"
  by (simp only: sint_uint uint_nat) (rule signed_take_bit_int_eq_self; simp del: of_nat_unat int_nat_eq)

end
