(* ===== verification/Vm.thy ===== *)
theory Vm
  imports Prelude
begin

text \<open>
  The machine state of \<^verbatim>\<open>include/vm.h\<close> and \<^verbatim>\<open>include/common.h\<close>, the status register accessors
  and \<open>initVM\<close> of \<^verbatim>\<open>src/runtime/vm.c\<close>, and the invariant \<open>wf_vm\<close> that every operation
  of the machine keeps.
\<close>

unbundle bit_operations_syntax

section \<open>Memory map\<close>

definition MEM_SIZE :: u64 where "MEM_SIZE = 2048"
definition STACK_BASE :: u64 where "STACK_BASE = 1536"
definition HEAP_BASE :: u64 where "HEAP_BASE = 1280"
definition DATA_BASE :: u64 where "DATA_BASE = 1024"
definition N_REG :: u8 where "N_REG = 2"

lemmas memory_map = MEM_SIZE_def STACK_BASE_def HEAP_BASE_def DATA_BASE_def

section \<open>State\<close>

datatype VM_Error =
    VM_OK
  | VM_DIV_ZERO
  | VM_INSTR_PRIV
  | VM_INSTR_TRAP
  | VM_ILL_MEM_ACCESS
  | VM_ILL_REGISTER
  | VM_STACK_UNDERFLOW
  | VM_STACK_OVERFLOW
  | VM_INVALID_JMP
  | VM_CODE_LOAD_OUT_OF_BOUNDS
  | VM_DATA_LOAD_OUT_OF_BOUNDS
  | VM_INVALID_EXECUTION_ADDRESS
  | VM_TRUNCATED_INSTR
  | VM_UNKNOWN_INSTR
  | VM_UNKNOWN_SYSCALL
  | VM_OUT_OF_THE_HEAP
  | VM_HEAP_OUT_OF_MEMORY
  | VM_MEM_ALREADY_FREE
  | VM_FREE_OUT_OF_THE_HEAP

text \<open>
  The free list is a singly linked list of heap-allocated nodes; nothing but \<open>next\<close> and
  \<open>vm->memblocks\<close> points to a node, so the chain is a list of nodes.
\<close>

record MemNode =
  blk_begin :: u64
  blk_size :: u64
  blk_free :: bool

text \<open>
  The calls the machine makes to the C library and the kernel, in order. They are the
  only state outside \<open>struct VM\<close>, and \<open>trace\<close> records them so that the environment's
  answers can depend on the whole history.
\<close>

datatype io_event =
    Write u32 "u8 list"
  | Read u32 u64
  | Open "u8 list"
  | Close u32
  | Print_int u64
  | Print_str "u8 list"
  | Scan_int
  | Fgets u32
  | Dump_regs "u64 list"
  | Dump_bytes u64 "u8 list"
  | Print_cycles u64

record vm =
  registers :: "u64 list"
  sp :: u64
  pc :: u64
  sr :: u8
  memory :: "u8 list"
  running :: bool
  memblocks :: "MemNode list"
  trace :: "io_event list"

definition zeros :: "nat \<Rightarrow> u8 list" where
  "zeros n = replicate n 0"

definition init_blocks :: "MemNode list" where
  "init_blocks = [\<lparr>blk_begin = HEAP_BASE, blk_size = STACK_BASE - HEAP_BASE, blk_free = True\<rparr>]"

definition initVM :: "vm \<Rightarrow> vm" where
  "initVM vm = vm\<lparr>registers := replicate (unat N_REG) 0, sp := MEM_SIZE, pc := 0, sr := 0x10,
     memory := zeros (unat MEM_SIZE), running := True, memblocks := init_blocks\<rparr>"

text \<open>A machine before \<open>initVM\<close>, for concrete runs: its fields are set by \<open>initVM\<close>.\<close>

definition raw_vm :: vm where
  "raw_vm = \<lparr>registers = [], sp = 0, pc = 0, sr = 0, memory = [], running = False,
     memblocks = [], trace = []\<rparr>"

text \<open>\<open>destroyVM\<close> frees every node of the chain and leaves the other fields alone.\<close>

definition destroyVM :: "vm \<Rightarrow> vm" where
  "destroyVM vm = vm\<lparr>memblocks := []\<rparr>"

section \<open>Status register\<close>

definition M_OVERFLOW :: u8 where "M_OVERFLOW = 0x08"
definition M_NEGATIVE :: u8 where "M_NEGATIVE = 0x04"
definition M_ZERO :: u8 where "M_ZERO = 0x02"
definition M_CARRY :: u8 where "M_CARRY = 0x01"

lemmas flag_masks = M_OVERFLOW_def M_NEGATIVE_def M_ZERO_def M_CARRY_def

definition setSROF :: "bool \<Rightarrow> vm \<Rightarrow> vm" where
  "setSROF v vm = (if v then vm\<lparr>sr := sr vm OR M_OVERFLOW\<rparr> else vm\<lparr>sr := sr vm AND NOT M_OVERFLOW\<rparr>)"

definition getSROF :: "vm \<Rightarrow> u8" where
  "getSROF vm = sr vm AND M_OVERFLOW"

definition setSRNF :: "bool \<Rightarrow> vm \<Rightarrow> vm" where
  "setSRNF v vm = (if v then vm\<lparr>sr := sr vm OR M_NEGATIVE\<rparr> else vm\<lparr>sr := sr vm AND NOT M_NEGATIVE\<rparr>)"

definition getSRNF :: "vm \<Rightarrow> u8" where
  "getSRNF vm = sr vm AND M_NEGATIVE"

definition setSRZF :: "bool \<Rightarrow> vm \<Rightarrow> vm" where
  "setSRZF v vm = (if v then vm\<lparr>sr := sr vm OR M_ZERO\<rparr> else vm\<lparr>sr := sr vm AND NOT M_ZERO\<rparr>)"

definition getSRZF :: "vm \<Rightarrow> u8" where
  "getSRZF vm = sr vm AND M_ZERO"

definition setSRCF :: "bool \<Rightarrow> vm \<Rightarrow> vm" where
  "setSRCF v vm = (if v then vm\<lparr>sr := sr vm OR M_CARRY\<rparr> else vm\<lparr>sr := sr vm AND NOT M_CARRY\<rparr>)"

definition getSRCF :: "vm \<Rightarrow> u8" where
  "getSRCF vm = sr vm AND M_CARRY"

lemmas setSR_defs = setSROF_def setSRNF_def setSRZF_def setSRCF_def
lemmas getSR_defs = getSROF_def getSRNF_def getSRZF_def getSRCF_def

text \<open>Each flag is one bit of \<open>sr\<close>, and setting one flag leaves the other bits alone.\<close>

lemma single_bit_masks:
  "M_OVERFLOW = push_bit 3 1" "M_NEGATIVE = push_bit 2 1" "M_ZERO = push_bit 1 1" "M_CARRY = push_bit 0 1"
  by (simp_all add: flag_masks)

lemma and_single_bit_nonzero:
  fixes x :: "'a::len word"
  assumes "k < LENGTH('a)"
  shows "x AND push_bit k 1 \<noteq> 0 \<longleftrightarrow> bit x k"
proof -
  have "bit (x AND push_bit k 1) n \<longleftrightarrow> n = k \<and> bit x k" for n :: nat
    using assms by (auto simp: bit_and_iff bit_push_bit_iff bit_1_iff simp del: push_bit_of_1)
  then have "x AND push_bit k 1 = 0 \<longleftrightarrow> (\<forall>n. \<not> (n = k \<and> bit x k))"
    by (simp only: bit_eq_iff bit_0_eq bot_fun_def) (use assms in \<open>auto dest: bit_imp_le_length\<close>)
  then show ?thesis by blast
qed

definition flag_O :: "vm \<Rightarrow> bool" where "flag_O vm = bit (sr vm) 3"
definition flag_N :: "vm \<Rightarrow> bool" where "flag_N vm = bit (sr vm) 2"
definition flag_Z :: "vm \<Rightarrow> bool" where "flag_Z vm = bit (sr vm) 1"
definition flag_C :: "vm \<Rightarrow> bool" where "flag_C vm = bit (sr vm) 0"

lemmas flag_defs = flag_O_def flag_N_def flag_Z_def flag_C_def

lemma getSR_flags [simp]:
  "getSROF vm \<noteq> 0 \<longleftrightarrow> flag_O vm" "getSRNF vm \<noteq> 0 \<longleftrightarrow> flag_N vm"
  "getSRZF vm \<noteq> 0 \<longleftrightarrow> flag_Z vm" "getSRCF vm \<noteq> 0 \<longleftrightarrow> flag_C vm"
  by (simp_all only: getSR_defs flag_defs single_bit_masks)
    (subst and_single_bit_nonzero; simp)+

lemma getSR_flags_0 [simp]:
  "getSROF vm = 0 \<longleftrightarrow> \<not> flag_O vm" "getSRNF vm = 0 \<longleftrightarrow> \<not> flag_N vm"
  "getSRZF vm = 0 \<longleftrightarrow> \<not> flag_Z vm" "getSRCF vm = 0 \<longleftrightarrow> \<not> flag_C vm"
  using getSR_flags [of vm] by blast+

lemma set_bit_mask: "(if v then x OR push_bit k 1 else x AND NOT (push_bit k (1 :: u8))) =
    (if v then set_bit k x else unset_bit k x)"
  by (simp add: set_bit_eq_or unset_bit_eq_and_not)

lemma setSR_sr:
  "sr (setSROF v vm) = (if v then set_bit 3 (sr vm) else unset_bit 3 (sr vm))"
  "sr (setSRNF v vm) = (if v then set_bit 2 (sr vm) else unset_bit 2 (sr vm))"
  "sr (setSRZF v vm) = (if v then set_bit 1 (sr vm) else unset_bit 1 (sr vm))"
  "sr (setSRCF v vm) = (if v then set_bit 0 (sr vm) else unset_bit 0 (sr vm))"
  using set_bit_mask [of v "sr vm" 3] set_bit_mask [of v "sr vm" 2]
    set_bit_mask [of v "sr vm" 1] set_bit_mask [of v "sr vm" 0]
  by (simp_all add: setSR_defs flag_masks split: if_splits)

lemma setSR_frame [simp]:
  "registers (setSROF v vm) = registers vm" "registers (setSRNF v vm) = registers vm"
  "registers (setSRZF v vm) = registers vm" "registers (setSRCF v vm) = registers vm"
  "sp (setSROF v vm) = sp vm" "sp (setSRNF v vm) = sp vm"
  "sp (setSRZF v vm) = sp vm" "sp (setSRCF v vm) = sp vm"
  "pc (setSROF v vm) = pc vm" "pc (setSRNF v vm) = pc vm"
  "pc (setSRZF v vm) = pc vm" "pc (setSRCF v vm) = pc vm"
  "memory (setSROF v vm) = memory vm" "memory (setSRNF v vm) = memory vm"
  "memory (setSRZF v vm) = memory vm" "memory (setSRCF v vm) = memory vm"
  "running (setSROF v vm) = running vm" "running (setSRNF v vm) = running vm"
  "running (setSRZF v vm) = running vm" "running (setSRCF v vm) = running vm"
  "memblocks (setSROF v vm) = memblocks vm" "memblocks (setSRNF v vm) = memblocks vm"
  "memblocks (setSRZF v vm) = memblocks vm" "memblocks (setSRCF v vm) = memblocks vm"
  "trace (setSROF v vm) = trace vm" "trace (setSRNF v vm) = trace vm"
  "trace (setSRZF v vm) = trace vm" "trace (setSRCF v vm) = trace vm"
  by (simp_all add: setSR_defs)

lemma setSR_flags [simp]:
  "flag_O (setSROF v vm) = v" "flag_N (setSROF v vm) = flag_N vm"
  "flag_Z (setSROF v vm) = flag_Z vm" "flag_C (setSROF v vm) = flag_C vm"
  "flag_O (setSRNF v vm) = flag_O vm" "flag_N (setSRNF v vm) = v"
  "flag_Z (setSRNF v vm) = flag_Z vm" "flag_C (setSRNF v vm) = flag_C vm"
  "flag_O (setSRZF v vm) = flag_O vm" "flag_N (setSRZF v vm) = flag_N vm"
  "flag_Z (setSRZF v vm) = v" "flag_C (setSRZF v vm) = flag_C vm"
  "flag_O (setSRCF v vm) = flag_O vm" "flag_N (setSRCF v vm) = flag_N vm"
  "flag_Z (setSRCF v vm) = flag_Z vm" "flag_C (setSRCF v vm) = v"
  by (simp_all add: flag_defs setSR_sr bit_set_bit_iff bit_unset_bit_iff)

section \<open>Invariant\<close>

text \<open>
  The stack pointer is a multiple of 8 in the stack segment, both ends included; the
  chain of blocks covers the heap segment \<open>[HEAP_BASE, STACK_BASE)\<close> without gap or
  overlap.
\<close>

definition sp_ok :: "u64 \<Rightarrow> bool" where
  "sp_ok s \<longleftrightarrow> 1536 \<le> unat s \<and> unat s \<le> 2048 \<and> unat s mod 8 = 0"

fun chain :: "nat \<Rightarrow> MemNode list \<Rightarrow> nat \<Rightarrow> bool" where
  "chain lo [] hi \<longleftrightarrow> lo = hi"
| "chain lo (n # ns) hi \<longleftrightarrow>
     unat (blk_begin n) = lo \<and> chain (lo + unat (blk_size n)) ns hi"

definition heap_ok :: "MemNode list \<Rightarrow> bool" where
  "heap_ok ns \<longleftrightarrow> ns \<noteq> [] \<and> chain 1280 ns 1536"

definition wf_vm :: "vm \<Rightarrow> bool" where
  "wf_vm vm \<longleftrightarrow> length (registers vm) = 2 \<and> length (memory vm) = 2048 \<and>
     sp_ok (sp vm) \<and> heap_ok (memblocks vm)"

lemma wf_vmD:
  "wf_vm vm \<Longrightarrow> length (registers vm) = 2" "wf_vm vm \<Longrightarrow> length (memory vm) = 2048"
  "wf_vm vm \<Longrightarrow> sp_ok (sp vm)" "wf_vm vm \<Longrightarrow> heap_ok (memblocks vm)"
  by (simp_all add: wf_vm_def)

lemma zeros_0 [simp]: "zeros 0 = []"
  by (simp add: zeros_def)

lemma length_zeros [simp]: "length (zeros n) = n"
  by (simp add: zeros_def)

lemma nth_zeros [simp]: "i < n \<Longrightarrow> zeros n ! i = 0"
  by (simp add: zeros_def)

lemma drop_zeros [simp]: "drop i (zeros n) = zeros (n - i)"
  by (simp add: zeros_def)

lemma take_zeros [simp]: "take i (zeros n) = zeros (min i n)"
  by (simp add: zeros_def)

lemma wf_initVM: "wf_vm (initVM vm)"
  by (simp add: wf_vm_def initVM_def sp_ok_def heap_ok_def init_blocks_def memory_map N_REG_def)

lemma wf_vm_updates [simp]:
  "wf_vm (vm\<lparr>pc := p\<rparr>) = wf_vm vm" "wf_vm (vm\<lparr>sr := s\<rparr>) = wf_vm vm"
  "wf_vm (vm\<lparr>running := r\<rparr>) = wf_vm vm" "wf_vm (vm\<lparr>trace := t\<rparr>) = wf_vm vm"
  "wf_vm (vm\<lparr>registers := (registers vm)[i := v]\<rparr>) = wf_vm vm"
  by (simp_all add: wf_vm_def)

lemma wf_setSR [simp]:
  "wf_vm (setSROF v vm) = wf_vm vm" "wf_vm (setSRNF v vm) = wf_vm vm"
  "wf_vm (setSRZF v vm) = wf_vm vm" "wf_vm (setSRCF v vm) = wf_vm vm"
  by (simp_all add: setSR_defs)

lemma sp_ok_push:
  assumes "sp_ok s" "\<not> s \<le> STACK_BASE"
  shows "sp_ok (s - 8)" and "unat (s - 8) = unat s - 8" and "1544 \<le> unat s"
proof -
  have s: "1536 < unat s" "unat s \<le> 2048" "unat s mod 8 = 0"
    using assms by (auto simp: sp_ok_def STACK_BASE_def word_le_nat_alt)
  then show *: "1544 \<le> unat s" by presburger
  then have "(8 :: u64) \<le> s" by (simp add: word_le_nat_alt)
  then show **: "unat (s - 8) = unat s - 8" by (simp add: unat_sub)
  show "sp_ok (s - 8)" unfolding sp_ok_def ** using s * by presburger
qed

lemma sp_ok_pop:
  assumes "sp_ok s" "\<not> s \<ge> MEM_SIZE"
  shows "sp_ok (s + 8)" and "unat (s + 8) = unat s + 8" and "unat s + 8 \<le> 2048"
proof -
  have s: "1536 \<le> unat s" "unat s < 2048" "unat s mod 8 = 0"
    using assms by (auto simp: sp_ok_def MEM_SIZE_def word_le_nat_alt)
  then show *: "unat s + 8 \<le> 2048" by presburger
  then show **: "unat (s + 8) = unat s + 8" by (simp add: unat_word_ariths)
  show "sp_ok (s + 8)" unfolding sp_ok_def ** using s * by presburger
qed

text \<open>Register access through an index that the handler has checked, or not.\<close>

abbreviation reg :: "vm \<Rightarrow> u8 \<Rightarrow> u64" where
  "reg vm i \<equiv> registers vm ! unat i"

abbreviation set_reg :: "u8 \<Rightarrow> u64 \<Rightarrow> vm \<Rightarrow> vm" where
  "set_reg i v vm \<equiv> vm\<lparr>registers := (registers vm)[unat i := v]\<rparr>"

text \<open>A call that returns a status together with the updated machine.\<close>

type_synonym result = "(VM_Error \<times> vm) outcome"

end
