(* ===== verification/Memory.thy ===== *)
theory Memory
  imports Vm
begin

text \<open>
  \<^verbatim>\<open>src/runtime/memory.c\<close>: 64-bit and byte accesses to \<open>vm->memory\<close>. The guard
  \<open>addr + 7 >= MEM_SIZE\<close> is 64-bit unsigned arithmetic and wraps around; the accesses
  behind it are checked here against the array, so that an address the guard lets
  through wrongly is \<open>Undefined\<close>.
\<close>

unbundle bit_operations_syntax

section \<open>Operations\<close>

definition memRead64 :: "vm \<Rightarrow> u64 \<Rightarrow> (VM_Error + u64) outcome" where
  "memRead64 vm addr =
     (if addr + 7 \<ge> MEM_SIZE then Done (Inl VM_ILL_MEM_ACCESS)
      else obind (load_bytes (memory vm) addr 8) (\<lambda>bs. Done (Inr (or_bytes 0 bs 0))))"

definition memWrite64 :: "vm \<Rightarrow> u64 \<Rightarrow> u64 \<Rightarrow> result" where
  "memWrite64 vm addr value =
     (if addr + 7 \<ge> MEM_SIZE then Done (VM_ILL_MEM_ACCESS, vm)
      else obind (store_bytes (memory vm) addr
                    (map (\<lambda>i. ucast (signed_drop_bit (8 * i) value)) [0..<8]))
             (\<lambda>m. Done (VM_OK, vm\<lparr>memory := m\<rparr>)))"

definition memWriteByte :: "vm \<Rightarrow> u64 \<Rightarrow> u8 \<Rightarrow> result" where
  "memWriteByte vm addr byte =
     (if addr \<ge> MEM_SIZE then Done (VM_ILL_MEM_ACCESS, vm)
      else obind (store_bytes (memory vm) addr [byte]) (\<lambda>m. Done (VM_OK, vm\<lparr>memory := m\<rparr>)))"

definition memReadByte :: "vm \<Rightarrow> u64 \<Rightarrow> (VM_Error + u8) outcome" where
  "memReadByte vm addr =
     (if addr \<ge> MEM_SIZE then Done (Inl VM_ILL_MEM_ACCESS)
      else obind (load_bytes (memory vm) addr 1) (\<lambda>bs. Done (Inr (bs ! 0))))"

text \<open>
  The idiom of the handlers: \<open>status = memRead64(vm, addr, &value); if (status == VM_OK)
  {...} return status;\<close>.
\<close>

definition reading64 :: "vm \<Rightarrow> u64 \<Rightarrow> (u64 \<Rightarrow> result) \<Rightarrow> result" where
  "reading64 vm addr k =
     obind (memRead64 vm addr) (\<lambda>r. case r of Inl e \<Rightarrow> Done (e, vm) | Inr value \<Rightarrow> k value)"

section \<open>What an access does, by address\<close>

text \<open>An 8-byte cell inside the memory.\<close>

definition in_ram :: "u64 \<Rightarrow> bool" where
  "in_ram addr \<longleftrightarrow> unat addr + 8 \<le> 2048"

text \<open>The addresses for which \<open>addr + 7\<close> wraps around and slips under the guard.\<close>

definition guard_wraps :: "u64 \<Rightarrow> bool" where
  "guard_wraps addr \<longleftrightarrow> 2 ^ 64 - 7 \<le> unat addr"

definition cell :: "u8 list \<Rightarrow> nat \<Rightarrow> u64" where
  "cell mem i = word_le (take 8 (drop i mem))"

lemma guard_iff: "addr + 7 \<ge> MEM_SIZE \<longleftrightarrow> \<not> in_ram addr \<and> \<not> guard_wraps addr"
proof (cases "guard_wraps addr")
  case True
  then have "unat addr + 7 \<ge> 2 ^ 64" by (simp add: guard_wraps_def)
  moreover have "unat addr < 2 ^ 64" using unsigned_less [of addr] by simp
  ultimately have "unat (addr + 7) = unat addr + 7 - 2 ^ 64"
    by (simp add: unat_word_ariths mod_if)
  with \<open>unat addr < 2 ^ 64\<close> True show ?thesis
    by (simp add: MEM_SIZE_def word_le_nat_alt)
next
  case False
  then have "unat (addr + 7) = unat addr + 7"
    by (simp add: guard_wraps_def unat_word_ariths)
  with False show ?thesis by (auto simp: MEM_SIZE_def word_le_nat_alt in_ram_def)
qed

lemma in_ram_not_wraps: "in_ram addr \<Longrightarrow> \<not> guard_wraps addr"
  by (simp add: in_ram_def guard_wraps_def)

lemma memRead64_in_ram:
  assumes "length (memory vm) = 2048" "in_ram addr"
  shows "memRead64 vm addr = Done (Inr (cell (memory vm) (unat addr)))"
  using assms
  by (simp add: memRead64_def guard_iff load_bytes_Done
      in_ram_def cell_def word_le_def)

lemma memRead64_out:
  assumes "length (memory vm) = 2048" "\<not> in_ram addr"
  shows "memRead64 vm addr =
    (if guard_wraps addr then Undefined else Done (Inl VM_ILL_MEM_ACCESS))"
  using assms
  by (auto simp: memRead64_def guard_iff in_ram_def guard_wraps_def load_bytes_Undefined)

lemma signed_bytes: "map (\<lambda>i. ucast (signed_drop_bit (8 * i) (v :: u64))) [0..<8] = bytes_le 8 v"
  by (auto simp: bytes_le_def intro!: ucast_signed_drop_bit)

lemma memWrite64_in_ram:
  assumes "length (memory vm) = 2048" "in_ram addr"
  shows "memWrite64 vm addr v =
    Done (VM_OK, vm\<lparr>memory := overlay (unat addr) (bytes_le 8 v) (memory vm)\<rparr>)"
  using assms unfolding memWrite64_def signed_bytes
  by (simp add: guard_iff store_bytes_Done in_ram_def)

lemma memWrite64_out:
  assumes "length (memory vm) = 2048" "\<not> in_ram addr"
  shows "memWrite64 vm addr v =
    (if guard_wraps addr then Undefined else Done (VM_ILL_MEM_ACCESS, vm))"
proof -
  have "guard_wraps addr \<Longrightarrow> store_bytes (memory vm) addr (bytes_le 8 v) = Undefined"
    by (rule store_bytes_Undefined) (use assms in \<open>auto simp: guard_wraps_def bytes_le_def\<close>)
  with assms show ?thesis unfolding memWrite64_def signed_bytes by (auto simp: guard_iff)
qed

lemma reading64_in_ram:
  "length (memory vm) = 2048 \<Longrightarrow> in_ram addr \<Longrightarrow>
    reading64 vm addr k = k (cell (memory vm) (unat addr))"
  by (simp add: reading64_def memRead64_in_ram)

lemma reading64_out:
  "length (memory vm) = 2048 \<Longrightarrow> \<not> in_ram addr \<Longrightarrow>
    reading64 vm addr k = (if guard_wraps addr then Undefined else Done (VM_ILL_MEM_ACCESS, vm))"
  by (simp add: reading64_def memRead64_out)

lemma post_reading64 [post_intros]:
  "(\<And>e. Q (e, vm)) \<Longrightarrow> (\<And>v. post Q (k v)) \<Longrightarrow> post Q (reading64 vm addr k)"
  by (cases "memRead64 vm addr") (auto simp: reading64_def split: sum.splits)

lemma memWrite64_Done:
  assumes "memWrite64 vm addr v = Done (st, vm')" "length (memory vm) = 2048"
  shows "st = VM_OK \<and> in_ram addr \<and>
      vm' = vm\<lparr>memory := overlay (unat addr) (bytes_le 8 v) (memory vm)\<rparr> \<or>
    st = VM_ILL_MEM_ACCESS \<and> \<not> in_ram addr \<and> vm' = vm"
  using assms by (cases "in_ram addr") (auto simp: memWrite64_in_ram memWrite64_out split: if_splits)

lemma wf_memory_update:
  "wf_vm vm \<Longrightarrow> length m = length (memory vm) \<Longrightarrow> wf_vm (vm\<lparr>memory := m\<rparr>)"
  by (simp add: wf_vm_def)

lemma wf_overlay:
  "wf_vm vm \<Longrightarrow> i + length bs \<le> 2048 \<Longrightarrow> wf_vm (vm\<lparr>memory := overlay i bs (memory vm)\<rparr>)"
  by (simp add: wf_vm_def)

lemma wf_memWrite64:
  assumes "memWrite64 vm addr v = Done (st, vm')" "wf_vm vm"
  shows "wf_vm vm'"
  using memWrite64_Done [OF assms(1) wf_vmD(2) [OF assms(2)]] assms(2)
  by (auto simp: in_ram_def intro: wf_overlay)

lemma post_memWrite64 [post_intros]:
  assumes "wf_vm vm" "\<And>st vm'. wf_vm vm' \<Longrightarrow> Q (st, vm')"
  shows "post Q (memWrite64 vm addr v)"
  using assms by (auto simp: post_iff dest: wf_memWrite64)

section \<open>The contract of the memory\<close>

text \<open>
  What the handlers rely on: a store to a cell of the memory succeeds and is read back;
  a cell that shares no byte with it keeps its value.
\<close>

definition apart :: "u64 \<Rightarrow> u64 \<Rightarrow> bool" where
  "apart p q \<longleftrightarrow> unat p + 8 \<le> unat q \<or> unat q + 8 \<le> unat p"

lemma apart_sym: "apart p q \<Longrightarrow> apart q p"
  by (auto simp: apart_def)

locale word_store =
  fixes load :: "'s \<Rightarrow> u64 \<Rightarrow> (VM_Error + u64) outcome"
    and store :: "'s \<Rightarrow> u64 \<Rightarrow> u64 \<Rightarrow> (VM_Error \<times> 's) outcome"
    and inv :: "'s \<Rightarrow> bool"
    and usable :: "u64 \<Rightarrow> bool"
  assumes store_total: "inv s \<Longrightarrow> usable p \<Longrightarrow> \<exists>s'. store s p v = Done (VM_OK, s')"
    and store_inv: "inv s \<Longrightarrow> store s p v = Done (st, s') \<Longrightarrow> inv s'"
    and load_stored: "inv s \<Longrightarrow> store s p v = Done (VM_OK, s') \<Longrightarrow> load s' p = Done (Inr v)"
    and load_apart: "inv s \<Longrightarrow> store s p v = Done (VM_OK, s') \<Longrightarrow> apart p q \<Longrightarrow> load s' q = load s q"
begin

text \<open>Consecutive stores, each one cell below the last.\<close>

fun store_down :: "'s \<Rightarrow> u64 \<Rightarrow> u64 list \<Rightarrow> 's outcome" where
  "store_down s p [] = Done s"
| "store_down s p (v # vs) =
     obind (store s (p - 8) v) (\<lambda>(st, s'). if st = VM_OK then store_down s' (p - 8) vs else Undefined)"

lemma overwrite:
  assumes "inv s" "store s p v = Done (VM_OK, s1)" "store s1 p w = Done (VM_OK, s2)"
  shows "load s2 p = Done (Inr w)"
  using assms by (blast intro: load_stored store_inv)

lemma independent:
  assumes "inv s" "store s p v = Done (VM_OK, s1)" "store s1 q w = Done (VM_OK, s2)" "apart p q"
  shows "load s2 p = Done (Inr v) \<and> load s2 q = Done (Inr w)"
proof -
  have "inv s1" using assms by (blast intro: store_inv)
  then have "load s2 p = load s1 p" using assms by (blast intro: load_apart apart_sym)
  with assms \<open>inv s1\<close> show ?thesis by (metis load_stored)
qed

lemma store_down_inv: "inv s \<Longrightarrow> store_down s p vs = Done s' \<Longrightarrow> inv s'"
proof (induction vs arbitrary: s p)
  case (Cons v vs)
  then show ?case
    by (auto simp: obind_Done_iff split: if_splits intro: store_inv)
qed simp

lemma store_down_above:
  assumes "inv s" "store_down s p vs = Done s'" "8 * length vs \<le> unat p" "unat p \<le> unat q"
  shows "load s' q = load s q"
  using assms
proof (induction vs arbitrary: s p)
  case (Cons v vs)
  then obtain s1 where s1: "store s (p - 8) v = Done (VM_OK, s1)" "store_down s1 (p - 8) vs = Done s'"
    by (auto simp: obind_Done_iff split: if_splits)
  have p: "unat (p - 8) = unat p - 8"
    using Cons.prems(3) by (simp add: unat_sub word_le_nat_alt)
  have "load s' q = load s1 q"
    by (rule Cons.IH [OF store_inv [OF Cons.prems(1) s1(1)] s1(2)]) (use Cons.prems p in auto)
  also have "\<dots> = load s q"
    by (rule load_apart [OF Cons.prems(1) s1(1)]) (use Cons.prems p in \<open>auto simp: apart_def\<close>)
  finally show ?case .
qed simp

lemma store_down_read:
  assumes "inv s" "store_down s p vs = Done s'" "8 * length vs \<le> unat p" "i < length vs"
  shows "load s' (p - of_nat (8 * Suc i)) = Done (Inr (vs ! i))"
  using assms
proof (induction vs arbitrary: s p i)
  case (Cons v vs)
  then obtain s1 where s1: "store s (p - 8) v = Done (VM_OK, s1)" "store_down s1 (p - 8) vs = Done s'"
    by (auto simp: obind_Done_iff split: if_splits)
  have inv1: "inv s1" using store_inv [OF Cons.prems(1) s1(1)] .
  have p: "unat (p - 8) = unat p - 8" "8 * length vs \<le> unat (p - 8)"
    using Cons.prems(3) by (simp_all add: unat_sub word_le_nat_alt)
  show ?case
  proof (cases i)
    case 0
    then show ?thesis
      using store_down_above [OF inv1 s1(2) p(2) order_refl] load_stored [OF Cons.prems(1) s1(1)]
      by simp
  next
    case (Suc j)
    then show ?thesis
      using Cons.IH [OF inv1 s1(2) p(2), of j] Cons.prems(4) by (simp add: algebra_simps)
  qed
qed simp

end

lemma cell_overlay_same: "i + 8 \<le> length mem \<Longrightarrow> cell (overlay i (bytes_le 8 v) mem) i = v"
  using take_drop_overlay_same [of i "bytes_le 8 v" mem]
  by (simp add: cell_def word_le_bytes_le del: take_drop_overlay_same)

lemma cell_overlay_apart:
  "i + 8 \<le> length mem \<Longrightarrow> j + 8 \<le> length mem \<Longrightarrow> j + 8 \<le> i \<or> i + 8 \<le> j \<Longrightarrow>
    cell (overlay i (bytes_le 8 v) mem) j = cell mem j"
  by (simp add: cell_def take_drop_overlay_disjoint)

interpretation ram: word_store memRead64 memWrite64 wf_vm in_ram
proof
  show "\<exists>s'. memWrite64 s p v = Done (VM_OK, s')" if "wf_vm s" "in_ram p" for s p v
    using that by (simp add: memWrite64_in_ram wf_vmD)
  show "wf_vm s'" if "wf_vm s" "memWrite64 s p v = Done (st, s')" for s p v st s'
    using that by (blast intro: wf_memWrite64)
  show "memRead64 s' p = Done (Inr v)" if "wf_vm s" "memWrite64 s p v = Done (VM_OK, s')" for s p v s'
    using memWrite64_Done [OF that(2) wf_vmD(2) [OF that(1)]] that(1)
    by (auto simp: memRead64_in_ram wf_vmD in_ram_def cell_overlay_same)
  show "memRead64 s' q = memRead64 s q"
    if "wf_vm s" "memWrite64 s p v = Done (VM_OK, s')" "apart p q" for s p v s' q
    using memWrite64_Done [OF that(2) wf_vmD(2) [OF that(1)]] that(1,3)
    by (cases "in_ram q")
      (auto simp: memRead64_in_ram memRead64_out wf_vmD in_ram_def apart_def cell_overlay_apart)
qed

section \<open>Properties\<close>

text \<open>
  C31: a 64-bit store that reports success is read back unchanged, and every 64-bit cell
  that shares no byte with it reads as before.
\<close>

theorem memWrite64_memRead64:
  assumes "wf_vm vm" "memWrite64 vm addr v = Done (VM_OK, vm')"
  shows "memRead64 vm' addr = Done (Inr v) \<and>
    (\<forall>q. apart addr q \<longrightarrow> memRead64 vm' q = memRead64 vm q)"
  using ram.load_stored [OF assms] ram.load_apart [OF assms] by blast

theorem memWrite64_memRead64_witness:
  "\<exists>vm'. memWrite64 (initVM raw_vm) 1600 7 = Done (VM_OK, vm') \<and> memRead64 vm' 1600 = Done (Inr 7)"
proof -
  obtain vm' where w: "memWrite64 (initVM raw_vm) 1600 7 = Done (VM_OK, vm')"
    using ram.store_total [OF wf_initVM, of 1600 raw_vm 7] by (auto simp: in_ram_def)
  with memWrite64_memRead64 [OF wf_initVM w] show ?thesis by blast
qed

text \<open>
  C32: the memory accesses are classified by the address alone. Inside the memory they
  succeed; outside they report \<open>VM_ILL_MEM_ACCESS\<close>; but for the last seven addresses of
  the 64-bit space the guard wraps around and the access leaves the array.
\<close>

theorem memory_access_classified:
  assumes "wf_vm vm"
  shows "memRead64 vm addr =
      (if in_ram addr then Done (Inr (cell (memory vm) (unat addr)))
       else if guard_wraps addr then Undefined else Done (Inl VM_ILL_MEM_ACCESS)) \<and>
    memWrite64 vm addr v =
      (if in_ram addr then Done (VM_OK, vm\<lparr>memory := overlay (unat addr) (bytes_le 8 v) (memory vm)\<rparr>)
       else if guard_wraps addr then Undefined else Done (VM_ILL_MEM_ACCESS, vm))"
  using assms by (simp add: memRead64_in_ram memRead64_out memWrite64_in_ram memWrite64_out wf_vmD)

theorem memory_access_classified_witness:
  "memRead64 (initVM raw_vm) 0xFFFFFFFFFFFFFFFF = Undefined \<and> memRead64 (initVM raw_vm) 2041 = Done (Inl VM_ILL_MEM_ACCESS)"
proof -
  have "guard_wraps 0xFFFFFFFFFFFFFFFF" "\<not> in_ram 0xFFFFFFFFFFFFFFFF" "\<not> in_ram 2041" "\<not> guard_wraps 2041"
    by (simp_all add: guard_wraps_def in_ram_def)
  then show ?thesis using memory_access_classified [OF wf_initVM] by simp
qed

end
