(* ===== verification/Codec.thy ===== *)
theory Codec
  imports Vm
begin

text \<open>
  The instruction format: the enumerations and the instruction record of
  \<^verbatim>\<open>include/instructions.h\<close>, and the encoder and decoder of
  \<^verbatim>\<open>src/runtime/instructions_codec.c\<close>. A byte that is no operation code stands for
  \<open>OP_COUNT\<close>, one that is no mode for \<open>MODE_COUNT\<close>: every enumeration value from the
  count on behaves alike in the code, which only compares it with the count.
\<close>

unbundle bit_operations_syntax

section \<open>Operation codes and modes\<close>

datatype OP_CODE =
    OP_ADD | OP_SUB | OP_MUL | OP_DIV | OP_CMP | OP_NEG | OP_AND | OP_OR
  | OP_XOR | OP_NOT | OP_SHL | OP_SHR | OP_ST | OP_LD | OP_SWP | OP_PUSH
  | OP_POP | OP_FAS | OP_CALL | OP_RTN | OP_NOP | OP_RST | OP_JMP | OP_JEQ
  | OP_JNE | OP_JLE | OP_JLT | OP_JGE | OP_JGT | OP_HALT | OP_TRAP | OP_COUNT

datatype MODE =
  MODE_NONE | MODE_IMM | MODE_REGU | MODE_REG | MODE_DIR | MODE_IND | MODE_IDX | MODE_COUNT

text \<open>The numbers of the enumerations; their order is the order the code compares by.\<close>

fun op_num :: "OP_CODE \<Rightarrow> nat" where
  "op_num OP_ADD = 0"
| "op_num OP_SUB = 1"
| "op_num OP_MUL = 2"
| "op_num OP_DIV = 3"
| "op_num OP_CMP = 4"
| "op_num OP_NEG = 5"
| "op_num OP_AND = 6"
| "op_num OP_OR = 7"
| "op_num OP_XOR = 8"
| "op_num OP_NOT = 9"
| "op_num OP_SHL = 10"
| "op_num OP_SHR = 11"
| "op_num OP_ST = 12"
| "op_num OP_LD = 13"
| "op_num OP_SWP = 14"
| "op_num OP_PUSH = 15"
| "op_num OP_POP = 16"
| "op_num OP_FAS = 17"
| "op_num OP_CALL = 18"
| "op_num OP_RTN = 19"
| "op_num OP_NOP = 20"
| "op_num OP_RST = 21"
| "op_num OP_JMP = 22"
| "op_num OP_JEQ = 23"
| "op_num OP_JNE = 24"
| "op_num OP_JLE = 25"
| "op_num OP_JLT = 26"
| "op_num OP_JGE = 27"
| "op_num OP_JGT = 28"
| "op_num OP_HALT = 29"
| "op_num OP_TRAP = 30"
| "op_num OP_COUNT = 31"

fun mode_num :: "MODE \<Rightarrow> nat" where
  "mode_num MODE_NONE = 0"
| "mode_num MODE_IMM = 1"
| "mode_num MODE_REGU = 2"
| "mode_num MODE_REG = 3"
| "mode_num MODE_DIR = 4"
| "mode_num MODE_IND = 5"
| "mode_num MODE_IDX = 6"
| "mode_num MODE_COUNT = 7"

definition all_ops :: "OP_CODE list" where
  "all_ops =
    [OP_ADD, OP_SUB, OP_MUL, OP_DIV, OP_CMP, OP_NEG, OP_AND, OP_OR, OP_XOR, OP_NOT, OP_SHL,
     OP_SHR, OP_ST, OP_LD, OP_SWP, OP_PUSH, OP_POP, OP_FAS, OP_CALL, OP_RTN, OP_NOP, OP_RST,
     OP_JMP, OP_JEQ, OP_JNE, OP_JLE, OP_JLT, OP_JGE, OP_JGT, OP_HALT, OP_TRAP]"

definition all_modes :: "MODE list" where
  "all_modes = [MODE_NONE, MODE_IMM, MODE_REGU, MODE_REG, MODE_DIR, MODE_IND, MODE_IDX]"

definition op_of_byte :: "u8 \<Rightarrow> OP_CODE" where
  "op_of_byte x = (if unat x < length all_ops then all_ops ! unat x else OP_COUNT)"

definition mode_of_byte :: "u8 \<Rightarrow> MODE" where
  "mode_of_byte x = (if unat x < length all_modes then all_modes ! unat x else MODE_COUNT)"

lemma inj_op_num: "op_num x = op_num y \<Longrightarrow> x = y"
  by (cases x; cases y; simp)

lemma inj_mode_num: "mode_num x = mode_num y \<Longrightarrow> x = y"
  by (cases x; cases y; simp)

instantiation OP_CODE :: linorder
begin

definition less_eq_OP_CODE :: "OP_CODE \<Rightarrow> OP_CODE \<Rightarrow> bool" where
  "less_eq_OP_CODE x y \<longleftrightarrow> op_num x \<le> op_num y"

definition less_OP_CODE :: "OP_CODE \<Rightarrow> OP_CODE \<Rightarrow> bool" where
  "less_OP_CODE x y \<longleftrightarrow> op_num x < op_num y"

instance
  by standard (auto simp: less_eq_OP_CODE_def less_OP_CODE_def intro: inj_op_num)

end

instantiation MODE :: linorder
begin

definition less_eq_MODE :: "MODE \<Rightarrow> MODE \<Rightarrow> bool" where
  "less_eq_MODE x y \<longleftrightarrow> mode_num x \<le> mode_num y"

definition less_MODE :: "MODE \<Rightarrow> MODE \<Rightarrow> bool" where
  "less_MODE x y \<longleftrightarrow> mode_num x < mode_num y"

instance
  by standard (auto simp: less_eq_MODE_def less_MODE_def intro: inj_mode_num)

end

lemma op_ge_COUNT [simp]: "op \<ge> OP_COUNT \<longleftrightarrow> op = OP_COUNT"
  by (cases op) (simp_all add: less_eq_OP_CODE_def)

lemma mode_ge_COUNT [simp]: "m \<ge> MODE_COUNT \<longleftrightarrow> m = MODE_COUNT"
  by (cases m) (simp_all add: less_eq_MODE_def)

lemma op_of_byte_num [simp]: "op_of_byte (word_of_nat (op_num op)) = op"
  by (cases op) (simp_all add: op_of_byte_def all_ops_def)

lemma mode_of_byte_num [simp]: "mode_of_byte (word_of_nat (mode_num m)) = m"
  by (cases m) (simp_all add: mode_of_byte_def all_modes_def)

lemma mode_of_byte_eval [simp]:
  "mode_of_byte 0 = MODE_NONE" "mode_of_byte 1 = MODE_IMM" "mode_of_byte 2 = MODE_REGU"
  "mode_of_byte 3 = MODE_REG" "mode_of_byte 4 = MODE_DIR" "mode_of_byte 5 = MODE_IND"
  "mode_of_byte 6 = MODE_IDX"
  by (simp_all add: mode_of_byte_def all_modes_def)

text \<open>The table \<open>mode_size\<close>; a read of the table at \<open>MODE_COUNT\<close> or beyond leaves it.\<close>

fun mode_size :: "MODE \<Rightarrow> u64" where
  "mode_size MODE_NONE = 2"
| "mode_size MODE_IMM = 11"
| "mode_size MODE_REGU = 3"
| "mode_size MODE_REG = 4"
| "mode_size MODE_DIR = 11"
| "mode_size MODE_IND = 4"
| "mode_size MODE_IDX = 12"
| "mode_size MODE_COUNT = 0"

definition with_mode_size :: "MODE \<Rightarrow> (u64 \<Rightarrow> 'a outcome) \<Rightarrow> 'a outcome" where
  "with_mode_size m k = (if m \<ge> MODE_COUNT then Undefined else k (mode_size m))"

lemma with_mode_size_simps [simp]:
  "with_mode_size MODE_COUNT k = Undefined"
  "m \<noteq> MODE_COUNT \<Longrightarrow> with_mode_size m k = k (mode_size m)"
  by (simp_all add: with_mode_size_def)

lemma post_with_mode_size [post_intros]:
  "post Q (k (mode_size m)) \<Longrightarrow> post Q (with_mode_size m k)"
  by (simp add: with_mode_size_def)

lemma mode_size_bounds: "m \<noteq> MODE_COUNT \<Longrightarrow> 2 \<le> unat (mode_size m) \<and> unat (mode_size m) \<le> 12"
  by (cases m) simp_all

section \<open>Instructions\<close>

text \<open>The union \<open>args\<close> has two 64-bit members, \<open>imm\<close> and \<open>offset\<close>: one field here.\<close>

record instruction =
  opcode :: OP_CODE
  mode :: MODE
  ins_a :: u8
  ins_b :: u8
  args :: u64

definition codecB :: "instruction \<Rightarrow> bool" where
  "codecB instr \<longleftrightarrow> mode instr = MODE_REG \<or> mode instr = MODE_IND \<or> mode instr = MODE_IDX"

definition codecARGS :: "instruction \<Rightarrow> bool" where
  "codecARGS instr \<longleftrightarrow> mode instr = MODE_IMM \<or> mode instr = MODE_IDX \<or> mode instr = MODE_DIR"

section \<open>Encoding\<close>

text \<open>
  \<open>instructionEncode\<close> stores its bytes one after the other from \<open>buffer[0]\<close> on, and
  returns how many it stored, or 0 where the space runs out. The result here is the list
  of bytes stored (also those stored before the space ran out) and the returned size.
\<close>

definition encode_args :: "instruction \<Rightarrow> u8 list \<Rightarrow> u64 \<Rightarrow> (u8 list \<times> u64) outcome" where
  "encode_args instr w remaining =
     (if codecARGS instr then
        if remaining \<ge> 8 then
          let w = w @ map (\<lambda>j. ucast (signed_drop_bit (8 * j) (args instr))) [0..<8]
          in Done (w, word_of_nat (length w))
        else Done (w, 0)
      else Done (w, word_of_nat (length w)))"

definition instructionEncode :: "instruction \<Rightarrow> u64 \<Rightarrow> (u8 list \<times> u64) outcome" where
  "instructionEncode instr remaining =
     (if opcode instr \<ge> OP_COUNT then Exit_failure
      else if remaining \<ge> 2 then
        let w = [word_of_nat (op_num (opcode instr)), word_of_nat (mode_num (mode instr))]
        in if mode instr = MODE_NONE then Done (w, word_of_nat (length w))
           else let remaining = remaining - 2
           in if remaining \<ge> 1 then
                let w = w @ [ins_a instr]; remaining = remaining - 1
                in if codecB instr then
                     if remaining \<ge> 1 then encode_args instr (w @ [ins_b instr]) (remaining - 1)
                     else Done (w, 0)
                   else encode_args instr w remaining
              else Done (w, 0)
      else Done ([], 0))"

section \<open>Decoding\<close>

text \<open>
  \<open>instructionDecode\<close> fills a caller's instruction that it does not clear: the fields the
  mode does not use keep their old value, and the argument bytes are or-ed into the old
  argument. The first parameter is that old value.
\<close>

definition peek :: "u8 list \<Rightarrow> nat \<Rightarrow> (u8 \<Rightarrow> 'a outcome) \<Rightarrow> 'a outcome" where
  "peek buffer i k = (if i < length buffer then k (buffer ! i) else Undefined)"

definition decode_args :: "instruction \<Rightarrow> u8 list \<Rightarrow> u64 \<Rightarrow> (instruction \<times> u64) outcome" where
  "decode_args instr buffer i =
     (if codecARGS instr then
        obind (load_bytes buffer i 8) (\<lambda>bs. Done (instr\<lparr>args := or_bytes 0 bs (args instr)\<rparr>, i + 8))
      else Done (instr, i))"

definition instructionDecode :: "instruction \<Rightarrow> u8 list \<Rightarrow> u64 \<Rightarrow> (instruction \<times> u64) outcome" where
  "instructionDecode instr buffer remaining =
     (if remaining < 2 then Done (instr, 0)
      else peek buffer 0 (\<lambda>x.
        let instr = instr\<lparr>opcode := op_of_byte x\<rparr>
        in if opcode instr \<ge> OP_COUNT then Exit_failure
        else peek buffer 1 (\<lambda>y.
          let instr = instr\<lparr>mode := mode_of_byte y\<rparr>
          in if mode instr = MODE_NONE then Done (instr, 2)
          else with_mode_size (mode instr) (\<lambda>sz.
            if remaining - 2 < sz then Done (instr, 2)
            else peek buffer 2 (\<lambda>a.
              let instr = instr\<lparr>ins_a := a\<rparr>
              in if codecB instr
                 then peek buffer 3 (\<lambda>b. decode_args (instr\<lparr>ins_b := b\<rparr>) buffer 4)
                 else decode_args instr buffer 3)))))"

text \<open>The bytes of an instruction, without the space checks.\<close>

definition encoding :: "instruction \<Rightarrow> u8 list" where
  "encoding instr =
     word_of_nat (op_num (opcode instr)) # word_of_nat (mode_num (mode instr)) #
     (if mode instr = MODE_NONE then [] else
      ins_a instr # (if codecB instr then [ins_b instr] else []) @
      (if codecARGS instr then bytes_le 8 (args instr) else []))"

text \<open>What a decoder leaves in an instruction that held \<open>old\<close> before.\<close>

definition decoded_over :: "instruction \<Rightarrow> instruction \<Rightarrow> instruction" where
  "decoded_over old instr = old\<lparr>
     opcode := opcode instr, mode := mode instr,
     ins_a := (if mode instr = MODE_NONE then ins_a old else ins_a instr),
     ins_b := (if codecB instr then ins_b instr else ins_b old),
     args := (if codecARGS instr then args old OR args instr else args old)\<rparr>"

text \<open>The number of bytes the decoder asks for before it reads an operand.\<close>

definition decode_need :: "MODE \<Rightarrow> u64" where
  "decode_need m = (if m = MODE_NONE then 2 else mode_size m + 2)"

lemma length_encoding: "mode instr \<noteq> MODE_COUNT \<Longrightarrow> length (encoding instr) = unat (mode_size (mode instr))"
  by (cases "mode instr") (simp_all add: encoding_def codecB_def codecARGS_def)

lemma signed_arg_bytes: "map (\<lambda>j. ucast (signed_drop_bit (8 * j) (v :: u64))) [0..<8] = bytes_le 8 v"
  by (auto simp: bytes_le_def intro!: ucast_signed_drop_bit)

lemma word_sub_ge:
  fixes r :: u64
  shows "unat c + unat k \<le> unat r \<Longrightarrow> k \<le> r - c"
  by (simp add: word_le_nat_alt unat_sub)

lemma instructionEncode_room:
  assumes "opcode instr \<noteq> OP_COUNT" "mode instr \<noteq> MODE_COUNT" "mode_size (mode instr) \<le> remaining"
  shows "instructionEncode instr remaining = Done (encoding instr, mode_size (mode instr))"
proof -
  have r: "unat (mode_size (mode instr)) \<le> unat remaining"
    using assms(3) by (simp add: word_le_nat_alt)
  have s: "unat (remaining - 2) = unat remaining - 2" "2 \<le> remaining"
    using r mode_size_bounds [OF assms(2)] by (auto simp: unat_sub word_le_nat_alt)
  show ?thesis
    using assms(1) r s unfolding instructionEncode_def encode_args_def signed_arg_bytes
    by (cases "mode instr")
      (use assms(2) in \<open>auto simp: Let_def encoding_def codecB_def codecARGS_def word_le_nat_alt unat_sub\<close>)
qed

lemma instructionEncode_no_room:
  assumes "opcode instr \<noteq> OP_COUNT" "mode instr \<noteq> MODE_COUNT" "remaining < mode_size (mode instr)"
  shows "\<exists>w. instructionEncode instr remaining = Done (w, 0)"
proof -
  have r: "unat remaining < unat (mode_size (mode instr))"
    using assms(3) by (simp add: word_less_nat_alt)
  have s: "2 \<le> unat remaining \<Longrightarrow> unat (remaining - 2) = unat remaining - 2"
    by (simp add: unat_sub word_le_nat_alt)
  have t: "3 \<le> unat remaining \<Longrightarrow> unat (remaining - 2 - 1) = unat remaining - 3"
    using s by (simp add: unat_sub word_le_nat_alt)
  have u: "4 \<le> unat remaining \<Longrightarrow> unat (remaining - 2 - 1 - 1) = unat remaining - 4"
    using t by (simp add: unat_sub word_le_nat_alt)
  show ?thesis
    using assms(1) r s t u unfolding instructionEncode_def encode_args_def
    by (cases "mode instr")
      (use assms(2) in \<open>auto simp: Let_def codecB_def codecARGS_def word_le_nat_alt\<close>)
qed

section \<open>Decoding an encoding\<close>

lemma mode_size_sub:
  "m \<noteq> MODE_COUNT \<Longrightarrow> m \<noteq> MODE_NONE \<Longrightarrow> decode_need m \<le> remaining \<longleftrightarrow>
    2 \<le> remaining \<and> mode_size m \<le> remaining - 2"
  by (cases m; auto simp: decode_need_def word_le_nat_alt unat_sub)

lemma decode_args_encoding:
  assumes "codecARGS instr" "unat i + 8 \<le> length buffer" "length buffer < 2 ^ 64"
    and "take 8 (drop (unat i) buffer) = bytes_le 8 v"
  shows "decode_args instr buffer i = Done (instr\<lparr>args := args instr OR v\<rparr>, i + 8)"
  using assms
  by (simp add: decode_args_def load_bytes_Done or_bytes_word_le word_le_bytes_le)

lemma instructionDecode_encoding:
  assumes "opcode instr \<noteq> OP_COUNT" "mode instr \<noteq> MODE_COUNT"
    and "decode_need (mode instr) \<le> remaining" "length rest < 2 ^ 32"
  shows "instructionDecode old (encoding instr @ rest) remaining =
    Done (decoded_over old instr, mode_size (mode instr))"
proof (cases "mode instr = MODE_NONE")
  case True
  with assms show ?thesis
    by (simp add: instructionDecode_def peek_def encoding_def decoded_over_def decode_need_def
        codecB_def codecARGS_def not_less)
next
  case False
  have r: "2 \<le> remaining" "mode_size (mode instr) \<le> remaining - 2"
    using assms(3) mode_size_sub [OF assms(2) False] by auto
  show ?thesis
  proof (cases "codecARGS instr")
    case True
    with assms False r show ?thesis
      by (cases "mode instr")
        (simp_all add: instructionDecode_def peek_def encoding_def decoded_over_def codecB_def
          codecARGS_def not_less decode_args_encoding Let_def)
  next
    case ca: False
    with assms False r show ?thesis
      by (cases "mode instr")
        (simp_all add: instructionDecode_def peek_def encoding_def decoded_over_def codecB_def
          codecARGS_def not_less decode_args_def Let_def)
  qed
qed

lemma instructionDecode_short:
  assumes "opcode instr \<noteq> OP_COUNT" "mode instr \<noteq> MODE_COUNT"
    and "remaining < decode_need (mode instr)" "2 \<le> remaining"
  shows "instructionDecode old (encoding instr @ rest) remaining =
    Done (old\<lparr>opcode := opcode instr, mode := mode instr\<rparr>, 2)"
proof -
  have "mode instr \<noteq> MODE_NONE" using assms(3,4) by (auto simp: decode_need_def)
  moreover from this have "remaining - 2 < mode_size (mode instr)"
    using assms(3,4) mode_size_sub [OF assms(2), of remaining] by (auto simp: not_le)
  ultimately show ?thesis
    using assms by (simp add: instructionDecode_def peek_def encoding_def not_less)
qed

section \<open>Properties\<close>

text \<open>
  C30: an instruction that the encoder accepts is stored as exactly \<open>mode_size\<close> bytes when
  they fit, and as a refusal (0) when they do not; only an invalid operation code ends the
  process.
\<close>

theorem instructionEncode_classified:
  assumes "mode instr \<noteq> MODE_COUNT"
  shows "if opcode instr = OP_COUNT then instructionEncode instr remaining = Exit_failure
    else if mode_size (mode instr) \<le> remaining
    then instructionEncode instr remaining = Done (encoding instr, mode_size (mode instr)) \<and>
      length (encoding instr) = unat (mode_size (mode instr))
    else \<exists>w. instructionEncode instr remaining = Done (w, 0)"
  using assms
  by (simp add: instructionEncode_room length_encoding instructionEncode_no_room not_le)
    (simp add: instructionEncode_def)

theorem instructionEncode_classified_witness:
  "instructionEncode \<lparr>opcode = OP_LD, mode = MODE_REG, ins_a = 0, ins_b = 1, args = 0\<rparr> 4 =
    Done ([13, 3, 0, 1], 4)"
  using instructionEncode_classified
      [of "\<lparr>opcode = OP_LD, mode = MODE_REG, ins_a = 0, ins_b = 1, args = 0\<rparr>" 4]
  by (simp add: encoding_def codecB_def codecARGS_def)

text \<open>
  C29: decoding inverts encoding, up to what the decoder's target held before. With two
  bytes to spare after the instruction, the decoder reports the encoded size and every
  field the mode uses, but the argument it returns is the old argument or-ed with the
  encoded one: the round trip is exact when the old argument was 0.
\<close>

theorem instructionDecode_Encode:
  assumes "instructionEncode instr room = Done (w, n)" "n \<noteq> 0" "mode instr \<noteq> MODE_COUNT"
    and "decode_need (mode instr) \<le> remaining" "length rest < 2 ^ 32"
  shows "instructionDecode old (w @ rest) remaining = Done (decoded_over old instr, n) \<and>
    n = mode_size (mode instr) \<and>
    (args old = 0 \<longrightarrow> codecARGS instr \<longrightarrow> args (decoded_over old instr) = args instr)"
proof -
  have op: "opcode instr \<noteq> OP_COUNT"
    using assms(1) by (auto simp: instructionEncode_def)
  have "mode_size (mode instr) \<le> room"
    using assms(1,2) instructionEncode_no_room [OF op assms(3), of room] by fastforce
  then have "w = encoding instr" "n = mode_size (mode instr)"
    using assms(1) instructionEncode_room [OF op assms(3)] by auto
  with instructionDecode_encoding [OF op assms(3-5)] show ?thesis
    by (simp add: decoded_over_def)
qed

theorem instructionDecode_Encode_witness:
  "\<exists>i. instructionDecode \<lparr>opcode = OP_ADD, mode = MODE_NONE, ins_a = 9, ins_b = 9, args = 4\<rparr>
      ([13, 1, 0] @ bytes_le 8 (3 :: u64) @ [0, 0]) 13 = Done (i, 11) \<and> args i = 7"
proof -
  let ?i = "\<lparr>opcode = OP_LD, mode = MODE_IMM, ins_a = 0, ins_b = 0, args = 3\<rparr>"
  have e: "instructionEncode ?i 11 = Done ([13, 1, 0] @ bytes_le 8 (3 :: u64), 11)"
    by (simp add: instructionEncode_room encoding_def codecB_def codecARGS_def)
  show ?thesis
    using instructionDecode_Encode [OF e, of 13 "[0, 0]"
        "\<lparr>opcode = OP_ADD, mode = MODE_NONE, ins_a = 9, ins_b = 9, args = 4\<rparr>"]
    by (simp add: decode_need_def decoded_over_def codecB_def codecARGS_def)
qed

end
