(* ===== verification/Alu.thy ===== *)
theory Alu
  imports Memory Codec "HOL-Library.Signed_Division"
begin

text \<open>
  What the two-operand instructions of \<^verbatim>\<open>src/runtime/instructions.c\<close> share: the flag
  setters \<open>setSRADD\<close>, \<open>setSRSUB\<close>, \<open>setSRMUL\<close>, \<open>setSRDIV\<close>, \<open>setSRNEG\<close>, \<open>setSRLOG\<close>,
  \<open>setSRSHL\<close>, \<open>setSRSHR\<close> with the meaning of the flags, the C operators that can be
  undefined, the operand fetch by addressing mode, and the contract \<open>alu_family\<close> that the
  five handlers of one operation keep.

  Signed \<open>+\<close>, \<open>-\<close> and \<open>*\<close> wrap around: the build asks for \<open>-fsanitize=undefined\<close>,
  which reports an overflow on stderr and goes on with the wrapped value, and the flags
  are computed from that value. Left shifts of negative values and arithmetic right
  shifts are what GCC documents. A shift by 64 or more has no defined value.
\<close>

unbundle bit_operations_syntax

type_synonym handler = "vm \<Rightarrow> instruction \<Rightarrow> result"

section \<open>Signed 64-bit values\<close>

definition INT64_MIN :: u64 where "INT64_MIN = push_bit 63 1"

text \<open>The value a 64-bit signed operation leaves when the exact one is \<open>k\<close>.\<close>

definition swrap :: "int \<Rightarrow> int" where
  "swrap k = (k + 2 ^ 63) mod 2 ^ 64 - 2 ^ 63"

definition fits64 :: "int \<Rightarrow> bool" where
  "fits64 k \<longleftrightarrow> - (2 ^ 63) \<le> k \<and> k < 2 ^ 63"

lemma signed_take_bit_swrap: "signed_take_bit 63 k = swrap k"
  by (simp add: signed_take_bit_eq_take_bit_shift take_bit_eq_mod swrap_def)

lemma sint_arith:
  "sint (a + b :: u64) = swrap (sint a + sint b)"
  "sint (a - b :: u64) = swrap (sint a - sint b)"
  "sint (a * b :: u64) = swrap (sint a * sint b)"
  "sint (- a :: u64) = swrap (- sint a)"
  by (simp_all add: sint_word_ariths signed_take_bit_swrap)

lemma fits64_sint [simp]: "fits64 (sint (x :: u64))"
  using sint_greater_eq [of x] sint_less [of x] by (simp add: fits64_def)

lemma swrap_cases:
  assumes "- (2 ^ 64) \<le> k" "k < 2 ^ 64"
  shows "swrap k = (if k < - (2 ^ 63) then k + 2 ^ 64 else if 2 ^ 63 \<le> k then k - 2 ^ 64 else k)"
proof -
  consider "k < - (2 ^ 63)" | "2 ^ 63 \<le> k" | "- (2 ^ 63) \<le> k" "k < 2 ^ 63" by linarith
  then show ?thesis
  proof cases
    case 1
    have "(k + 2 ^ 63) mod 2 ^ 64 = (k + 2 ^ 63 + 2 ^ 64) mod 2 ^ 64"
      by (rule mod_add_self2 [symmetric])
    also have "\<dots> = k + 2 ^ 63 + 2 ^ 64" by (rule mod_pos_pos_trivial) (use 1 assms in auto)
    finally have "(k + 2 ^ 63) mod 2 ^ 64 = k + 2 ^ 63 + 2 ^ 64" .
    with 1 show ?thesis by (simp add: swrap_def)
  next
    case 2
    have "(k + 2 ^ 63) mod 2 ^ 64 = (k + 2 ^ 63 - 2 ^ 64 + 2 ^ 64) mod 2 ^ 64"
      by (simp only: diff_add_cancel)
    also have "\<dots> = (k + 2 ^ 63 - 2 ^ 64) mod 2 ^ 64" by (rule mod_add_self2)
    also have "\<dots> = k + 2 ^ 63 - 2 ^ 64" by (rule mod_pos_pos_trivial) (use 2 assms in auto)
    finally have "(k + 2 ^ 63) mod 2 ^ 64 = k + 2 ^ 63 - 2 ^ 64" .
    with 2 show ?thesis by (simp add: swrap_def)
  next
    case 3
    then show ?thesis by (simp add: swrap_def mod_pos_pos_trivial)
  qed
qed

lemma swrap_id_iff: "swrap k = k \<longleftrightarrow> fits64 k"
  using signed_take_bit_int_eq_self_iff [of 63 k] by (simp add: signed_take_bit_swrap fits64_def)

lemma sint_neg_bit: "sint (x :: u64) < 0 \<longleftrightarrow> bit x 63"
  using bit_last_iff [of x] by simp

lemma asr63:
  "signed_drop_bit 63 (x :: u64) \<noteq> 0 \<longleftrightarrow> sint x < 0"
  "signed_drop_bit 63 (x :: u64) AND 1 \<noteq> 0 \<longleftrightarrow> sint x < 0"
proof -
  have b: "bit (signed_drop_bit 63 x) n \<longleftrightarrow> n < 64 \<and> bit x 63" for n
    by (cases "n = 0") (auto simp: bit_signed_drop_bit_iff dest: bit_imp_le_length)
  have "signed_drop_bit 63 x = 0 \<longleftrightarrow> \<not> bit x 63"
    by (auto simp: bit_eq_iff b intro: exI [of _ 0])
  then show "signed_drop_bit 63 x \<noteq> 0 \<longleftrightarrow> sint x < 0" by (simp add: sint_neg_bit)
  have "signed_drop_bit 63 x AND 1 \<noteq> 0 \<longleftrightarrow> bit (signed_drop_bit 63 x) 0"
    using and_single_bit_nonzero [of 0 "signed_drop_bit 63 x"] by simp
  then show "signed_drop_bit 63 x AND 1 \<noteq> 0 \<longleftrightarrow> sint x < 0" by (simp add: b sint_neg_bit)
qed

section \<open>Operators that can be undefined\<close>

definition c_shl :: "u64 \<Rightarrow> u64 \<Rightarrow> u64 outcome" where
  "c_shl a n = (if n < 64 then Done (push_bit (unat n) a) else Undefined)"

definition c_sar :: "u64 \<Rightarrow> u64 \<Rightarrow> u64 outcome" where
  "c_sar a n = (if n < 64 then Done (signed_drop_bit (unat n) a) else Undefined)"

definition c_div :: "u64 \<Rightarrow> u64 \<Rightarrow> u64 outcome" where
  "c_div a b = (if b = 0 \<or> a = INT64_MIN \<and> b = - 1 then Undefined
     else Done (word_of_int (sint a sdiv sint b)))"

section \<open>Flag setters\<close>

definition clear_flags :: "vm \<Rightarrow> vm" where
  "clear_flags vm = setSROF False (setSRCF False (setSRNF False (setSRZF False vm)))"

definition set_ZN :: "u64 \<Rightarrow> vm \<Rightarrow> vm" where
  "set_ZN res vm =
     (let vm = (if res = 0 then setSRZF True vm else vm)
      in if signed_drop_bit 63 res AND 1 \<noteq> 0 then setSRNF True vm else vm)"

definition setSRADD :: "u64 \<Rightarrow> u64 \<Rightarrow> u64 \<Rightarrow> vm \<Rightarrow> vm" where
  "setSRADD a b res vm =
     (let vm = set_ZN res (clear_flags vm);
          vm = (if res <s a then setSRCF True vm else vm)
      in if signed_drop_bit 63 (NOT (a XOR b) AND (a XOR res)) \<noteq> 0 then setSROF True vm else vm)"

definition setSRSUB :: "u64 \<Rightarrow> u64 \<Rightarrow> u64 \<Rightarrow> vm \<Rightarrow> vm" where
  "setSRSUB a b res vm =
     (let vm = set_ZN res (clear_flags vm);
          vm = (if a < b then setSRCF True vm else vm)
      in if signed_drop_bit 63 ((a XOR b) AND (a XOR res)) \<noteq> 0 then setSROF True vm else vm)"

definition setSRMUL :: "u64 \<Rightarrow> u64 \<Rightarrow> u64 \<Rightarrow> vm \<Rightarrow> vm" where
  "setSRMUL a b res vm =
     (let full = sint a * sint b;
          vm = set_ZN res (clear_flags vm)
      in if full > 2 ^ 63 - 1 \<or> full < - (2 ^ 63) then setSROF True (setSRCF True vm) else vm)"

definition setSRDIV :: "u64 \<Rightarrow> vm \<Rightarrow> vm" where
  "setSRDIV res vm = set_ZN res (clear_flags vm)"

definition setSRNEG :: "u64 \<Rightarrow> u64 \<Rightarrow> vm \<Rightarrow> vm" where
  "setSRNEG a res vm =
     (let vm = set_ZN res (clear_flags vm);
          vm = (if a = INT64_MIN then setSROF True vm else vm)
      in if a \<noteq> 0 then setSRCF True vm else vm)"

definition setSRLOG :: "u64 \<Rightarrow> vm \<Rightarrow> vm" where
  "setSRLOG res vm = set_ZN res (clear_flags vm)"

text \<open>
  The carry of a shift is read by another shift: by \<open>63 - n + 1\<close> to the right for SHL,
  by \<open>n - 1\<close> for SHR, both 64-bit unsigned amounts.
\<close>

definition setSRSHL :: "u64 \<Rightarrow> u64 \<Rightarrow> u64 \<Rightarrow> vm \<Rightarrow> vm outcome" where
  "setSRSHL a n res vm =
     obind (c_sar a (63 - n + 1)) (\<lambda>c.
       let vm = set_ZN res (clear_flags vm);
           vm = (if c AND 1 \<noteq> 0 then setSRCF True vm else vm)
       in Done (if signed_drop_bit 63 res \<noteq> signed_drop_bit 63 a then setSROF True vm else vm))"

definition setSRSHR :: "u64 \<Rightarrow> u64 \<Rightarrow> u64 \<Rightarrow> vm \<Rightarrow> vm outcome" where
  "setSRSHR a n res vm =
     obind (c_sar a (n - 1)) (\<lambda>c.
       let vm = set_ZN res (clear_flags vm)
       in Done (if c AND 1 \<noteq> 0 then setSRCF True vm else vm))"

lemmas set_flags_defs = setSRADD_def setSRSUB_def setSRMUL_def setSRDIV_def setSRNEG_def setSRLOG_def

section \<open>What the flag setters do\<close>

text \<open>Nothing but \<open>sr\<close> changes: the setters are updates of \<open>sr\<close> by a function of \<open>sr\<close>.\<close>

lemma set_flag_update:
  "setSROF v vm = vm\<lparr>sr := sr (setSROF v vm)\<rparr>" "setSRNF v vm = vm\<lparr>sr := sr (setSRNF v vm)\<rparr>"
  "setSRZF v vm = vm\<lparr>sr := sr (setSRZF v vm)\<rparr>" "setSRCF v vm = vm\<lparr>sr := sr (setSRCF v vm)\<rparr>"
  by (simp_all add: setSR_defs)

definition only_sr :: "vm \<Rightarrow> vm \<Rightarrow> bool" where
  "only_sr vm vm' \<longleftrightarrow> (\<exists>s. vm' = vm\<lparr>sr := s\<rparr>)"

lemma only_sr_refl [simp]: "only_sr vm vm"
  by (cases vm) (auto simp: only_sr_def)

lemma only_sr_trans: "only_sr vm vm1 \<Longrightarrow> only_sr vm1 vm2 \<Longrightarrow> only_sr vm vm2"
  by (auto simp: only_sr_def)

lemma only_sr_flag:
  "only_sr vm vm' \<Longrightarrow> only_sr vm (setSROF v vm')" "only_sr vm vm' \<Longrightarrow> only_sr vm (setSRNF v vm')"
  "only_sr vm vm' \<Longrightarrow> only_sr vm (setSRZF v vm')" "only_sr vm vm' \<Longrightarrow> only_sr vm (setSRCF v vm')"
  by (auto simp: only_sr_def setSR_defs)

lemma only_sr_set_ZN: "only_sr vm vm' \<Longrightarrow> only_sr vm (set_ZN res vm')"
  by (simp add: set_ZN_def only_sr_flag)

lemma only_sr_clear: "only_sr vm (clear_flags vm)"
  by (simp add: clear_flags_def only_sr_flag)

lemma only_sr_setters [simp]:
  "only_sr vm (setSRADD a b res vm)" "only_sr vm (setSRSUB a b res vm)"
  "only_sr vm (setSRMUL a b res vm)" "only_sr vm (setSRDIV res vm)"
  "only_sr vm (setSRNEG a res vm)" "only_sr vm (setSRLOG res vm)"
  by (simp_all add: set_flags_defs Let_def only_sr_set_ZN only_sr_clear only_sr_flag)

lemma only_sr_shift_setters:
  "post (only_sr vm) (setSRSHL a n res vm)" "post (only_sr vm) (setSRSHR a n res vm)"
  by (simp_all add: setSRSHL_def setSRSHR_def c_sar_def Let_def only_sr_set_ZN only_sr_clear only_sr_flag)

lemma only_srD:
  assumes "only_sr vm vm'"
  shows "registers vm' = registers vm" "sp vm' = sp vm" "pc vm' = pc vm" "memory vm' = memory vm"
    "running vm' = running vm" "memblocks vm' = memblocks vm" "trace vm' = trace vm"
  using assms by (auto simp: only_sr_def)

lemmas setter_frame [simp] =
  only_srD [OF only_sr_setters(1)] only_srD [OF only_sr_setters(2)] only_srD [OF only_sr_setters(3)]
  only_srD [OF only_sr_setters(4)] only_srD [OF only_sr_setters(5)] only_srD [OF only_sr_setters(6)]

lemma set_ZN_flags:
  "flag_Z (set_ZN res (clear_flags vm)) \<longleftrightarrow> res = 0"
  "flag_N (set_ZN res (clear_flags vm)) \<longleftrightarrow> sint res < 0"
  "flag_C (set_ZN res (clear_flags vm)) \<longleftrightarrow> False"
  "flag_O (set_ZN res (clear_flags vm)) \<longleftrightarrow> False"
  by (simp_all add: set_ZN_def clear_flags_def Let_def asr63)

lemma setSRSUB_flags:
  "flag_Z (setSRSUB a b res vm) \<longleftrightarrow> res = 0"
  "flag_N (setSRSUB a b res vm) \<longleftrightarrow> sint res < 0"
  "flag_C (setSRSUB a b res vm) \<longleftrightarrow> a < b"
  "flag_O (setSRSUB a b res vm) \<longleftrightarrow> sint ((a XOR b) AND (a XOR res)) < 0"
  by (simp_all add: setSRSUB_def Let_def set_ZN_flags asr63)

lemma setSRADD_flags:
  "flag_Z (setSRADD a b res vm) \<longleftrightarrow> res = 0"
  "flag_N (setSRADD a b res vm) \<longleftrightarrow> sint res < 0"
  "flag_C (setSRADD a b res vm) \<longleftrightarrow> sint res < sint a"
  "flag_O (setSRADD a b res vm) \<longleftrightarrow> sint (NOT (a XOR b) AND (a XOR res)) < 0"
  by (simp_all add: setSRADD_def Let_def set_ZN_flags asr63 word_sless_alt)

text \<open>The overflow flag of ADD and SUB is set exactly when the exact result does not fit.\<close>

lemma overflow_add:
  "sint (NOT (a XOR b) AND (a XOR (a + b :: u64))) < 0 \<longleftrightarrow> \<not> fits64 (sint a + sint b)"
proof -
  have "sint (NOT (a XOR b) AND (a XOR (a + b))) < 0 \<longleftrightarrow>
      (sint a < 0) = (sint b < 0) \<and> (sint a < 0) \<noteq> (sint (a + b) < 0)"
    by (auto simp: sint_neg_bit bit_and_iff bit_xor_iff bit_not_iff)
  then show ?thesis
    using fits64_sint [of a] fits64_sint [of b]
    by (auto simp: sint_arith swrap_cases fits64_def)
qed

lemma overflow_sub:
  "sint ((a XOR b) AND (a XOR (a - b :: u64))) < 0 \<longleftrightarrow> \<not> fits64 (sint a - sint b)"
proof -
  have "sint ((a XOR b) AND (a XOR (a - b))) < 0 \<longleftrightarrow>
      (sint a < 0) \<noteq> (sint b < 0) \<and> (sint a < 0) \<noteq> (sint (a - b) < 0)"
    by (auto simp: sint_neg_bit bit_and_iff bit_xor_iff bit_not_iff)
  then show ?thesis
    using fits64_sint [of a] fits64_sint [of b]
    by (auto simp: sint_arith swrap_cases fits64_def)
qed

text \<open>
  After a subtraction, \<open>N \<noteq> O\<close> is the signed order, \<open>C\<close> the unsigned order and \<open>Z\<close>
  equality of the operands.
\<close>

lemma compare_flags:
  "flag_Z (setSRSUB a b (a - b) vm) \<longleftrightarrow> a = b"
  "flag_C (setSRSUB a b (a - b) vm) \<longleftrightarrow> a < b"
  "flag_N (setSRSUB a b (a - b) vm) \<noteq> flag_O (setSRSUB a b (a - b) vm) \<longleftrightarrow> sint a < sint b"
proof -
  show "flag_Z (setSRSUB a b (a - b) vm) \<longleftrightarrow> a = b" "flag_C (setSRSUB a b (a - b) vm) \<longleftrightarrow> a < b"
    by (simp_all add: setSRSUB_flags)
  show "flag_N (setSRSUB a b (a - b) vm) \<noteq> flag_O (setSRSUB a b (a - b) vm) \<longleftrightarrow> sint a < sint b"
    using fits64_sint [of a] fits64_sint [of b]
    by (auto simp: setSRSUB_flags overflow_sub sint_arith swrap_cases fits64_def)
qed

section \<open>Operands by addressing mode\<close>

text \<open>
  The reference for the operand fetch that every two-operand handler spells out: register
  checks first, then the address check against the data segment, then the load.
\<close>

definition data_read :: "vm \<Rightarrow> u64 \<Rightarrow> (VM_Error + u64) outcome" where
  "data_read vm addr = (if addr < DATA_BASE then Done (Inl VM_ILL_MEM_ACCESS) else memRead64 vm addr)"

definition operand :: "MODE \<Rightarrow> vm \<Rightarrow> instruction \<Rightarrow> (VM_Error + u64) outcome" where
  "operand m vm i =
     (if ins_a i \<ge> N_REG \<or> (m \<in> {MODE_REG, MODE_IND, MODE_IDX} \<and> ins_b i \<ge> N_REG)
      then Done (Inl VM_ILL_REGISTER)
      else case m of
        MODE_IMM \<Rightarrow> Done (Inr (args i))
      | MODE_REG \<Rightarrow> Done (Inr (reg vm (ins_b i)))
      | MODE_DIR \<Rightarrow> data_read vm (args i)
      | MODE_IND \<Rightarrow> data_read vm (reg vm (ins_b i))
      | MODE_IDX \<Rightarrow> data_read vm (reg vm (ins_b i) + args i)
      | _ \<Rightarrow> Undefined)"

type_synonym alu = "u8 \<Rightarrow> u64 \<Rightarrow> vm \<Rightarrow> result"

text \<open>Fetch the operand, then combine it into the register \<open>ins_a\<close>.\<close>

definition exec_operand :: "alu \<Rightarrow> MODE \<Rightarrow> handler" where
  "exec_operand alu m vm i =
     obind (operand m vm i) (\<lambda>r. case r of Inl e \<Rightarrow> Done (e, vm) | Inr v \<Rightarrow> alu (ins_a i) v vm)"

definition operand_modes :: "MODE set" where
  "operand_modes = {MODE_IMM, MODE_REG, MODE_DIR, MODE_IND, MODE_IDX}"

text \<open>A handler of this group changes at most one register and the flags.\<close>

definition touches :: "u8 \<Rightarrow> vm \<Rightarrow> vm \<Rightarrow> bool" where
  "touches r vm vm' \<longleftrightarrow> (\<exists>v s. vm' = vm\<lparr>registers := (registers vm)[unat r := v], sr := s\<rparr>)"

lemma touches_refl [simp]: "touches r vm vm"
  unfolding touches_def by (rule exI [of _ "reg vm r"], rule exI [of _ "sr vm"]) simp

lemma touches_only_sr: "only_sr vm vm' \<Longrightarrow> touches r vm vm'"
proof -
  assume "only_sr vm vm'"
  then obtain s where "vm' = vm\<lparr>sr := s\<rparr>" by (auto simp: only_sr_def)
  then show ?thesis
    unfolding touches_def by (intro exI [of _ "reg vm r"] exI [of _ s]) simp
qed

lemma touches_set_reg: "only_sr vm vm' \<Longrightarrow> touches r vm (set_reg r v vm')"
proof -
  assume "only_sr vm vm'"
  then obtain s where "vm' = vm\<lparr>sr := s\<rparr>" by (auto simp: only_sr_def)
  then show ?thesis
    unfolding touches_def by (intro exI [of _ v] exI [of _ s]) simp
qed

lemma touchesD:
  assumes "touches r vm vm'"
  shows "sp vm' = sp vm" "pc vm' = pc vm" "memory vm' = memory vm" "running vm' = running vm"
    "memblocks vm' = memblocks vm" "trace vm' = trace vm" "wf_vm vm' = wf_vm vm"
    "unat k \<noteq> unat r \<Longrightarrow> reg vm' k = reg vm k"
  using assms by (auto simp: touches_def wf_vm_def)

lemma touches_set_reg_old:
  "only_sr vm vm' \<Longrightarrow> touches r vm (vm'\<lparr>registers := (registers vm)[unat r := v]\<rparr>)"
  using touches_set_reg [of vm vm' r v] by (simp add: only_srD(1))

section \<open>The contract of an operation's five handlers\<close>

text \<open>
  \<open>table\<close> is the row of the dispatch table of one operation; \<open>alu\<close> is what the operation
  does once the operand is there.
\<close>

locale alu_family =
  fixes alu :: alu
    and table :: "MODE \<Rightarrow> handler option"
  assumes table_modes: "table m \<noteq> None \<longleftrightarrow> m \<in> operand_modes"
    and table_exec: "wf_vm vm \<Longrightarrow> table m = Some h \<Longrightarrow> h vm i = exec_operand alu m vm i"
    and alu_touches: "wf_vm vm \<Longrightarrow> r < N_REG \<Longrightarrow> post (\<lambda>(st, vm'). touches r vm vm') (alu r v vm)"
begin

lemma handler_touches:
  assumes "wf_vm vm" "table m = Some h"
  shows "post (\<lambda>(st, vm'). touches (ins_a i) vm vm') (h vm i)"
proof (cases "ins_a i < N_REG")
  case True
  show ?thesis unfolding table_exec [OF assms] exec_operand_def
    by (rule post_obind) (auto simp: post_iff split: sum.splits
        dest: post_DoneD [OF alu_touches [OF assms(1) True]])
next
  case False
  then show ?thesis
    unfolding table_exec [OF assms] exec_operand_def operand_def by (simp add: not_less)
qed

lemma handler_wf:
  "wf_vm vm \<Longrightarrow> table m = Some h \<Longrightarrow> post (\<lambda>(st, vm'). wf_vm vm') (h vm i)"
  by (rule post_mono [OF handler_touches]) (auto simp: touchesD)

lemma bad_register:
  "wf_vm vm \<Longrightarrow> table m = Some h \<Longrightarrow> ins_a i \<ge> N_REG \<Longrightarrow> h vm i = Done (VM_ILL_REGISTER, vm)"
  by (simp add: table_exec exec_operand_def operand_def)

lemma operand_error:
  "wf_vm vm \<Longrightarrow> table m = Some h \<Longrightarrow> operand m vm i = Done (Inl e) \<Longrightarrow> h vm i = Done (e, vm)"
  by (simp add: table_exec exec_operand_def)

lemma operand_value:
  "wf_vm vm \<Longrightarrow> table m = Some h \<Longrightarrow> operand m vm i = Done (Inr v) \<Longrightarrow> h vm i = alu (ins_a i) v vm"
  by (simp add: table_exec exec_operand_def)

end

end
