(* ===== verification/Arith.thy ===== *)
theory Arith
  imports Alu
begin

text \<open>
  The arithmetic handlers of \<^verbatim>\<open>src/runtime/instructions.c\<close> (ADD, SUB, MUL, DIV, CMP with their
  five addressing modes, and NEG), their rows of the dispatch table, and the proof that
  each row keeps the contract \<open>alu_family\<close>.
\<close>

unbundle bit_operations_syntax

lemma set_reg_commute [simp]:
  "setSRADD a b res (vm\<lparr>registers := rs\<rparr>) = (setSRADD a b res vm)\<lparr>registers := rs\<rparr>"
  "setSRLOG res (vm\<lparr>registers := rs\<rparr>) = (setSRLOG res vm)\<lparr>registers := rs\<rparr>"
  by (simp_all add: setSRADD_def setSRLOG_def set_ZN_def clear_flags_def setSR_defs Let_def)

lemma reg_lt: "wf_vm vm \<Longrightarrow> \<not> N_REG \<le> r \<Longrightarrow> unat r < length (registers vm)"
  by (simp add: wf_vm_def N_REG_def not_le word_less_nat_alt)

lemmas exec_simps = exec_operand_def operand_def data_read_def reading64_def Let_def reg_lt

section \<open>ADD\<close>

text \<open>ADD R0 x (R0 += x)\<close>

definition instrADD :: handler where
  "instrADD vm instr =
     (if ins_a instr \<ge> N_REG then Done (VM_ILL_REGISTER, vm)
      else let a = reg vm (ins_a instr); b = args instr; res = a + b; vm = set_reg (ins_a instr) res vm
      in Done (VM_OK, setSRADD a b res vm))"

text \<open>ADD R0 R1 (R0 += R1)\<close>

definition instrADDR :: handler where
  "instrADDR vm instr =
     (if ins_b instr \<ge> N_REG \<or> ins_a instr \<ge> N_REG then Done (VM_ILL_REGISTER, vm)
      else let a = reg vm (ins_a instr); b = reg vm (ins_b instr); res = a + b; vm = setSRADD a b res vm
      in Done (VM_OK, set_reg (ins_a instr) res vm))"

text \<open>ADD R0 [x] (R0 += MEM[x])\<close>

definition instrADDD :: handler where
  "instrADDD vm instr =
     (if ins_a instr \<ge> N_REG then Done (VM_ILL_REGISTER, vm)
      else if args instr < DATA_BASE then Done (VM_ILL_MEM_ACCESS, vm)
      else reading64 vm (args instr) (\<lambda>value.
        let res = reg vm (ins_a instr) + value; vm = setSRADD (reg vm (ins_a instr)) value res vm
        in Done (VM_OK, set_reg (ins_a instr) res vm)))"

text \<open>ADD R0 [R1] (R0 += MEM[R1])\<close>

definition instrADDI :: handler where
  "instrADDI vm instr =
     (if ins_a instr \<ge> N_REG \<or> ins_b instr \<ge> N_REG then Done (VM_ILL_REGISTER, vm)
      else let addr = reg vm (ins_b instr)
      in if addr < DATA_BASE then Done (VM_ILL_MEM_ACCESS, vm)
      else reading64 vm addr (\<lambda>value.
        let res = reg vm (ins_a instr) + value; vm = setSRADD (reg vm (ins_a instr)) value res vm
        in Done (VM_OK, set_reg (ins_a instr) res vm)))"

text \<open>ADD R0 [R1+x] (R0 += MEM[R1+x])\<close>

definition instrADDX :: handler where
  "instrADDX vm instr =
     (if ins_a instr \<ge> N_REG \<or> ins_b instr \<ge> N_REG then Done (VM_ILL_REGISTER, vm)
      else let addr = reg vm (ins_b instr) + args instr
      in if addr < DATA_BASE then Done (VM_ILL_MEM_ACCESS, vm)
      else reading64 vm addr (\<lambda>value.
        let res = reg vm (ins_a instr) + value; vm = setSRADD (reg vm (ins_a instr)) value res vm
        in Done (VM_OK, set_reg (ins_a instr) res vm)))"

definition dispatchADD :: "MODE \<Rightarrow> handler option" where
  "dispatchADD m = (case m of MODE_IMM \<Rightarrow> Some instrADD | MODE_REG \<Rightarrow> Some instrADDR
     | MODE_DIR \<Rightarrow> Some instrADDD | MODE_IND \<Rightarrow> Some instrADDI | MODE_IDX \<Rightarrow> Some instrADDX
     | _ \<Rightarrow> None)"

lemmas instrADD_defs = instrADD_def instrADDR_def instrADDD_def instrADDI_def instrADDX_def

definition add_alu :: alu where
  "add_alu r v vm =
     (let a = reg vm r; res = a + v in Done (VM_OK, set_reg r res (setSRADD a v res vm)))"

interpretation add_ops: alu_family add_alu dispatchADD
proof
  show "dispatchADD m \<noteq> None \<longleftrightarrow> m \<in> operand_modes" for m
    by (cases m) (simp_all add: dispatchADD_def operand_modes_def)
  show "h vm i = exec_operand add_alu m vm i" if "wf_vm vm" "dispatchADD m = Some h" for vm m h i
    using that by (cases m) (auto simp: dispatchADD_def instrADD_defs add_alu_def exec_simps)
  show "post (\<lambda>(st, vm'). touches r vm vm') (add_alu r v vm)" for r v vm
    by (simp add: add_alu_def Let_def touches_set_reg_old)
qed

section \<open>SUB\<close>

text \<open>SUB R0 x (R0 -= x)\<close>

definition instrSUB :: handler where
  "instrSUB vm instr =
     (if ins_a instr \<ge> N_REG then Done (VM_ILL_REGISTER, vm)
      else let b = args instr; res = reg vm (ins_a instr) - b; vm = setSRSUB (reg vm (ins_a instr)) b res vm
      in Done (VM_OK, set_reg (ins_a instr) res vm))"

text \<open>SUB R0 R1 (R0 -= R1)\<close>

definition instrSUBR :: handler where
  "instrSUBR vm instr =
     (if ins_a instr \<ge> N_REG \<or> ins_b instr \<ge> N_REG then Done (VM_ILL_REGISTER, vm)
      else let b = reg vm (ins_b instr); res = reg vm (ins_a instr) - b; vm = setSRSUB (reg vm (ins_a instr)) b res vm
      in Done (VM_OK, set_reg (ins_a instr) res vm))"

text \<open>SUB R0 [x] (R0 -= MEM[x])\<close>

definition instrSUBD :: handler where
  "instrSUBD vm instr =
     (if ins_a instr \<ge> N_REG then Done (VM_ILL_REGISTER, vm)
      else if args instr < DATA_BASE then Done (VM_ILL_MEM_ACCESS, vm)
      else reading64 vm (args instr) (\<lambda>value.
        let res = reg vm (ins_a instr) - value; vm = setSRSUB (reg vm (ins_a instr)) value res vm
        in Done (VM_OK, set_reg (ins_a instr) res vm)))"

text \<open>SUB R0 [R1] (R0 -= MEM[R1])\<close>

definition instrSUBI :: handler where
  "instrSUBI vm instr =
     (if ins_a instr \<ge> N_REG \<or> ins_b instr \<ge> N_REG then Done (VM_ILL_REGISTER, vm)
      else let addr = reg vm (ins_b instr)
      in if addr < DATA_BASE then Done (VM_ILL_MEM_ACCESS, vm)
      else reading64 vm addr (\<lambda>value.
        let res = reg vm (ins_a instr) - value; vm = setSRSUB (reg vm (ins_a instr)) value res vm
        in Done (VM_OK, set_reg (ins_a instr) res vm)))"

text \<open>SUB R0 [R1+x] (R0 -= MEM[R1+x])\<close>

definition instrSUBX :: handler where
  "instrSUBX vm instr =
     (if ins_a instr \<ge> N_REG \<or> ins_b instr \<ge> N_REG then Done (VM_ILL_REGISTER, vm)
      else let addr = reg vm (ins_b instr) + args instr
      in if addr < DATA_BASE then Done (VM_ILL_MEM_ACCESS, vm)
      else reading64 vm addr (\<lambda>value.
        let res = reg vm (ins_a instr) - value; vm = setSRSUB (reg vm (ins_a instr)) value res vm
        in Done (VM_OK, set_reg (ins_a instr) res vm)))"

definition dispatchSUB :: "MODE \<Rightarrow> handler option" where
  "dispatchSUB m = (case m of MODE_IMM \<Rightarrow> Some instrSUB | MODE_REG \<Rightarrow> Some instrSUBR
     | MODE_DIR \<Rightarrow> Some instrSUBD | MODE_IND \<Rightarrow> Some instrSUBI | MODE_IDX \<Rightarrow> Some instrSUBX
     | _ \<Rightarrow> None)"

lemmas instrSUB_defs = instrSUB_def instrSUBR_def instrSUBD_def instrSUBI_def instrSUBX_def

definition sub_alu :: alu where
  "sub_alu r v vm =
     (let a = reg vm r; res = a - v in Done (VM_OK, set_reg r res (setSRSUB a v res vm)))"

interpretation sub_ops: alu_family sub_alu dispatchSUB
proof
  show "dispatchSUB m \<noteq> None \<longleftrightarrow> m \<in> operand_modes" for m
    by (cases m) (simp_all add: dispatchSUB_def operand_modes_def)
  show "h vm i = exec_operand sub_alu m vm i" if "wf_vm vm" "dispatchSUB m = Some h" for vm m h i
    using that by (cases m) (auto simp: dispatchSUB_def instrSUB_defs sub_alu_def exec_simps)
  show "post (\<lambda>(st, vm'). touches r vm vm') (sub_alu r v vm)" for r v vm
    by (simp add: sub_alu_def Let_def touches_set_reg_old)
qed

section \<open>MUL\<close>

text \<open>MUL R0 x (R0 *= x)\<close>

definition instrMUL :: handler where
  "instrMUL vm instr =
     (if ins_a instr \<ge> N_REG then Done (VM_ILL_REGISTER, vm)
      else let b = args instr; res = reg vm (ins_a instr) * b; vm = setSRMUL (reg vm (ins_a instr)) b res vm
      in Done (VM_OK, set_reg (ins_a instr) res vm))"

text \<open>MUL R0 R1 (R0 *= R1)\<close>

definition instrMULR :: handler where
  "instrMULR vm instr =
     (if ins_a instr \<ge> N_REG \<or> ins_b instr \<ge> N_REG then Done (VM_ILL_REGISTER, vm)
      else let b = reg vm (ins_b instr); res = reg vm (ins_a instr) * b; vm = setSRMUL (reg vm (ins_a instr)) b res vm
      in Done (VM_OK, set_reg (ins_a instr) res vm))"

text \<open>MUL R0 [x] (R0 *= MEM[x])\<close>

definition instrMULD :: handler where
  "instrMULD vm instr =
     (if ins_a instr \<ge> N_REG then Done (VM_ILL_REGISTER, vm)
      else if args instr < DATA_BASE then Done (VM_ILL_MEM_ACCESS, vm)
      else reading64 vm (args instr) (\<lambda>value.
        let res = reg vm (ins_a instr) * value; vm = setSRMUL (reg vm (ins_a instr)) value res vm
        in Done (VM_OK, set_reg (ins_a instr) res vm)))"

text \<open>MUL R0 [R1] (R0 *= MEM[R1])\<close>

definition instrMULI :: handler where
  "instrMULI vm instr =
     (if ins_a instr \<ge> N_REG \<or> ins_b instr \<ge> N_REG then Done (VM_ILL_REGISTER, vm)
      else let addr = reg vm (ins_b instr)
      in if addr < DATA_BASE then Done (VM_ILL_MEM_ACCESS, vm)
      else reading64 vm addr (\<lambda>value.
        let res = reg vm (ins_a instr) * value; vm = setSRMUL (reg vm (ins_a instr)) value res vm
        in Done (VM_OK, set_reg (ins_a instr) res vm)))"

text \<open>MUL R0 [R1+x] (R0 *= MEM[R1+x])\<close>

definition instrMULX :: handler where
  "instrMULX vm instr =
     (if ins_a instr \<ge> N_REG \<or> ins_b instr \<ge> N_REG then Done (VM_ILL_REGISTER, vm)
      else let addr = reg vm (ins_b instr) + args instr
      in if addr < DATA_BASE then Done (VM_ILL_MEM_ACCESS, vm)
      else reading64 vm addr (\<lambda>value.
        let res = reg vm (ins_a instr) * value; vm = setSRMUL (reg vm (ins_a instr)) value res vm
        in Done (VM_OK, set_reg (ins_a instr) res vm)))"

definition dispatchMUL :: "MODE \<Rightarrow> handler option" where
  "dispatchMUL m = (case m of MODE_IMM \<Rightarrow> Some instrMUL | MODE_REG \<Rightarrow> Some instrMULR
     | MODE_DIR \<Rightarrow> Some instrMULD | MODE_IND \<Rightarrow> Some instrMULI | MODE_IDX \<Rightarrow> Some instrMULX
     | _ \<Rightarrow> None)"

lemmas instrMUL_defs = instrMUL_def instrMULR_def instrMULD_def instrMULI_def instrMULX_def

definition mul_alu :: alu where
  "mul_alu r v vm =
     (let a = reg vm r; res = a * v in Done (VM_OK, set_reg r res (setSRMUL a v res vm)))"

interpretation mul_ops: alu_family mul_alu dispatchMUL
proof
  show "dispatchMUL m \<noteq> None \<longleftrightarrow> m \<in> operand_modes" for m
    by (cases m) (simp_all add: dispatchMUL_def operand_modes_def)
  show "h vm i = exec_operand mul_alu m vm i" if "wf_vm vm" "dispatchMUL m = Some h" for vm m h i
    using that by (cases m) (auto simp: dispatchMUL_def instrMUL_defs mul_alu_def exec_simps)
  show "post (\<lambda>(st, vm'). touches r vm vm') (mul_alu r v vm)" for r v vm
    by (simp add: mul_alu_def Let_def touches_set_reg_old)
qed

section \<open>DIV\<close>

text \<open>DIV R0 x (R0 = R0 / x)\<close>

definition instrDIV :: handler where
  "instrDIV vm instr =
     (if ins_a instr \<ge> N_REG then Done (VM_ILL_REGISTER, vm)
      else if args instr = 0 then Done (VM_DIV_ZERO, vm)
      else obind (c_div (reg vm (ins_a instr)) (args instr)) (\<lambda>res.
        let vm = setSRDIV res vm in Done (VM_OK, set_reg (ins_a instr) res vm)))"

text \<open>DIV R0 R1 (R0 = R0 / R1)\<close>

definition instrDIVR :: handler where
  "instrDIVR vm instr =
     (if ins_a instr \<ge> N_REG \<or> ins_b instr \<ge> N_REG then Done (VM_ILL_REGISTER, vm)
      else if reg vm (ins_b instr) = 0 then Done (VM_DIV_ZERO, vm)
      else obind (c_div (reg vm (ins_a instr)) (reg vm (ins_b instr))) (\<lambda>res.
        let vm = setSRDIV res vm in Done (VM_OK, set_reg (ins_a instr) res vm)))"

text \<open>DIV R0 [x] (R0 = R0 / MEM[x])\<close>

definition instrDIVD :: handler where
  "instrDIVD vm instr =
     (if ins_a instr \<ge> N_REG then Done (VM_ILL_REGISTER, vm)
      else if args instr < DATA_BASE then Done (VM_ILL_MEM_ACCESS, vm)
      else reading64 vm (args instr) (\<lambda>value.
        if value = 0 then Done (VM_DIV_ZERO, vm)
        else obind (c_div (reg vm (ins_a instr)) (value)) (\<lambda>res.
        let vm = setSRDIV res vm in Done (VM_OK, set_reg (ins_a instr) res vm))))"

text \<open>DIV R0 [R1] (R0 = R0 / MEM[R1])\<close>

definition instrDIVI :: handler where
  "instrDIVI vm instr =
     (if ins_a instr \<ge> N_REG \<or> ins_b instr \<ge> N_REG then Done (VM_ILL_REGISTER, vm)
      else let addr = reg vm (ins_b instr)
      in if addr < DATA_BASE then Done (VM_ILL_MEM_ACCESS, vm)
      else reading64 vm addr (\<lambda>value.
        if value = 0 then Done (VM_DIV_ZERO, vm)
        else obind (c_div (reg vm (ins_a instr)) (value)) (\<lambda>res.
        let vm = setSRDIV res vm in Done (VM_OK, set_reg (ins_a instr) res vm))))"

text \<open>DIV R0 [R1+x] (R0 = R0 / MEM[R1+x])\<close>

definition instrDIVX :: handler where
  "instrDIVX vm instr =
     (if ins_a instr \<ge> N_REG \<or> ins_b instr \<ge> N_REG then Done (VM_ILL_REGISTER, vm)
      else let addr = reg vm (ins_b instr) + args instr
      in if addr < DATA_BASE then Done (VM_ILL_MEM_ACCESS, vm)
      else reading64 vm addr (\<lambda>value.
        if value = 0 then Done (VM_DIV_ZERO, vm)
        else obind (c_div (reg vm (ins_a instr)) (value)) (\<lambda>res.
        let vm = setSRDIV res vm in Done (VM_OK, set_reg (ins_a instr) res vm))))"

definition dispatchDIV :: "MODE \<Rightarrow> handler option" where
  "dispatchDIV m = (case m of MODE_IMM \<Rightarrow> Some instrDIV | MODE_REG \<Rightarrow> Some instrDIVR
     | MODE_DIR \<Rightarrow> Some instrDIVD | MODE_IND \<Rightarrow> Some instrDIVI | MODE_IDX \<Rightarrow> Some instrDIVX
     | _ \<Rightarrow> None)"

lemmas instrDIV_defs = instrDIV_def instrDIVR_def instrDIVD_def instrDIVI_def instrDIVX_def

definition div_alu :: alu where
  "div_alu r v vm =
     (if v = 0 then Done (VM_DIV_ZERO, vm)
      else obind (c_div (reg vm r) v) (\<lambda>res. let vm = setSRDIV res vm in Done (VM_OK, set_reg r res vm)))"

interpretation div_ops: alu_family div_alu dispatchDIV
proof
  show "dispatchDIV m \<noteq> None \<longleftrightarrow> m \<in> operand_modes" for m
    by (cases m) (simp_all add: dispatchDIV_def operand_modes_def)
  show "h vm i = exec_operand div_alu m vm i" if "wf_vm vm" "dispatchDIV m = Some h" for vm m h i
    using that by (cases m) (auto simp: dispatchDIV_def instrDIV_defs div_alu_def exec_simps)
  show "post (\<lambda>(st, vm'). touches r vm vm') (div_alu r v vm)" for r v vm
    unfolding div_alu_def post_iff
    by (auto simp: obind_Done_iff Let_def touches_set_reg_old split: if_splits)
qed

section \<open>CMP\<close>

text \<open>CMP R0 x (set the flags of SR for R0 - x)\<close>

definition instrCMP :: handler where
  "instrCMP vm instr =
     (if ins_a instr \<ge> N_REG then Done (VM_ILL_REGISTER, vm)
      else let res = reg vm (ins_a instr) - args instr
      in Done (VM_OK, setSRSUB (reg vm (ins_a instr)) (args instr) res vm))"

text \<open>CMP R0 R1 (set the flags of SR for R0 - R1)\<close>

definition instrCMPR :: handler where
  "instrCMPR vm instr =
     (if ins_a instr \<ge> N_REG \<or> ins_b instr \<ge> N_REG then Done (VM_ILL_REGISTER, vm)
      else let res = reg vm (ins_a instr) - reg vm (ins_b instr)
      in Done (VM_OK, setSRSUB (reg vm (ins_a instr)) (reg vm (ins_b instr)) res vm))"

text \<open>CMP R0 [x] (set the flags of SR for R0 - MEM[x])\<close>

definition instrCMPD :: handler where
  "instrCMPD vm instr =
     (if ins_a instr \<ge> N_REG then Done (VM_ILL_REGISTER, vm)
      else if args instr < DATA_BASE then Done (VM_ILL_MEM_ACCESS, vm)
      else reading64 vm (args instr) (\<lambda>value.
        let res = reg vm (ins_a instr) - value in Done (VM_OK, setSRSUB (reg vm (ins_a instr)) value res vm)))"

text \<open>CMP R0 [R1] (set the flags of SR for R0 - MEM[R1])\<close>

definition instrCMPI :: handler where
  "instrCMPI vm instr =
     (if ins_a instr \<ge> N_REG \<or> ins_b instr \<ge> N_REG then Done (VM_ILL_REGISTER, vm)
      else if reg vm (ins_b instr) < DATA_BASE then Done (VM_ILL_MEM_ACCESS, vm)
      else reading64 vm (reg vm (ins_b instr)) (\<lambda>value.
        let res = reg vm (ins_a instr) - value in Done (VM_OK, setSRSUB (reg vm (ins_a instr)) value res vm)))"

text \<open>CMP R0 [R1+x] (set the flags of SR for R0 - MEM[R1+x])\<close>

definition instrCMPX :: handler where
  "instrCMPX vm instr =
     (if ins_a instr \<ge> N_REG \<or> ins_b instr \<ge> N_REG then Done (VM_ILL_REGISTER, vm)
      else let addr = reg vm (ins_b instr) + args instr
      in if addr < DATA_BASE then Done (VM_ILL_MEM_ACCESS, vm)
      else reading64 vm addr (\<lambda>value.
        let res = reg vm (ins_a instr) - value in Done (VM_OK, setSRSUB (reg vm (ins_a instr)) value res vm)))"

definition dispatchCMP :: "MODE \<Rightarrow> handler option" where
  "dispatchCMP m = (case m of MODE_IMM \<Rightarrow> Some instrCMP | MODE_REG \<Rightarrow> Some instrCMPR
     | MODE_DIR \<Rightarrow> Some instrCMPD | MODE_IND \<Rightarrow> Some instrCMPI | MODE_IDX \<Rightarrow> Some instrCMPX
     | _ \<Rightarrow> None)"

lemmas instrCMP_defs = instrCMP_def instrCMPR_def instrCMPD_def instrCMPI_def instrCMPX_def

definition cmp_alu :: alu where
  "cmp_alu r v vm =
     (let a = reg vm r in Done (VM_OK, setSRSUB a v (a - v) vm))"

interpretation cmp_ops: alu_family cmp_alu dispatchCMP
proof
  show "dispatchCMP m \<noteq> None \<longleftrightarrow> m \<in> operand_modes" for m
    by (cases m) (simp_all add: dispatchCMP_def operand_modes_def)
  show "h vm i = exec_operand cmp_alu m vm i" if "wf_vm vm" "dispatchCMP m = Some h" for vm m h i
    using that by (cases m) (auto simp: dispatchCMP_def instrCMP_defs cmp_alu_def exec_simps)
  show "post (\<lambda>(st, vm'). touches r vm vm') (cmp_alu r v vm)" for r v vm
    by (simp add: cmp_alu_def Let_def touches_only_sr)
qed

section \<open>NEG\<close>

text \<open>NEG R0 (R0 = -R0)\<close>

definition instrNEG :: handler where
  "instrNEG vm instr =
     (if ins_a instr \<ge> N_REG then Done (VM_ILL_REGISTER, vm)
      else let vm = setSRNEG (reg vm (ins_a instr)) (- reg vm (ins_a instr)) vm
      in Done (VM_OK, set_reg (ins_a instr) (- reg vm (ins_a instr)) vm))"

definition dispatchNEG :: "MODE \<Rightarrow> handler option" where
  "dispatchNEG m = (case m of MODE_REGU \<Rightarrow> Some instrNEG | _ \<Rightarrow> None)"

lemma instrNEG_touches: "post (\<lambda>(st, vm'). touches (ins_a i) vm vm') (instrNEG vm i)"
  by (simp add: instrNEG_def Let_def touches_set_reg_old)

end
