(* ===== verification/Bitwise.thy ===== *)
theory Bitwise
  imports Arith
begin

text \<open>
  The bitwise and shift handlers of \<^verbatim>\<open>src/runtime/instructions.c\<close> (AND, OR, XOR, SHL, SHR with
  their five addressing modes, and NOT), their rows of the dispatch table, and the proof
  that each row keeps the contract \<open>alu_family\<close>.
\<close>

unbundle bit_operations_syntax

section \<open>AND\<close>

text \<open>AND R0 x (R0 &= x)\<close>

definition instrAND :: handler where
  "instrAND vm instr =
     (if ins_a instr \<ge> N_REG then Done (VM_ILL_REGISTER, vm)
      else let vm = set_reg (ins_a instr) (reg vm (ins_a instr) AND args instr) vm
      in Done (VM_OK, setSRLOG (reg vm (ins_a instr)) vm))"

text \<open>AND R0 R1 (R0 &= R1)\<close>

definition instrANDR :: handler where
  "instrANDR vm instr =
     (if ins_a instr \<ge> N_REG \<or> ins_b instr \<ge> N_REG then Done (VM_ILL_REGISTER, vm)
      else let vm = set_reg (ins_a instr) (reg vm (ins_a instr) AND reg vm (ins_b instr)) vm
      in Done (VM_OK, setSRLOG (reg vm (ins_a instr)) vm))"

text \<open>AND R0 [x] (R0 &= MEM[x])\<close>

definition instrANDD :: handler where
  "instrANDD vm instr =
     (if ins_a instr \<ge> N_REG then Done (VM_ILL_REGISTER, vm)
      else if args instr < DATA_BASE then Done (VM_ILL_MEM_ACCESS, vm)
      else reading64 vm (args instr) (\<lambda>value.
        let vm = set_reg (ins_a instr) (reg vm (ins_a instr) AND value) vm
        in Done (VM_OK, setSRLOG (reg vm (ins_a instr)) vm)))"

text \<open>AND R0 [R1] (R0 &= MEM[R1])\<close>

definition instrANDI :: handler where
  "instrANDI vm instr =
     (if ins_a instr \<ge> N_REG \<or> ins_b instr \<ge> N_REG then Done (VM_ILL_REGISTER, vm)
      else let addr = reg vm (ins_b instr)
      in if addr < DATA_BASE then Done (VM_ILL_MEM_ACCESS, vm)
      else reading64 vm addr (\<lambda>value.
        let vm = set_reg (ins_a instr) (reg vm (ins_a instr) AND value) vm
        in Done (VM_OK, setSRLOG (reg vm (ins_a instr)) vm)))"

text \<open>AND R0 [R1+x] (R0 &= MEM[R1+x])\<close>

definition instrANDX :: handler where
  "instrANDX vm instr =
     (if ins_a instr \<ge> N_REG \<or> ins_b instr \<ge> N_REG then Done (VM_ILL_REGISTER, vm)
      else let addr = reg vm (ins_b instr) + args instr
      in if addr < DATA_BASE then Done (VM_ILL_MEM_ACCESS, vm)
      else reading64 vm addr (\<lambda>value.
        let vm = set_reg (ins_a instr) (reg vm (ins_a instr) AND value) vm
        in Done (VM_OK, setSRLOG (reg vm (ins_a instr)) vm)))"

definition dispatchAND :: "MODE \<Rightarrow> handler option" where
  "dispatchAND m = (case m of MODE_IMM \<Rightarrow> Some instrAND | MODE_REG \<Rightarrow> Some instrANDR
     | MODE_DIR \<Rightarrow> Some instrANDD | MODE_IND \<Rightarrow> Some instrANDI | MODE_IDX \<Rightarrow> Some instrANDX
     | _ \<Rightarrow> None)"

lemmas instrAND_defs = instrAND_def instrANDR_def instrANDD_def instrANDI_def instrANDX_def

definition and_alu :: alu where
  "and_alu r v vm =
     (let res = reg vm r AND v in Done (VM_OK, set_reg r res (setSRLOG res vm)))"

interpretation and_ops: alu_family and_alu dispatchAND
proof
  show "dispatchAND m \<noteq> None \<longleftrightarrow> m \<in> operand_modes" for m
    by (cases m) (simp_all add: dispatchAND_def operand_modes_def)
  show "h vm i = exec_operand and_alu m vm i" if "wf_vm vm" "dispatchAND m = Some h" for vm m h i
    using that by (cases m) (auto simp: dispatchAND_def instrAND_defs and_alu_def exec_simps)
  show "post (\<lambda>(st, vm'). touches r vm vm') (and_alu r v vm)" for r v vm
    by (simp add: and_alu_def Let_def touches_set_reg_old)
qed

section \<open>OR\<close>

text \<open>OR R0 x (R0 |= x)\<close>

definition instrOR :: handler where
  "instrOR vm instr =
     (if ins_a instr \<ge> N_REG then Done (VM_ILL_REGISTER, vm)
      else let vm = set_reg (ins_a instr) (reg vm (ins_a instr) OR args instr) vm
      in Done (VM_OK, setSRLOG (reg vm (ins_a instr)) vm))"

text \<open>OR R0 R1 (R0 |= R1)\<close>

definition instrORR :: handler where
  "instrORR vm instr =
     (if ins_a instr \<ge> N_REG \<or> ins_b instr \<ge> N_REG then Done (VM_ILL_REGISTER, vm)
      else let vm = set_reg (ins_a instr) (reg vm (ins_a instr) OR reg vm (ins_b instr)) vm
      in Done (VM_OK, setSRLOG (reg vm (ins_a instr)) vm))"

text \<open>OR R0 [x] (R0 |= MEM[x])\<close>

definition instrORD :: handler where
  "instrORD vm instr =
     (if ins_a instr \<ge> N_REG then Done (VM_ILL_REGISTER, vm)
      else if args instr < DATA_BASE then Done (VM_ILL_MEM_ACCESS, vm)
      else reading64 vm (args instr) (\<lambda>value.
        let vm = set_reg (ins_a instr) (reg vm (ins_a instr) OR value) vm
        in Done (VM_OK, setSRLOG (reg vm (ins_a instr)) vm)))"

text \<open>OR R0 [R1] (R0 |= MEM[R1])\<close>

definition instrORI :: handler where
  "instrORI vm instr =
     (if ins_a instr \<ge> N_REG \<or> ins_b instr \<ge> N_REG then Done (VM_ILL_REGISTER, vm)
      else let addr = reg vm (ins_b instr)
      in if addr < DATA_BASE then Done (VM_ILL_MEM_ACCESS, vm)
      else reading64 vm addr (\<lambda>value.
        let vm = set_reg (ins_a instr) (reg vm (ins_a instr) OR value) vm
        in Done (VM_OK, setSRLOG (reg vm (ins_a instr)) vm)))"

text \<open>OR R0 [R1+x] (R0 |= MEM[R1+x])\<close>

definition instrORX :: handler where
  "instrORX vm instr =
     (if ins_a instr \<ge> N_REG \<or> ins_b instr \<ge> N_REG then Done (VM_ILL_REGISTER, vm)
      else let addr = reg vm (ins_b instr) + args instr
      in if addr < DATA_BASE then Done (VM_ILL_MEM_ACCESS, vm)
      else reading64 vm addr (\<lambda>value.
        let vm = set_reg (ins_a instr) (reg vm (ins_a instr) OR value) vm
        in Done (VM_OK, setSRLOG (reg vm (ins_a instr)) vm)))"

definition dispatchOR :: "MODE \<Rightarrow> handler option" where
  "dispatchOR m = (case m of MODE_IMM \<Rightarrow> Some instrOR | MODE_REG \<Rightarrow> Some instrORR
     | MODE_DIR \<Rightarrow> Some instrORD | MODE_IND \<Rightarrow> Some instrORI | MODE_IDX \<Rightarrow> Some instrORX
     | _ \<Rightarrow> None)"

lemmas instrOR_defs = instrOR_def instrORR_def instrORD_def instrORI_def instrORX_def

definition or_alu :: alu where
  "or_alu r v vm =
     (let res = reg vm r OR v in Done (VM_OK, set_reg r res (setSRLOG res vm)))"

interpretation or_ops: alu_family or_alu dispatchOR
proof
  show "dispatchOR m \<noteq> None \<longleftrightarrow> m \<in> operand_modes" for m
    by (cases m) (simp_all add: dispatchOR_def operand_modes_def)
  show "h vm i = exec_operand or_alu m vm i" if "wf_vm vm" "dispatchOR m = Some h" for vm m h i
    using that by (cases m) (auto simp: dispatchOR_def instrOR_defs or_alu_def exec_simps)
  show "post (\<lambda>(st, vm'). touches r vm vm') (or_alu r v vm)" for r v vm
    by (simp add: or_alu_def Let_def touches_set_reg_old)
qed

section \<open>XOR\<close>

text \<open>XOR R0 x (R0 ^= x)\<close>

definition instrXOR :: handler where
  "instrXOR vm instr =
     (if ins_a instr \<ge> N_REG then Done (VM_ILL_REGISTER, vm)
      else let vm = set_reg (ins_a instr) (reg vm (ins_a instr) XOR args instr) vm
      in Done (VM_OK, setSRLOG (reg vm (ins_a instr)) vm))"

text \<open>XOR R0 R1 (R0 ^= R1)\<close>

definition instrXORR :: handler where
  "instrXORR vm instr =
     (if ins_a instr \<ge> N_REG \<or> ins_b instr \<ge> N_REG then Done (VM_ILL_REGISTER, vm)
      else let vm = set_reg (ins_a instr) (reg vm (ins_a instr) XOR reg vm (ins_b instr)) vm
      in Done (VM_OK, setSRLOG (reg vm (ins_a instr)) vm))"

text \<open>XOR R0 [x] (R0 ^= MEM[x])\<close>

definition instrXORD :: handler where
  "instrXORD vm instr =
     (if ins_a instr \<ge> N_REG then Done (VM_ILL_REGISTER, vm)
      else if args instr < DATA_BASE then Done (VM_ILL_MEM_ACCESS, vm)
      else reading64 vm (args instr) (\<lambda>value.
        let vm = set_reg (ins_a instr) (reg vm (ins_a instr) XOR value) vm
        in Done (VM_OK, setSRLOG (reg vm (ins_a instr)) vm)))"

text \<open>XOR R0 [R1] (R0 ^= MEM[R1])\<close>

definition instrXORI :: handler where
  "instrXORI vm instr =
     (if ins_a instr \<ge> N_REG \<or> ins_b instr \<ge> N_REG then Done (VM_ILL_REGISTER, vm)
      else let addr = reg vm (ins_b instr)
      in if addr < DATA_BASE then Done (VM_ILL_MEM_ACCESS, vm)
      else reading64 vm addr (\<lambda>value.
        let vm = set_reg (ins_a instr) (reg vm (ins_a instr) XOR value) vm
        in Done (VM_OK, setSRLOG (reg vm (ins_a instr)) vm)))"

text \<open>XOR R0 [R1+x] (R0 ^= MEM[R1+x])\<close>

definition instrXORX :: handler where
  "instrXORX vm instr =
     (if ins_a instr \<ge> N_REG \<or> ins_b instr \<ge> N_REG then Done (VM_ILL_REGISTER, vm)
      else let addr = reg vm (ins_b instr) + args instr
      in if addr < DATA_BASE then Done (VM_ILL_MEM_ACCESS, vm)
      else reading64 vm addr (\<lambda>value.
        let vm = set_reg (ins_a instr) (reg vm (ins_a instr) XOR value) vm
        in Done (VM_OK, setSRLOG (reg vm (ins_a instr)) vm)))"

definition dispatchXOR :: "MODE \<Rightarrow> handler option" where
  "dispatchXOR m = (case m of MODE_IMM \<Rightarrow> Some instrXOR | MODE_REG \<Rightarrow> Some instrXORR
     | MODE_DIR \<Rightarrow> Some instrXORD | MODE_IND \<Rightarrow> Some instrXORI | MODE_IDX \<Rightarrow> Some instrXORX
     | _ \<Rightarrow> None)"

lemmas instrXOR_defs = instrXOR_def instrXORR_def instrXORD_def instrXORI_def instrXORX_def

definition xor_alu :: alu where
  "xor_alu r v vm =
     (let res = reg vm r XOR v in Done (VM_OK, set_reg r res (setSRLOG res vm)))"

interpretation xor_ops: alu_family xor_alu dispatchXOR
proof
  show "dispatchXOR m \<noteq> None \<longleftrightarrow> m \<in> operand_modes" for m
    by (cases m) (simp_all add: dispatchXOR_def operand_modes_def)
  show "h vm i = exec_operand xor_alu m vm i" if "wf_vm vm" "dispatchXOR m = Some h" for vm m h i
    using that by (cases m) (auto simp: dispatchXOR_def instrXOR_defs xor_alu_def exec_simps)
  show "post (\<lambda>(st, vm'). touches r vm vm') (xor_alu r v vm)" for r v vm
    by (simp add: xor_alu_def Let_def touches_set_reg_old)
qed

section \<open>NOT\<close>

text \<open>NOT R0 (R0 = ~R0)\<close>

definition instrNOT :: handler where
  "instrNOT vm instr =
     (if ins_a instr \<ge> N_REG then Done (VM_ILL_REGISTER, vm)
      else let vm = set_reg (ins_a instr) (NOT (reg vm (ins_a instr))) vm
      in Done (VM_OK, setSRLOG (reg vm (ins_a instr)) vm))"

definition dispatchNOT :: "MODE \<Rightarrow> handler option" where
  "dispatchNOT m = (case m of MODE_REGU \<Rightarrow> Some instrNOT | _ \<Rightarrow> None)"

lemma instrNOT_touches: "post (\<lambda>(st, vm'). touches (ins_a i) vm vm') (instrNOT vm i)"
  by (simp add: instrNOT_def Let_def touches_set_reg_old)


section \<open>SHL\<close>

text \<open>SHL R0 x (R0 << x)\<close>

definition instrSHL :: handler where
  "instrSHL vm instr =
     (if ins_a instr \<ge> N_REG then Done (VM_ILL_REGISTER, vm)
      else let n = args instr
      in obind (c_shl (reg vm (ins_a instr)) n) (\<lambda>res.
        obind (setSRSHL (reg vm (ins_a instr)) n res vm) (\<lambda>vm. Done (VM_OK, set_reg (ins_a instr) res vm))))"

text \<open>SHL R0 R1 (R0 << R1)\<close>

definition instrSHLR :: handler where
  "instrSHLR vm instr =
     (if ins_a instr \<ge> N_REG \<or> ins_b instr \<ge> N_REG then Done (VM_ILL_REGISTER, vm)
      else let n = reg vm (ins_b instr)
      in obind (c_shl (reg vm (ins_a instr)) n) (\<lambda>res.
        obind (setSRSHL (reg vm (ins_a instr)) n res vm) (\<lambda>vm. Done (VM_OK, set_reg (ins_a instr) res vm))))"

text \<open>SHL R0 [x] (R0 << MEM[x])\<close>

definition instrSHLD :: handler where
  "instrSHLD vm instr =
     (if ins_a instr \<ge> N_REG then Done (VM_ILL_REGISTER, vm)
      else if args instr < DATA_BASE then Done (VM_ILL_MEM_ACCESS, vm)
      else reading64 vm (args instr) (\<lambda>value.
        obind (c_shl (reg vm (ins_a instr)) value) (\<lambda>res.
        obind (setSRSHL (reg vm (ins_a instr)) value res vm) (\<lambda>vm. Done (VM_OK, set_reg (ins_a instr) res vm)))))"

text \<open>SHL R0 [R1] (R0 << MEM[R1])\<close>

definition instrSHLI :: handler where
  "instrSHLI vm instr =
     (if ins_a instr \<ge> N_REG \<or> ins_b instr \<ge> N_REG then Done (VM_ILL_REGISTER, vm)
      else let addr = reg vm (ins_b instr)
      in if addr < DATA_BASE then Done (VM_ILL_MEM_ACCESS, vm)
      else reading64 vm addr (\<lambda>value.
        obind (c_shl (reg vm (ins_a instr)) value) (\<lambda>res.
        obind (setSRSHL (reg vm (ins_a instr)) value res vm) (\<lambda>vm. Done (VM_OK, set_reg (ins_a instr) res vm)))))"

text \<open>SHL R0 [R1+x] (R0 << MEM[R1+x])\<close>

definition instrSHLX :: handler where
  "instrSHLX vm instr =
     (if ins_a instr \<ge> N_REG \<or> ins_b instr \<ge> N_REG then Done (VM_ILL_REGISTER, vm)
      else let addr = reg vm (ins_b instr) + args instr
      in if addr < DATA_BASE then Done (VM_ILL_MEM_ACCESS, vm)
      else reading64 vm addr (\<lambda>value.
        obind (c_shl (reg vm (ins_a instr)) value) (\<lambda>res.
        obind (setSRSHL (reg vm (ins_a instr)) value res vm) (\<lambda>vm. Done (VM_OK, set_reg (ins_a instr) res vm)))))"

definition dispatchSHL :: "MODE \<Rightarrow> handler option" where
  "dispatchSHL m = (case m of MODE_IMM \<Rightarrow> Some instrSHL | MODE_REG \<Rightarrow> Some instrSHLR
     | MODE_DIR \<Rightarrow> Some instrSHLD | MODE_IND \<Rightarrow> Some instrSHLI | MODE_IDX \<Rightarrow> Some instrSHLX
     | _ \<Rightarrow> None)"

lemmas instrSHL_defs = instrSHL_def instrSHLR_def instrSHLD_def instrSHLI_def instrSHLX_def

definition shl_alu :: alu where
  "shl_alu r v vm =
     (obind (c_shl (reg vm r) v) (\<lambda>res.
        obind (setSRSHL (reg vm r) v res vm) (\<lambda>vm. Done (VM_OK, set_reg r res vm))))"

interpretation shl_ops: alu_family shl_alu dispatchSHL
proof
  show "dispatchSHL m \<noteq> None \<longleftrightarrow> m \<in> operand_modes" for m
    by (cases m) (simp_all add: dispatchSHL_def operand_modes_def)
  show "h vm i = exec_operand shl_alu m vm i" if "wf_vm vm" "dispatchSHL m = Some h" for vm m h i
    using that by (cases m) (auto simp: dispatchSHL_def instrSHL_defs shl_alu_def exec_simps)
  show "post (\<lambda>(st, vm'). touches r vm vm') (shl_alu r v vm)" for r v vm
    unfolding shl_alu_def post_iff
    by (auto simp: obind_Done_iff intro!: touches_set_reg
        dest: post_DoneD [OF only_sr_shift_setters(1)])
qed

section \<open>SHR\<close>

text \<open>SHR R0 x (R0 >> x)\<close>

definition instrSHR :: handler where
  "instrSHR vm instr =
     (if ins_a instr \<ge> N_REG then Done (VM_ILL_REGISTER, vm)
      else obind (c_sar (reg vm (ins_a instr)) (args instr)) (\<lambda>res.
        obind (setSRSHR (reg vm (ins_a instr)) (args instr) res vm) (\<lambda>vm. Done (VM_OK, set_reg (ins_a instr) res vm))))"

text \<open>SHR R0 R1 (R0 >> R1)\<close>

definition instrSHRR :: handler where
  "instrSHRR vm instr =
     (if ins_a instr \<ge> N_REG \<or> ins_b instr \<ge> N_REG then Done (VM_ILL_REGISTER, vm)
      else let n = reg vm (ins_b instr)
      in obind (c_sar (reg vm (ins_a instr)) n) (\<lambda>res.
        obind (setSRSHR (reg vm (ins_a instr)) n res vm) (\<lambda>vm. Done (VM_OK, set_reg (ins_a instr) res vm))))"

text \<open>SHR R0 [x] (R0 >> MEM[x])\<close>

definition instrSHRD :: handler where
  "instrSHRD vm instr =
     (if ins_a instr \<ge> N_REG then Done (VM_ILL_REGISTER, vm)
      else if args instr < DATA_BASE then Done (VM_ILL_MEM_ACCESS, vm)
      else reading64 vm (args instr) (\<lambda>value.
        obind (c_sar (reg vm (ins_a instr)) value) (\<lambda>res.
        obind (setSRSHR (reg vm (ins_a instr)) value res vm) (\<lambda>vm. Done (VM_OK, set_reg (ins_a instr) res vm)))))"

text \<open>SHR R0 [R1] (R0 >> MEM[R1])\<close>

definition instrSHRI :: handler where
  "instrSHRI vm instr =
     (if ins_a instr \<ge> N_REG \<or> ins_b instr \<ge> N_REG then Done (VM_ILL_REGISTER, vm)
      else let addr = reg vm (ins_b instr)
      in if addr < DATA_BASE then Done (VM_ILL_MEM_ACCESS, vm)
      else reading64 vm addr (\<lambda>value.
        obind (c_sar (reg vm (ins_a instr)) value) (\<lambda>res.
        obind (setSRSHR (reg vm (ins_a instr)) value res vm) (\<lambda>vm. Done (VM_OK, set_reg (ins_a instr) res vm)))))"

text \<open>SHR R0 [R1+x] (R0 >> MEM[R1+x])\<close>

definition instrSHRX :: handler where
  "instrSHRX vm instr =
     (if ins_a instr \<ge> N_REG \<or> ins_b instr \<ge> N_REG then Done (VM_ILL_REGISTER, vm)
      else let addr = reg vm (ins_b instr) + args instr
      in if addr < DATA_BASE then Done (VM_ILL_MEM_ACCESS, vm)
      else reading64 vm addr (\<lambda>value.
        obind (c_sar (reg vm (ins_a instr)) value) (\<lambda>res.
        obind (setSRSHR (reg vm (ins_a instr)) value res vm) (\<lambda>vm. Done (VM_OK, set_reg (ins_a instr) res vm)))))"

definition dispatchSHR :: "MODE \<Rightarrow> handler option" where
  "dispatchSHR m = (case m of MODE_IMM \<Rightarrow> Some instrSHR | MODE_REG \<Rightarrow> Some instrSHRR
     | MODE_DIR \<Rightarrow> Some instrSHRD | MODE_IND \<Rightarrow> Some instrSHRI | MODE_IDX \<Rightarrow> Some instrSHRX
     | _ \<Rightarrow> None)"

lemmas instrSHR_defs = instrSHR_def instrSHRR_def instrSHRD_def instrSHRI_def instrSHRX_def

definition shr_alu :: alu where
  "shr_alu r v vm =
     (obind (c_sar (reg vm r) v) (\<lambda>res.
        obind (setSRSHR (reg vm r) v res vm) (\<lambda>vm. Done (VM_OK, set_reg r res vm))))"

interpretation shr_ops: alu_family shr_alu dispatchSHR
proof
  show "dispatchSHR m \<noteq> None \<longleftrightarrow> m \<in> operand_modes" for m
    by (cases m) (simp_all add: dispatchSHR_def operand_modes_def)
  show "h vm i = exec_operand shr_alu m vm i" if "wf_vm vm" "dispatchSHR m = Some h" for vm m h i
    using that by (cases m) (auto simp: dispatchSHR_def instrSHR_defs shr_alu_def exec_simps)
  show "post (\<lambda>(st, vm'). touches r vm vm') (shr_alu r v vm)" for r v vm
    unfolding shr_alu_def post_iff
    by (auto simp: obind_Done_iff intro!: touches_set_reg
        dest: post_DoneD [OF only_sr_shift_setters(2)])
qed

end
