(* ===== verification/Data_Move.thy ===== *)
theory Data_Move
  imports Bitwise
begin

text \<open>
  The handlers of \<^verbatim>\<open>src/runtime/instructions.c\<close> that move data or control through the
  memory: ST, LD, SWP, PUSH, POP, FAS, CALL, RTN, and NOP, RST, HALT, with their rows of
  the dispatch table and what each keeps of the machine.
\<close>

unbundle bit_operations_syntax

section \<open>Unchecked register accesses\<close>

text \<open>
  Some handlers index \<open>registers\<close> without a complete check. A read outside the array, a
  write outside it and a pointer past its end are undefined.
\<close>

definition get_reg :: "vm \<Rightarrow> u8 \<Rightarrow> (u64 \<Rightarrow> 'a outcome) \<Rightarrow> 'a outcome" where
  "get_reg vm i k = (if unat i < length (registers vm) then k (reg vm i) else Undefined)"

definition put_reg :: "u8 \<Rightarrow> u64 \<Rightarrow> vm \<Rightarrow> (vm \<Rightarrow> 'a outcome) \<Rightarrow> 'a outcome" where
  "put_reg i v vm k = (if unat i < length (registers vm) then k (set_reg i v vm) else Undefined)"

definition reg_ptr :: "vm \<Rightarrow> u8 \<Rightarrow> 'a outcome \<Rightarrow> 'a outcome" where
  "reg_ptr vm i x = (if unat i \<le> length (registers vm) then x else Undefined)"

section \<open>ST\<close>

text \<open>STD R0 [x] (MEM[x] = R0)\<close>

definition instrSTD :: handler where
  "instrSTD vm instr =
     (if ins_a instr \<ge> N_REG then Done (VM_ILL_REGISTER, vm)
      else if args instr < DATA_BASE then Done (VM_ILL_MEM_ACCESS, vm)
      else memWrite64 vm (args instr) (reg vm (ins_a instr)))"

text \<open>STI R0 R1 (MEM[R1] = R0)\<close>

definition instrSTI :: handler where
  "instrSTI vm instr =
     (if ins_a instr \<ge> N_REG \<or> ins_b instr \<ge> N_REG then Done (VM_ILL_REGISTER, vm)
      else let addr = reg vm (ins_b instr)
      in if addr < DATA_BASE then Done (VM_ILL_MEM_ACCESS, vm)
      else memWrite64 vm addr (reg vm (ins_a instr)))"

text \<open>STX R0 [R1+x] (MEM[R1+x] = R0)\<close>

definition instrSTX :: handler where
  "instrSTX vm instr =
     (if ins_a instr \<ge> N_REG \<or> ins_b instr \<ge> N_REG then Done (VM_ILL_REGISTER, vm)
      else let addr = reg vm (ins_b instr) + args instr
      in if addr < DATA_BASE then Done (VM_ILL_MEM_ACCESS, vm)
      else memWrite64 vm addr (reg vm (ins_a instr)))"

definition dispatchST :: "MODE \<Rightarrow> handler option" where
  "dispatchST m = (case m of MODE_DIR \<Rightarrow> Some instrSTD | MODE_IND \<Rightarrow> Some instrSTI
     | MODE_IDX \<Rightarrow> Some instrSTX | _ \<Rightarrow> None)"

section \<open>LD\<close>

text \<open>LD R0 x (R0 = x)\<close>

definition instrLD :: handler where
  "instrLD vm instr =
     (if ins_a instr \<ge> N_REG then Done (VM_ILL_REGISTER, vm)
      else Done (VM_OK, set_reg (ins_a instr) (args instr) vm))"

text \<open>LDR R0 R1 (R0 = R1)\<close>

definition instrLDR :: handler where
  "instrLDR vm instr =
     (if ins_a instr \<ge> N_REG \<or> ins_b instr \<ge> N_REG then Done (VM_ILL_REGISTER, vm)
      else Done (VM_OK, set_reg (ins_a instr) (reg vm (ins_b instr)) vm))"

text \<open>LDD R0 [x] (R0 = MEM[x])\<close>

definition instrLDD :: handler where
  "instrLDD vm instr =
     (if ins_a instr \<ge> N_REG then Done (VM_ILL_REGISTER, vm)
      else if args instr < DATA_BASE then Done (VM_ILL_MEM_ACCESS, vm)
      else reading64 vm (args instr) (\<lambda>value. Done (VM_OK, set_reg (ins_a instr) value vm)))"

text \<open>LDI R0 [R1] (R0 = MEM[R1])\<close>

definition instrLDI :: handler where
  "instrLDI vm instr =
     (if ins_a instr \<ge> N_REG \<or> ins_b instr \<ge> N_REG then Done (VM_ILL_REGISTER, vm)
      else let addr = reg vm (ins_b instr)
      in if addr < DATA_BASE then Done (VM_ILL_MEM_ACCESS, vm)
      else reading64 vm addr (\<lambda>value. Done (VM_OK, set_reg (ins_a instr) value vm)))"

text \<open>LDX R0 [R1+x] (R0 = MEM[R1+x])\<close>

definition instrLDX :: handler where
  "instrLDX vm instr =
     (if ins_a instr \<ge> N_REG \<or> ins_b instr \<ge> N_REG then Done (VM_ILL_REGISTER, vm)
      else let addr = reg vm (ins_b instr) + args instr
      in if addr < DATA_BASE then Done (VM_ILL_MEM_ACCESS, vm)
      else reading64 vm addr (\<lambda>value. Done (VM_OK, set_reg (ins_a instr) value vm)))"

definition dispatchLD :: "MODE \<Rightarrow> handler option" where
  "dispatchLD m = (case m of MODE_IMM \<Rightarrow> Some instrLD | MODE_REG \<Rightarrow> Some instrLDR
     | MODE_DIR \<Rightarrow> Some instrLDD | MODE_IND \<Rightarrow> Some instrLDI | MODE_IDX \<Rightarrow> Some instrLDX
     | _ \<Rightarrow> None)"

definition ld_alu :: alu where
  "ld_alu r v vm = Done (VM_OK, set_reg r v vm)"

lemmas instrLD_defs = instrLD_def instrLDR_def instrLDD_def instrLDI_def instrLDX_def

interpretation ld_ops: alu_family ld_alu dispatchLD
proof
  show "dispatchLD m \<noteq> None \<longleftrightarrow> m \<in> operand_modes" for m
    by (cases m) (simp_all add: dispatchLD_def operand_modes_def)
  show "h vm i = exec_operand ld_alu m vm i" if "wf_vm vm" "dispatchLD m = Some h" for vm m h i
    using that by (cases m) (auto simp: dispatchLD_def instrLD_defs ld_alu_def exec_simps)
  show "post (\<lambda>(st, vm'). touches r vm vm') (ld_alu r v vm)" for r v vm
    by (simp add: ld_alu_def touches_set_reg_old)
qed

section \<open>SWP\<close>

text \<open>SWPR R0 R1 (R0 <-> R1)\<close>

definition instrSWPR :: handler where
  "instrSWPR vm instr =
     (if ins_a instr \<ge> N_REG \<or> ins_b instr \<ge> N_REG then Done (VM_ILL_REGISTER, vm)
      else let tmp = reg vm (ins_a instr);
               vm = set_reg (ins_a instr) (reg vm (ins_b instr)) vm
      in Done (VM_OK, set_reg (ins_b instr) tmp vm))"

text \<open>The exchange that SWPD, SWPI and SWPX make with the cell at \<open>addr\<close>.\<close>

definition swap_cell :: "vm \<Rightarrow> u8 \<Rightarrow> u64 \<Rightarrow> result" where
  "swap_cell vm r addr =
     reading64 vm addr (\<lambda>tmp.
       obind (memWrite64 vm addr (reg vm r)) (\<lambda>(status, vm).
         Done (status, if status = VM_OK then set_reg r tmp vm else vm)))"

text \<open>SWPD R0 [x] (R0 <-> MEM[x])\<close>

definition instrSWPD :: handler where
  "instrSWPD vm instr =
     (if ins_a instr \<ge> N_REG then Done (VM_ILL_REGISTER, vm)
      else let addr = args instr
      in if addr < DATA_BASE then Done (VM_ILL_MEM_ACCESS, vm)
      else swap_cell vm (ins_a instr) addr)"

text \<open>SWPI R0 [R1] (R0 <-> MEM[R1])\<close>

definition instrSWPI :: handler where
  "instrSWPI vm instr =
     (if ins_a instr \<ge> N_REG \<or> ins_b instr \<ge> N_REG then Done (VM_ILL_REGISTER, vm)
      else let addr = reg vm (ins_b instr)
      in if addr < DATA_BASE then Done (VM_ILL_MEM_ACCESS, vm)
      else swap_cell vm (ins_a instr) addr)"

text \<open>SWPX R0 [R1+x] (R0 <-> MEM[R1+x])\<close>

definition instrSWPX :: handler where
  "instrSWPX vm instr =
     (if ins_a instr \<ge> N_REG \<or> ins_b instr \<ge> N_REG then Done (VM_ILL_REGISTER, vm)
      else let addr = reg vm (ins_b instr) + args instr
      in if addr < DATA_BASE then Done (VM_ILL_MEM_ACCESS, vm)
      else swap_cell vm (ins_a instr) addr)"

definition dispatchSWP :: "MODE \<Rightarrow> handler option" where
  "dispatchSWP m = (case m of MODE_REG \<Rightarrow> Some instrSWPR | MODE_DIR \<Rightarrow> Some instrSWPD
     | MODE_IND \<Rightarrow> Some instrSWPI | MODE_IDX \<Rightarrow> Some instrSWPX | _ \<Rightarrow> None)"

section \<open>PUSH and POP\<close>

text \<open>The store below the stack pointer, undone when it fails.\<close>

definition push_word :: "vm \<Rightarrow> u64 \<Rightarrow> result" where
  "push_word vm value =
     (let vm = vm\<lparr>sp := sp vm - 8\<rparr>
      in obind (memWrite64 vm (sp vm) value) (\<lambda>(write_status, vm).
        Done (write_status, if write_status \<noteq> VM_OK then vm\<lparr>sp := sp vm + 8\<rparr> else vm)))"

text \<open>PUSH x (MEM[SP] = x and SP = SP - 8)\<close>

definition instrPUSH :: handler where
  "instrPUSH vm instr =
     (if sp vm \<le> STACK_BASE then Done (VM_STACK_OVERFLOW, vm)
      else if ins_a instr \<ge> N_REG then Done (VM_ILL_REGISTER, vm)
      else push_word vm (args instr))"

text \<open>PUSHR R0 (MEM[SP] = R0 and SP = SP - 8)\<close>

definition instrPUSHR :: handler where
  "instrPUSHR vm instr =
     (if sp vm \<le> STACK_BASE then Done (VM_STACK_OVERFLOW, vm)
      else if ins_a instr \<ge> N_REG then Done (VM_ILL_REGISTER, vm)
      else push_word vm (reg vm (ins_a instr)))"

definition dispatchPUSH :: "MODE \<Rightarrow> handler option" where
  "dispatchPUSH m = (case m of MODE_IMM \<Rightarrow> Some instrPUSH | MODE_REGU \<Rightarrow> Some instrPUSHR | _ \<Rightarrow> None)"

text \<open>POP R0 (R0 = MEM[SP] and SP = SP + 8)\<close>

definition instrPOP :: handler where
  "instrPOP vm instr =
     (if sp vm \<ge> MEM_SIZE then Done (VM_STACK_UNDERFLOW, vm)
      else if ins_a instr \<ge> N_REG then Done (VM_ILL_REGISTER, vm)
      else reading64 vm (sp vm) (\<lambda>value.
        let vm = set_reg (ins_a instr) value vm in Done (VM_OK, vm\<lparr>sp := sp vm + 8\<rparr>)))"

definition dispatchPOP :: "MODE \<Rightarrow> handler option" where
  "dispatchPOP m = (case m of MODE_REGU \<Rightarrow> Some instrPOP | _ \<Rightarrow> None)"

section \<open>FAS\<close>

text \<open>FASD R0 [x] (R0 = MEM[x] and MEM[x] = 1)\<close>

definition instrFASD :: handler where
  "instrFASD vm instr =
     (if ins_a instr \<ge> N_REG then Done (VM_ILL_REGISTER, vm)
      else if args instr < DATA_BASE then Done (VM_ILL_MEM_ACCESS, vm)
      else reading64 vm (args instr) (\<lambda>value.
        memWrite64 (set_reg (ins_a instr) value vm) (args instr) 1))"

text \<open>
  FASI R0 [R1]: the register check asks for both registers to be invalid, and the 1 is
  stored at the address \<open>instr->b\<close>, the number of the register.
\<close>

definition instrFASI :: handler where
  "instrFASI vm instr =
     (if ins_a instr \<ge> N_REG \<and> ins_b instr \<ge> N_REG then Done (VM_ILL_REGISTER, vm)
      else get_reg vm (ins_b instr) (\<lambda>addr.
        if addr < DATA_BASE then Done (VM_ILL_MEM_ACCESS, vm)
        else reg_ptr vm (ins_a instr) (reading64 vm addr (\<lambda>value.
          put_reg (ins_a instr) value vm (\<lambda>vm. memWrite64 vm (ucast (ins_b instr)) 1)))))"

text \<open>
  FASX R0 [R1+x]: the address of the store is computed anew, after the load has changed
  the register \<open>ins_a\<close>.
\<close>

definition instrFASX :: handler where
  "instrFASX vm instr =
     (if ins_a instr \<ge> N_REG \<and> ins_b instr \<ge> N_REG then Done (VM_ILL_REGISTER, vm)
      else get_reg vm (ins_b instr) (\<lambda>base. let addr = base + args instr
        in if addr < DATA_BASE then Done (VM_ILL_MEM_ACCESS, vm)
        else reg_ptr vm (ins_a instr) (reading64 vm addr (\<lambda>value.
          put_reg (ins_a instr) value vm (\<lambda>vm.
            get_reg vm (ins_b instr) (\<lambda>base. memWrite64 vm (base + args instr) 1))))))"

definition dispatchFAS :: "MODE \<Rightarrow> handler option" where
  "dispatchFAS m = (case m of MODE_DIR \<Rightarrow> Some instrFASD | MODE_IND \<Rightarrow> Some instrFASI
     | MODE_IDX \<Rightarrow> Some instrFASX | _ \<Rightarrow> None)"

section \<open>CALL and RTN\<close>

text \<open>The tail of the five CALL handlers: push the return address, then jump.\<close>

definition call_to :: "instruction \<Rightarrow> u64 \<Rightarrow> vm \<Rightarrow> result" where
  "call_to instr target vm =
     (let vm = vm\<lparr>sp := sp vm - 8\<rparr>
      in with_mode_size (mode instr) (\<lambda>sz.
        obind (memWrite64 vm (sp vm) (pc vm + sz)) (\<lambda>(status, vm).
          if status = VM_OK then Done (VM_OK, vm\<lparr>pc := target\<rparr>)
          else Done (status, vm\<lparr>sp := sp vm + 8\<rparr>))))"

text \<open>CALL x (PUSH PC and JMP x)\<close>

definition instrCALL :: handler where
  "instrCALL vm instr =
     (if sp vm \<le> STACK_BASE then Done (VM_STACK_OVERFLOW, vm)
      else if args instr \<ge> DATA_BASE then Done (VM_INVALID_JMP, vm)
      else call_to instr (args instr) vm)"

text \<open>CALLR R0: the target is compared as a signed number.\<close>

definition instrCALLR :: handler where
  "instrCALLR vm instr =
     (if ins_a instr \<ge> N_REG then Done (VM_ILL_REGISTER, vm)
      else if sp vm \<le> STACK_BASE then Done (VM_STACK_OVERFLOW, vm)
      else if DATA_BASE \<le>s reg vm (ins_a instr) then Done (VM_INVALID_JMP, vm)
      else call_to instr (reg vm (ins_a instr)) vm)"

text \<open>CALLD [x] (PUSH PC and JMP MEM[x])\<close>

definition instrCALLD :: handler where
  "instrCALLD vm instr =
     (if sp vm \<le> STACK_BASE then Done (VM_STACK_OVERFLOW, vm)
      else reading64 vm (args instr) (\<lambda>addr.
        if DATA_BASE \<le>s addr then Done (VM_INVALID_JMP, vm)
        else call_to instr addr vm))"

text \<open>CALLI [R0] (PUSH PC and JMP MEM[R0])\<close>

definition instrCALLI :: handler where
  "instrCALLI vm instr =
     (if sp vm \<le> STACK_BASE then Done (VM_STACK_OVERFLOW, vm)
      else if ins_a instr \<ge> N_REG then Done (VM_ILL_REGISTER, vm)
      else reading64 vm (reg vm (ins_a instr)) (\<lambda>addr.
        if DATA_BASE \<le>s addr then Done (VM_INVALID_JMP, vm)
        else call_to instr addr vm))"

text \<open>CALLX [R0+x] (PUSH PC and JMP MEM[R0+x])\<close>

definition instrCALLX :: handler where
  "instrCALLX vm instr =
     (if sp vm \<le> STACK_BASE then Done (VM_STACK_OVERFLOW, vm)
      else if ins_a instr \<ge> N_REG then Done (VM_ILL_REGISTER, vm)
      else reading64 vm (reg vm (ins_a instr) + args instr) (\<lambda>addr.
        if DATA_BASE \<le>s addr then Done (VM_INVALID_JMP, vm)
        else call_to instr addr vm))"

definition dispatchCALL :: "MODE \<Rightarrow> handler option" where
  "dispatchCALL m = (case m of MODE_IMM \<Rightarrow> Some instrCALL | MODE_REGU \<Rightarrow> Some instrCALLR
     | MODE_DIR \<Rightarrow> Some instrCALLD | MODE_IND \<Rightarrow> Some instrCALLI | MODE_IDX \<Rightarrow> Some instrCALLX
     | _ \<Rightarrow> None)"

text \<open>
  RTN (POP PC): the popped value is compared before the status of the load is looked at;
  after a failed load that value is indeterminate.
\<close>

definition instrRTN :: handler where
  "instrRTN vm instr =
     (if sp vm \<ge> MEM_SIZE then Done (VM_STACK_UNDERFLOW, vm)
      else obind (memRead64 vm (sp vm)) (\<lambda>r. case r of
          Inl e \<Rightarrow> Undefined
        | Inr value \<Rightarrow>
            if DATA_BASE \<le>s value then Done (VM_INVALID_JMP, vm)
            else Done (VM_OK, vm\<lparr>pc := value, sp := sp vm + 8\<rparr>)))"

definition dispatchRTN :: "MODE \<Rightarrow> handler option" where
  "dispatchRTN m = (case m of MODE_NONE \<Rightarrow> Some instrRTN | _ \<Rightarrow> None)"

section \<open>NOP, RST, HALT\<close>

definition instrNOP :: handler where
  "instrNOP vm instr = Done (VM_OK, vm)"

definition dispatchNOP :: "MODE \<Rightarrow> handler option" where
  "dispatchNOP m = (case m of MODE_NONE \<Rightarrow> Some instrNOP | _ \<Rightarrow> None)"

text \<open>RST (resets the machine, its memory included)\<close>

definition instrRST :: handler where
  "instrRST vm instr = Done (VM_OK, initVM (destroyVM vm))"

definition dispatchRST :: "MODE \<Rightarrow> handler option" where
  "dispatchRST m = (case m of MODE_NONE \<Rightarrow> Some instrRST | _ \<Rightarrow> None)"

text \<open>HALT (stops the execution of the program)\<close>

definition instrHALT :: handler where
  "instrHALT vm instr = Done (VM_OK, vm\<lparr>running := False\<rparr>)"

definition dispatchHALT :: "MODE \<Rightarrow> handler option" where
  "dispatchHALT m = (case m of MODE_NONE \<Rightarrow> Some instrHALT | _ \<Rightarrow> None)"

end
