(* ===== verification/Jump.thy ===== *)
theory Jump
  imports Data_Move
begin

text \<open>
  The jumps of \<^verbatim>\<open>src/runtime/instructions.c\<close>: the five target computations \<open>jump\<close> to \<open>jumpx\<close>,
  the unconditional JMP and the six conditional families, their rows of the dispatch
  table, and the contract \<open>jump_family\<close> every row keeps.
\<close>

unbundle bit_operations_syntax

section \<open>Targets\<close>

definition jump :: handler where
  "jump vm instr =
     (if args instr \<ge> DATA_BASE then Done (VM_INVALID_JMP, vm)
      else Done (VM_OK, vm\<lparr>pc := args instr\<rparr>))"

text \<open>
  The register check of \<open>jumpr\<close>, \<open>jumpi\<close> and \<open>jumpx\<close> is \<open>instr->a > N_REG\<close>: the index
  \<open>N_REG\<close> passes and is read outside \<open>registers\<close>.
\<close>

definition jumpr :: handler where
  "jumpr vm instr =
     (if ins_a instr > N_REG then Done (VM_ILL_REGISTER, vm)
      else get_reg vm (ins_a instr) (\<lambda>addr.
        if addr \<ge> DATA_BASE then Done (VM_INVALID_JMP, vm)
        else Done (VM_OK, vm\<lparr>pc := addr\<rparr>)))"

text \<open>\<open>jumpd\<close> refuses the addresses from \<open>DATA_BASE\<close> on, where the others refuse those below.\<close>

definition jumpd :: handler where
  "jumpd vm instr =
     (if args instr \<ge> DATA_BASE then Done (VM_INVALID_JMP, vm)
      else reading64 vm (args instr) (\<lambda>value.
        if value \<ge> DATA_BASE then Done (VM_INVALID_JMP, vm)
        else Done (VM_OK, vm\<lparr>pc := value\<rparr>)))"

definition jumpi :: handler where
  "jumpi vm instr =
     (if ins_a instr > N_REG then Done (VM_ILL_REGISTER, vm)
      else get_reg vm (ins_a instr) (\<lambda>addr.
        if addr < DATA_BASE then Done (VM_ILL_MEM_ACCESS, vm)
        else reading64 vm addr (\<lambda>value.
          if value \<ge> DATA_BASE then Done (VM_INVALID_JMP, vm)
          else Done (VM_OK, vm\<lparr>pc := value\<rparr>))))"

definition jumpx :: handler where
  "jumpx vm instr =
     (if ins_a instr > N_REG then Done (VM_ILL_REGISTER, vm)
      else get_reg vm (ins_a instr) (\<lambda>base. let addr = base + args instr
        in if addr < DATA_BASE then Done (VM_ILL_MEM_ACCESS, vm)
        else reading64 vm addr (\<lambda>value.
          if value \<ge> DATA_BASE then Done (VM_INVALID_JMP, vm)
          else Done (VM_OK, vm\<lparr>pc := value\<rparr>))))"

definition jump_by :: "MODE \<Rightarrow> handler" where
  "jump_by m = (case m of MODE_IMM \<Rightarrow> jump | MODE_REGU \<Rightarrow> jumpr | MODE_DIR \<Rightarrow> jumpd
     | MODE_IND \<Rightarrow> jumpi | MODE_IDX \<Rightarrow> jumpx | _ \<Rightarrow> (\<lambda>vm instr. Undefined))"

definition jump_modes :: "MODE set" where
  "jump_modes = {MODE_IMM, MODE_REGU, MODE_DIR, MODE_IND, MODE_IDX}"

text \<open>A jump sets \<open>pc\<close> to an address of the code segment, or changes nothing.\<close>

definition jumped :: "vm \<Rightarrow> VM_Error \<times> vm \<Rightarrow> bool" where
  "jumped vm r \<longleftrightarrow> (case r of (st, vm') \<Rightarrow>
     if st = VM_OK then \<exists>p < DATA_BASE. vm' = vm\<lparr>pc := p\<rparr> else vm' = vm)"

lemma jump_by_jumped: "post (jumped vm) (jump_by m vm i)"
proof -
  have r: "post (jumped vm) (reading64 vm addr (\<lambda>value.
      if value \<ge> DATA_BASE then Done (VM_INVALID_JMP, vm) else Done (VM_OK, vm\<lparr>pc := value\<rparr>)))" for addr
    by (auto simp: reading64_def memRead64_def jumped_def obind_Done_iff post_iff not_le split: if_splits)
  then show ?thesis
    by (cases m)
      (auto simp: jump_by_def jump_def jumpr_def jumpd_def jumpi_def jumpx_def get_reg_def Let_def
        jumped_def not_le split: if_splits)
qed

lemma same_pc: "\<exists>p. vm = vm\<lparr>pc := p\<rparr>"
  by (rule exI [of _ "pc vm"]) simp

lemma jumped_pc: "jumped vm (st, vm') \<Longrightarrow> \<exists>p. vm' = vm\<lparr>pc := p\<rparr>"
  using same_pc [of vm] by (auto simp: jumped_def split: if_splits)

section \<open>The contract of a jump's five handlers\<close>

locale jump_family =
  fixes taken :: "MODE \<Rightarrow> vm \<Rightarrow> bool"
    and table :: "MODE \<Rightarrow> handler option"
  assumes table_modes: "table m \<noteq> None \<longleftrightarrow> m \<in> jump_modes"
    and table_exec: "table m = Some h \<Longrightarrow>
      h vm i = (if taken m vm then jump_by m vm i else Done (VM_OK, vm))"
begin

lemma not_taken: "table m = Some h \<Longrightarrow> \<not> taken m vm \<Longrightarrow> h vm i = Done (VM_OK, vm)"
  by (simp add: table_exec)

lemma is_taken: "table m = Some h \<Longrightarrow> taken m vm \<Longrightarrow> h vm i = jump_by m vm i"
  by (simp add: table_exec)

lemma handler_jumped:
  "table m = Some h \<Longrightarrow> post (\<lambda>r. r = (VM_OK, vm) \<or> jumped vm r) (h vm i)"
  by (simp add: table_exec post_mono [OF jump_by_jumped])

text \<open>Only \<open>pc\<close> can change.\<close>

lemma handler_only_pc:
  "table m = Some h \<Longrightarrow> post (\<lambda>(st, vm'). \<exists>p. vm' = vm\<lparr>pc := p\<rparr>) (h vm i)"
  by (rule post_mono [OF handler_jumped]) (auto dest: jumped_pc intro: same_pc)

end

section \<open>JMP\<close>

definition instrJMP :: handler where
  "instrJMP vm instr = jump vm instr"

definition instrJMPR :: handler where
  "instrJMPR vm instr = jumpr vm instr"

definition instrJMPD :: handler where
  "instrJMPD vm instr = jumpd vm instr"

definition instrJMPI :: handler where
  "instrJMPI vm instr = jumpi vm instr"

definition instrJMPX :: handler where
  "instrJMPX vm instr = jumpx vm instr"

definition dispatchJMP :: "MODE \<Rightarrow> handler option" where
  "dispatchJMP m = (case m of MODE_IMM \<Rightarrow> Some instrJMP | MODE_REGU \<Rightarrow> Some instrJMPR
     | MODE_DIR \<Rightarrow> Some instrJMPD | MODE_IND \<Rightarrow> Some instrJMPI | MODE_IDX \<Rightarrow> Some instrJMPX
     | _ \<Rightarrow> None)"

lemmas instrJMP_defs = instrJMP_def instrJMPR_def instrJMPD_def instrJMPI_def instrJMPX_def

interpretation jmp_ops: jump_family "\<lambda>_ _. True" dispatchJMP
proof
  show "dispatchJMP m \<noteq> None \<longleftrightarrow> m \<in> jump_modes" for m
    by (cases m) (simp_all add: dispatchJMP_def jump_modes_def)
  show "h vm i = (if True then jump_by m vm i else Done (VM_OK, vm))" if "dispatchJMP m = Some h" for m h vm i
    using that by (cases m) (auto simp: dispatchJMP_def instrJMP_defs jump_by_def)
qed

section \<open>Conditional jumps\<close>

definition eq_log :: "u8 \<Rightarrow> u8 \<Rightarrow> bool" where
  "eq_log a b \<longleftrightarrow> a \<noteq> 0 \<and> b \<noteq> 0 \<or> a = 0 \<and> b = 0"

lemma eq_log_flags [simp]: "eq_log (getSRNF vm) (getSROF vm) \<longleftrightarrow> flag_N vm = flag_O vm"
  by (auto simp: eq_log_def)

subsection \<open>JEQ\<close>

text \<open>JEQ target: PC = target if \<open>Z\<close> in SR\<close>

definition instrJEQ :: handler where
  "instrJEQ vm instr = (if getSRZF vm = 0 then Done (VM_OK, vm) else jump vm instr)"

definition instrJEQR :: handler where
  "instrJEQR vm instr = (if getSRZF vm = 0 then Done (VM_OK, vm) else jumpr vm instr)"

definition instrJEQD :: handler where
  "instrJEQD vm instr = (if getSRZF vm = 0 then Done (VM_OK, vm) else jumpd vm instr)"

definition instrJEQI :: handler where
  "instrJEQI vm instr = (if getSRZF vm = 0 then Done (VM_OK, vm) else jumpi vm instr)"

definition instrJEQX :: handler where
  "instrJEQX vm instr = (if getSRZF vm = 0 then Done (VM_OK, vm) else jumpx vm instr)"

definition dispatchJEQ :: "MODE \<Rightarrow> handler option" where
  "dispatchJEQ m = (case m of MODE_IMM \<Rightarrow> Some instrJEQ | MODE_REGU \<Rightarrow> Some instrJEQR
     | MODE_DIR \<Rightarrow> Some instrJEQD | MODE_IND \<Rightarrow> Some instrJEQI | MODE_IDX \<Rightarrow> Some instrJEQX
     | _ \<Rightarrow> None)"

lemmas instrJEQ_defs = instrJEQ_def instrJEQR_def instrJEQD_def instrJEQI_def instrJEQX_def

definition jeq_taken :: "MODE \<Rightarrow> vm \<Rightarrow> bool" where
  "jeq_taken m vm \<longleftrightarrow> flag_Z vm"

interpretation jeq_ops: jump_family jeq_taken dispatchJEQ
proof
  show "dispatchJEQ m \<noteq> None \<longleftrightarrow> m \<in> jump_modes" for m
    by (cases m) (simp_all add: dispatchJEQ_def jump_modes_def)
  show "h vm i = (if jeq_taken m vm then jump_by m vm i else Done (VM_OK, vm))"
    if "dispatchJEQ m = Some h" for m h vm i
    using that by (cases m) (auto simp: dispatchJEQ_def instrJEQ_defs jump_by_def jeq_taken_def)
qed

subsection \<open>JNE\<close>

text \<open>JNE target: PC = target if \<open>not Z\<close> in SR; \<open>instrJNEI\<close> tests the flag the other way round\<close>

definition instrJNE :: handler where
  "instrJNE vm instr = (if getSRZF vm \<noteq> 0 then Done (VM_OK, vm) else jump vm instr)"

definition instrJNER :: handler where
  "instrJNER vm instr = (if getSRZF vm \<noteq> 0 then Done (VM_OK, vm) else jumpr vm instr)"

definition instrJNED :: handler where
  "instrJNED vm instr = (if getSRZF vm \<noteq> 0 then Done (VM_OK, vm) else jumpd vm instr)"

definition instrJNEI :: handler where
  "instrJNEI vm instr = (if getSRZF vm = 0 then Done (VM_OK, vm) else jumpi vm instr)"

definition instrJNEX :: handler where
  "instrJNEX vm instr = (if getSRZF vm \<noteq> 0 then Done (VM_OK, vm) else jumpx vm instr)"

definition dispatchJNE :: "MODE \<Rightarrow> handler option" where
  "dispatchJNE m = (case m of MODE_IMM \<Rightarrow> Some instrJNE | MODE_REGU \<Rightarrow> Some instrJNER
     | MODE_DIR \<Rightarrow> Some instrJNED | MODE_IND \<Rightarrow> Some instrJNEI | MODE_IDX \<Rightarrow> Some instrJNEX
     | _ \<Rightarrow> None)"

lemmas instrJNE_defs = instrJNE_def instrJNER_def instrJNED_def instrJNEI_def instrJNEX_def

definition jne_taken :: "MODE \<Rightarrow> vm \<Rightarrow> bool" where
  "jne_taken m vm \<longleftrightarrow> (if m = MODE_IND then flag_Z vm else \<not> flag_Z vm)"

interpretation jne_ops: jump_family jne_taken dispatchJNE
proof
  show "dispatchJNE m \<noteq> None \<longleftrightarrow> m \<in> jump_modes" for m
    by (cases m) (simp_all add: dispatchJNE_def jump_modes_def)
  show "h vm i = (if jne_taken m vm then jump_by m vm i else Done (VM_OK, vm))"
    if "dispatchJNE m = Some h" for m h vm i
    using that by (cases m) (auto simp: dispatchJNE_def instrJNE_defs jump_by_def jne_taken_def)
qed

subsection \<open>JLE\<close>

text \<open>JLE target: PC = target if \<open>Z or N \<noteq> O\<close> in SR\<close>

definition instrJLE :: handler where
  "instrJLE vm instr = (if getSRZF vm = 0 \<and> eq_log (getSRNF vm) (getSROF vm) then Done (VM_OK, vm) else jump vm instr)"

definition instrJLER :: handler where
  "instrJLER vm instr = (if getSRZF vm = 0 \<and> eq_log (getSRNF vm) (getSROF vm) then Done (VM_OK, vm) else jumpr vm instr)"

definition instrJLED :: handler where
  "instrJLED vm instr = (if getSRZF vm = 0 \<and> eq_log (getSRNF vm) (getSROF vm) then Done (VM_OK, vm) else jumpd vm instr)"

definition instrJLEI :: handler where
  "instrJLEI vm instr = (if getSRZF vm = 0 \<and> eq_log (getSRNF vm) (getSROF vm) then Done (VM_OK, vm) else jumpi vm instr)"

definition instrJLEX :: handler where
  "instrJLEX vm instr = (if getSRZF vm = 0 \<and> eq_log (getSRNF vm) (getSROF vm) then Done (VM_OK, vm) else jumpx vm instr)"

definition dispatchJLE :: "MODE \<Rightarrow> handler option" where
  "dispatchJLE m = (case m of MODE_IMM \<Rightarrow> Some instrJLE | MODE_REGU \<Rightarrow> Some instrJLER
     | MODE_DIR \<Rightarrow> Some instrJLED | MODE_IND \<Rightarrow> Some instrJLEI | MODE_IDX \<Rightarrow> Some instrJLEX
     | _ \<Rightarrow> None)"

lemmas instrJLE_defs = instrJLE_def instrJLER_def instrJLED_def instrJLEI_def instrJLEX_def

definition jle_taken :: "MODE \<Rightarrow> vm \<Rightarrow> bool" where
  "jle_taken m vm \<longleftrightarrow> flag_Z vm \<or> flag_N vm \<noteq> flag_O vm"

interpretation jle_ops: jump_family jle_taken dispatchJLE
proof
  show "dispatchJLE m \<noteq> None \<longleftrightarrow> m \<in> jump_modes" for m
    by (cases m) (simp_all add: dispatchJLE_def jump_modes_def)
  show "h vm i = (if jle_taken m vm then jump_by m vm i else Done (VM_OK, vm))"
    if "dispatchJLE m = Some h" for m h vm i
    using that by (cases m) (auto simp: dispatchJLE_def instrJLE_defs jump_by_def jle_taken_def)
qed

subsection \<open>JLT\<close>

text \<open>JLT target: PC = target if \<open>N \<noteq> O\<close> in SR\<close>

definition instrJLT :: handler where
  "instrJLT vm instr = (if eq_log (getSRNF vm) (getSROF vm) then Done (VM_OK, vm) else jump vm instr)"

definition instrJLTR :: handler where
  "instrJLTR vm instr = (if eq_log (getSRNF vm) (getSROF vm) then Done (VM_OK, vm) else jumpr vm instr)"

definition instrJLTD :: handler where
  "instrJLTD vm instr = (if eq_log (getSRNF vm) (getSROF vm) then Done (VM_OK, vm) else jumpd vm instr)"

definition instrJLTI :: handler where
  "instrJLTI vm instr = (if eq_log (getSRNF vm) (getSROF vm) then Done (VM_OK, vm) else jumpi vm instr)"

definition instrJLTX :: handler where
  "instrJLTX vm instr = (if eq_log (getSRNF vm) (getSROF vm) then Done (VM_OK, vm) else jumpx vm instr)"

definition dispatchJLT :: "MODE \<Rightarrow> handler option" where
  "dispatchJLT m = (case m of MODE_IMM \<Rightarrow> Some instrJLT | MODE_REGU \<Rightarrow> Some instrJLTR
     | MODE_DIR \<Rightarrow> Some instrJLTD | MODE_IND \<Rightarrow> Some instrJLTI | MODE_IDX \<Rightarrow> Some instrJLTX
     | _ \<Rightarrow> None)"

lemmas instrJLT_defs = instrJLT_def instrJLTR_def instrJLTD_def instrJLTI_def instrJLTX_def

definition jlt_taken :: "MODE \<Rightarrow> vm \<Rightarrow> bool" where
  "jlt_taken m vm \<longleftrightarrow> flag_N vm \<noteq> flag_O vm"

interpretation jlt_ops: jump_family jlt_taken dispatchJLT
proof
  show "dispatchJLT m \<noteq> None \<longleftrightarrow> m \<in> jump_modes" for m
    by (cases m) (simp_all add: dispatchJLT_def jump_modes_def)
  show "h vm i = (if jlt_taken m vm then jump_by m vm i else Done (VM_OK, vm))"
    if "dispatchJLT m = Some h" for m h vm i
    using that by (cases m) (auto simp: dispatchJLT_def instrJLT_defs jump_by_def jlt_taken_def)
qed

subsection \<open>JGE\<close>

text \<open>JGE target: PC = target if \<open>N = O\<close> in SR\<close>

definition instrJGE :: handler where
  "instrJGE vm instr = (if \<not> eq_log (getSRNF vm) (getSROF vm) then Done (VM_OK, vm) else jump vm instr)"

definition instrJGER :: handler where
  "instrJGER vm instr = (if \<not> eq_log (getSRNF vm) (getSROF vm) then Done (VM_OK, vm) else jumpr vm instr)"

definition instrJGED :: handler where
  "instrJGED vm instr = (if \<not> eq_log (getSRNF vm) (getSROF vm) then Done (VM_OK, vm) else jumpd vm instr)"

definition instrJGEI :: handler where
  "instrJGEI vm instr = (if \<not> eq_log (getSRNF vm) (getSROF vm) then Done (VM_OK, vm) else jumpi vm instr)"

definition instrJGEX :: handler where
  "instrJGEX vm instr = (if \<not> eq_log (getSRNF vm) (getSROF vm) then Done (VM_OK, vm) else jumpx vm instr)"

definition dispatchJGE :: "MODE \<Rightarrow> handler option" where
  "dispatchJGE m = (case m of MODE_IMM \<Rightarrow> Some instrJGE | MODE_REGU \<Rightarrow> Some instrJGER
     | MODE_DIR \<Rightarrow> Some instrJGED | MODE_IND \<Rightarrow> Some instrJGEI | MODE_IDX \<Rightarrow> Some instrJGEX
     | _ \<Rightarrow> None)"

lemmas instrJGE_defs = instrJGE_def instrJGER_def instrJGED_def instrJGEI_def instrJGEX_def

definition jge_taken :: "MODE \<Rightarrow> vm \<Rightarrow> bool" where
  "jge_taken m vm \<longleftrightarrow> flag_N vm = flag_O vm"

interpretation jge_ops: jump_family jge_taken dispatchJGE
proof
  show "dispatchJGE m \<noteq> None \<longleftrightarrow> m \<in> jump_modes" for m
    by (cases m) (simp_all add: dispatchJGE_def jump_modes_def)
  show "h vm i = (if jge_taken m vm then jump_by m vm i else Done (VM_OK, vm))"
    if "dispatchJGE m = Some h" for m h vm i
    using that by (cases m) (auto simp: dispatchJGE_def instrJGE_defs jump_by_def jge_taken_def)
qed

subsection \<open>JGT\<close>

text \<open>JGT target: PC = target if \<open>not Z and N = O\<close> in SR\<close>

definition instrJGT :: handler where
  "instrJGT vm instr = (if getSRZF vm \<noteq> 0 \<or> \<not> eq_log (getSRNF vm) (getSROF vm) then Done (VM_OK, vm) else jump vm instr)"

definition instrJGTR :: handler where
  "instrJGTR vm instr = (if getSRZF vm \<noteq> 0 \<or> \<not> eq_log (getSRNF vm) (getSROF vm) then Done (VM_OK, vm) else jumpr vm instr)"

definition instrJGTD :: handler where
  "instrJGTD vm instr = (if getSRZF vm \<noteq> 0 \<or> \<not> eq_log (getSRNF vm) (getSROF vm) then Done (VM_OK, vm) else jumpd vm instr)"

definition instrJGTI :: handler where
  "instrJGTI vm instr = (if getSRZF vm \<noteq> 0 \<or> \<not> eq_log (getSRNF vm) (getSROF vm) then Done (VM_OK, vm) else jumpi vm instr)"

definition instrJGTX :: handler where
  "instrJGTX vm instr = (if getSRZF vm \<noteq> 0 \<or> \<not> eq_log (getSRNF vm) (getSROF vm) then Done (VM_OK, vm) else jumpx vm instr)"

definition dispatchJGT :: "MODE \<Rightarrow> handler option" where
  "dispatchJGT m = (case m of MODE_IMM \<Rightarrow> Some instrJGT | MODE_REGU \<Rightarrow> Some instrJGTR
     | MODE_DIR \<Rightarrow> Some instrJGTD | MODE_IND \<Rightarrow> Some instrJGTI | MODE_IDX \<Rightarrow> Some instrJGTX
     | _ \<Rightarrow> None)"

lemmas instrJGT_defs = instrJGT_def instrJGTR_def instrJGTD_def instrJGTI_def instrJGTX_def

definition jgt_taken :: "MODE \<Rightarrow> vm \<Rightarrow> bool" where
  "jgt_taken m vm \<longleftrightarrow> \<not> flag_Z vm \<and> flag_N vm = flag_O vm"

interpretation jgt_ops: jump_family jgt_taken dispatchJGT
proof
  show "dispatchJGT m \<noteq> None \<longleftrightarrow> m \<in> jump_modes" for m
    by (cases m) (simp_all add: dispatchJGT_def jump_modes_def)
  show "h vm i = (if jgt_taken m vm then jump_by m vm i else Done (VM_OK, vm))"
    if "dispatchJGT m = Some h" for m h vm i
    using that by (cases m) (auto simp: dispatchJGT_def instrJGT_defs jump_by_def jgt_taken_def)
qed

end
