(* ===== verification/Allocator.thy ===== *)
theory Allocator
  imports Vm "HOL-Library.Multiset"
begin

text \<open>
  \<^verbatim>\<open>src/runtime/allocator.c\<close>: the first-fit allocator behind the MALLOC and FREE system
  calls. The chain of nodes is a list; a successful allocation splits a node, a release
  merges the released node with its successor when that one is free. The host's own
  \<open>malloc\<close> for the nodes is taken to succeed.
\<close>

section \<open>Operations\<close>

fun alloc_blocks :: "u64 \<Rightarrow> MemNode list \<Rightarrow> (u64 \<times> MemNode list) option" where
  "alloc_blocks sz [] = None"
| "alloc_blocks sz (node # ns) =
     (if blk_size node < sz \<or> \<not> blk_free node
      then map_option (\<lambda>(p, ns'). (p, node # ns')) (alloc_blocks sz ns)
      else Some (blk_begin node,
        node\<lparr>blk_size := sz, blk_free := False\<rparr> #
        \<lparr>blk_begin = blk_begin node + sz, blk_size = blk_size node - sz, blk_free = True\<rparr> # ns))"

definition vm_alloc :: "vm \<Rightarrow> u64 \<Rightarrow> VM_Error + u64 \<times> vm" where
  "vm_alloc vm sz =
     (case alloc_blocks sz (memblocks vm) of
        None \<Rightarrow> Inl VM_HEAP_OUT_OF_MEMORY
      | Some (addr, ns) \<Rightarrow> Inr (addr, vm\<lparr>memblocks := ns\<rparr>))"

fun coalesce :: "MemNode \<Rightarrow> MemNode list \<Rightarrow> MemNode list" where
  "coalesce node [] = [node]"
| "coalesce node (suiv # ns) =
     (if blk_free suiv then node\<lparr>blk_size := blk_size node + blk_size suiv\<rparr> # ns
      else node # suiv # ns)"

fun free_blocks :: "u64 \<Rightarrow> MemNode list \<Rightarrow> MemNode list option" where
  "free_blocks addr [] = None"
| "free_blocks addr (node # ns) =
     (if addr \<noteq> blk_begin node then map_option ((#) node) (free_blocks addr ns)
      else Some (coalesce (node\<lparr>blk_free := True\<rparr>) ns))"

definition vm_free :: "vm \<Rightarrow> u64 \<Rightarrow> VM_Error \<times> vm" where
  "vm_free vm addr =
     (if addr < HEAP_BASE \<or> addr \<ge> STACK_BASE then (VM_FREE_OUT_OF_THE_HEAP, vm)
      else case free_blocks addr (memblocks vm) of
        None \<Rightarrow> (VM_MEM_ALREADY_FREE, vm)
      | Some ns \<Rightarrow> (VM_OK, vm\<lparr>memblocks := ns\<rparr>))"

section \<open>The chain\<close>

lemma chain_append: "chain lo (xs @ ys) hi \<longleftrightarrow> (\<exists>mid. chain lo xs mid \<and> chain mid ys hi)"
  by (induction xs arbitrary: lo) auto

lemma chain_le: "chain lo ns hi \<Longrightarrow> lo \<le> hi"
  by (induction ns arbitrary: lo) force+

lemma chain_bounds:
  "chain lo ns hi \<Longrightarrow> m \<in> set ns \<Longrightarrow>
    lo \<le> unat (blk_begin m) \<and> unat (blk_begin m) + unat (blk_size m) \<le> hi"
  by (induction ns arbitrary: lo) (auto dest: chain_le, fastforce dest: chain_le)

lemma alloc_blocks_Some:
  assumes "alloc_blocks sz ns = Some (p, ns')"
  obtains pre n suf where "ns = pre @ n # suf" "p = blk_begin n" "sz \<le> blk_size n" "blk_free n"
    "ns' = pre @ n\<lparr>blk_size := sz, blk_free := False\<rparr> #
       \<lparr>blk_begin = blk_begin n + sz, blk_size = blk_size n - sz, blk_free = True\<rparr> # suf"
proof -
  have "\<exists>pre n suf. ns = pre @ n # suf \<and> p = blk_begin n \<and> sz \<le> blk_size n \<and> blk_free n \<and>
    ns' = pre @ n\<lparr>blk_size := sz, blk_free := False\<rparr> #
       \<lparr>blk_begin = blk_begin n + sz, blk_size = blk_size n - sz, blk_free = True\<rparr> # suf"
    using assms
  proof (induction ns arbitrary: ns')
    case (Cons m ns)
    show ?case
    proof (cases "blk_size m < sz \<or> \<not> blk_free m")
      case True
      with Cons.prems obtain ns1 where 1: "alloc_blocks sz ns = Some (p, ns1)" "ns' = m # ns1"
        by auto
      from Cons.IH [OF 1(1)] 1(2) show ?thesis by (metis append_Cons)
    next
      case False
      with Cons.prems show ?thesis by (intro exI [of _ "[]"]) auto
    qed
  qed simp
  with that show ?thesis by blast
qed

lemma alloc_blocks_None:
  "alloc_blocks sz ns = None \<longleftrightarrow> (\<forall>n \<in> set ns. blk_free n \<longrightarrow> blk_size n < sz)"
  by (induction ns) auto

lemma free_blocks_Some:
  assumes "free_blocks addr ns = Some ns'"
  obtains pre n suf where "ns = pre @ n # suf" "blk_begin n = addr"
    "\<forall>m \<in> set pre. blk_begin m \<noteq> addr" "ns' = pre @ coalesce (n\<lparr>blk_free := True\<rparr>) suf"
proof -
  have "\<exists>pre n suf. ns = pre @ n # suf \<and> blk_begin n = addr \<and>
    (\<forall>m \<in> set pre. blk_begin m \<noteq> addr) \<and> ns' = pre @ coalesce (n\<lparr>blk_free := True\<rparr>) suf"
    using assms
  proof (induction ns arbitrary: ns')
    case (Cons m ns)
    show ?case
    proof (cases "addr \<noteq> blk_begin m")
      case True
      with Cons.prems obtain ns1 where 1: "free_blocks addr ns = Some ns1" "ns' = m # ns1"
        by auto
      from Cons.IH [OF 1(1)] obtain pre n suf where
        "ns = pre @ n # suf" "blk_begin n = addr" "\<forall>k \<in> set pre. blk_begin k \<noteq> addr"
        "ns1 = pre @ coalesce (n\<lparr>blk_free := True\<rparr>) suf"
        by blast
      with 1(2) True show ?thesis by (intro exI [of _ "m # pre"]) auto
    next
      case False
      with Cons.prems show ?thesis by (intro exI [of _ "[]"]) auto
    qed
  qed simp
  with that show ?thesis by blast
qed

lemma free_blocks_None:
  "free_blocks addr ns = None \<longleftrightarrow> (\<forall>n \<in> set ns. blk_begin n \<noteq> addr)"
  by (induction ns) auto

lemma free_blocks_skip:
  "\<forall>m \<in> set pre. blk_begin m \<noteq> addr \<Longrightarrow>
    free_blocks addr (pre @ ns) = map_option ((@) pre) (free_blocks addr ns)"
  by (induction pre) (cases "free_blocks addr ns"; auto)+

lemma heap_ok_split:
  assumes "heap_ok (pre @ n # suf)"
  obtains lo where "chain 1280 pre lo" "unat (blk_begin n) = lo"
    "chain (lo + unat (blk_size n)) suf 1536" "1280 \<le> lo" "lo + unat (blk_size n) \<le> 1536"
  using assms by (auto simp: heap_ok_def chain_append dest: chain_le)

lemma alloc_blocks_heap_ok:
  assumes "heap_ok ns" "alloc_blocks sz ns = Some (p, ns')"
  shows "heap_ok ns'"
  using assms(2)
proof (rule alloc_blocks_Some)
  fix pre n suf
  assume 1: "ns = pre @ n # suf" "sz \<le> blk_size n"
    and ns': "ns' = pre @ n\<lparr>blk_size := sz, blk_free := False\<rparr> #
       \<lparr>blk_begin = blk_begin n + sz, blk_size = blk_size n - sz, blk_free = True\<rparr> # suf"
  from assms(1) 1 obtain lo where lo: "chain 1280 pre lo" "unat (blk_begin n) = lo"
    "chain (lo + unat (blk_size n)) suf 1536" "lo + unat (blk_size n) \<le> 1536"
    by (auto elim: heap_ok_split)
  have s: "unat sz \<le> unat (blk_size n)" using 1(2) by (simp add: word_le_nat_alt)
  with lo have "unat (blk_begin n + sz) = lo + unat sz" by (simp add: unat_word_ariths)
  moreover have "unat (blk_size n - sz) = unat (blk_size n) - unat sz"
    using 1(2) by (simp add: unat_sub)
  ultimately show "heap_ok ns'" using lo s by (auto simp: ns' heap_ok_def chain_append)
qed

lemma chain_coalesce:
  "chain lo (n # ns) hi \<Longrightarrow> hi < 2 ^ 64 \<Longrightarrow> chain lo (coalesce n ns) hi"
proof (cases ns)
  case (Cons m ms)
  assume "chain lo (n # ns) hi" "hi < 2 ^ 64"
  moreover from this Cons have "unat (blk_size n) + unat (blk_size m) < 2 ^ 64"
    by (auto dest: chain_le)
  ultimately show ?thesis using Cons by (auto simp: unat_word_ariths add.assoc)
qed simp

lemma free_blocks_heap_ok:
  assumes "heap_ok ns" "free_blocks addr ns = Some ns'"
  shows "heap_ok ns'"
  using assms(2)
proof (rule free_blocks_Some)
  fix pre n suf
  assume "ns = pre @ n # suf" and ns': "ns' = pre @ coalesce (n\<lparr>blk_free := True\<rparr>) suf"
  with assms(1) obtain lo where "chain 1280 pre lo" "chain lo (n # suf) 1536"
    by (auto elim: heap_ok_split)
  then have "chain 1280 pre lo" "chain lo (coalesce (n\<lparr>blk_free := True\<rparr>) suf) 1536"
    by (auto intro: chain_coalesce)
  moreover have "coalesce (n\<lparr>blk_free := True\<rparr>) suf \<noteq> []" by (cases suf) auto
  ultimately show "heap_ok ns'" by (auto simp: ns' heap_ok_def chain_append)
qed

section \<open>Abstract view: the blocks handed out\<close>

definition live :: "MemNode list \<Rightarrow> (nat \<times> nat) multiset" where
  "live ns = mset (map (\<lambda>n. (unat (blk_begin n), unat (blk_size n))) (filter (\<lambda>n. \<not> blk_free n) ns))"

lemma live_append: "live (xs @ ys) = live xs + live ys"
  by (simp add: live_def)

lemma live_Cons:
  "live (n # ns) = (if blk_free n then {#} else {#(unat (blk_begin n), unat (blk_size n))#}) + live ns"
  by (simp add: live_def)

lemma live_Nil [simp]: "live [] = {#}"
  by (simp add: live_def)

lemma live_coalesce: "live (coalesce (n\<lparr>blk_free := True\<rparr>) ns) = live ns"
  by (cases ns) (auto simp: live_Cons)

lemma in_live:
  "(b, k) \<in># live ns \<longleftrightarrow>
    (\<exists>n \<in> set ns. \<not> blk_free n \<and> b = unat (blk_begin n) \<and> k = unat (blk_size n))"
  by (auto simp: live_def)

lemma live_bounds:
  "heap_ok ns \<Longrightarrow> (b, k) \<in># live ns \<Longrightarrow> 1280 \<le> b \<and> b + k \<le> 1536"
  by (auto simp: in_live heap_ok_def dest: chain_bounds)

lemma alloc_blocks_fresh:
  assumes "heap_ok ns" "alloc_blocks sz ns = Some (p, ns')"
  shows "1280 \<le> unat p" "unat p + unat sz \<le> 1536"
    "(b, k) \<in># live ns \<Longrightarrow> b + k \<le> unat p \<or> unat p + unat sz \<le> b"
    "live ns' = add_mset (unat p, unat sz) (live ns)"
proof -
  obtain pre n suf where 1: "ns = pre @ n # suf" "p = blk_begin n" "sz \<le> blk_size n" "blk_free n"
    and ns': "ns' = pre @ n\<lparr>blk_size := sz, blk_free := False\<rparr> #
       \<lparr>blk_begin = blk_begin n + sz, blk_size = blk_size n - sz, blk_free = True\<rparr> # suf"
    using assms(2) by (rule alloc_blocks_Some)
  from assms(1) 1 obtain lo where lo: "chain 1280 pre lo" "unat p = lo"
    "chain (lo + unat (blk_size n)) suf 1536" "1280 \<le> lo" "lo + unat (blk_size n) \<le> 1536"
    by (auto elim: heap_ok_split)
  have s: "unat sz \<le> unat (blk_size n)" using 1(3) by (simp add: word_le_nat_alt)
  show "1280 \<le> unat p" "unat p + unat sz \<le> 1536" using lo s by auto
  show "live ns' = add_mset (unat p, unat sz) (live ns)"
    using 1 by (simp add: ns' live_append live_Cons)
  assume "(b, k) \<in># live ns"
  then have "(b, k) \<in># live pre \<or> (b, k) \<in># live suf"
    using 1 by (auto simp: live_append live_Cons)
  then show "b + k \<le> unat p \<or> unat p + unat sz \<le> b"
    using chain_bounds [OF lo(1)] chain_bounds [OF lo(3)] lo s by (fastforce simp: in_live)
qed

lemma free_blocks_live:
  assumes "free_blocks addr ns = Some ns'"
  shows "live ns' = live ns \<or>
    (\<exists>k. (unat addr, k) \<in># live ns \<and> live ns' = live ns - {#(unat addr, k)#})"
  using assms
proof (rule free_blocks_Some)
  fix pre n suf
  assume "ns = pre @ n # suf" "blk_begin n = addr"
    and "ns' = pre @ coalesce (n\<lparr>blk_free := True\<rparr>) suf"
  then show ?thesis by (auto simp: live_append live_Cons live_coalesce)
qed

text \<open>Blocks behind the first that begins at the address stay handed out.\<close>

lemma free_blocks_first:
  "m \<in> set pre \<Longrightarrow> blk_begin m = addr \<Longrightarrow> z \<in># live ns \<Longrightarrow>
    \<exists>ns'. free_blocks addr (pre @ ns) = Some ns' \<and> z \<in># live ns'"
proof (induction pre)
  case (Cons k pre)
  show ?case
  proof (cases "blk_begin k = addr")
    case True
    with Cons.prems(3) show ?thesis by (simp add: live_coalesce live_append)
  next
    case False
    with Cons show ?thesis by (auto simp: live_Cons)
  qed
qed simp

section \<open>The contract of an allocator\<close>

locale heap_allocator =
  fixes alloc :: "'s \<Rightarrow> u64 \<Rightarrow> VM_Error + u64 \<times> 's"
    and release :: "'s \<Rightarrow> u64 \<Rightarrow> VM_Error \<times> 's"
    and blocks :: "'s \<Rightarrow> (nat \<times> nat) multiset"
    and inv :: "'s \<Rightarrow> bool"
    and lo hi :: nat
  assumes alloc_inv: "inv s \<Longrightarrow> alloc s n = Inr (p, s') \<Longrightarrow> inv s'"
    and alloc_blocks: "inv s \<Longrightarrow> alloc s n = Inr (p, s') \<Longrightarrow>
      blocks s' = add_mset (unat p, unat n) (blocks s)"
    and alloc_fresh: "inv s \<Longrightarrow> alloc s n = Inr (p, s') \<Longrightarrow> (b, k) \<in># blocks s \<Longrightarrow>
      b + k \<le> unat p \<or> unat p + unat n \<le> b"
    and inv_bounds: "inv s \<Longrightarrow> (b, k) \<in># blocks s \<Longrightarrow> lo \<le> b \<and> b + k \<le> hi"
    and release_inv: "inv s \<Longrightarrow> release s p = (e, s') \<Longrightarrow> inv s'"
    and release_blocks: "inv s \<Longrightarrow> release s p = (e, s') \<Longrightarrow>
      blocks s' = blocks s \<or>
      (\<exists>k. (unat p, k) \<in># blocks s \<and> blocks s' = blocks s - {#(unat p, k)#})"
begin

text \<open>No two of the blocks handed out share a byte.\<close>

definition separated :: "(nat \<times> nat) multiset \<Rightarrow> bool" where
  "separated M \<longleftrightarrow> (\<forall>x \<in># M. \<forall>y \<in># M - {#x#}. fst x + snd x \<le> fst y \<or> fst y + snd y \<le> fst x)"

lemma separated_empty: "separated {#}"
  by (simp add: separated_def)

lemma separated_diff: "separated M \<Longrightarrow> separated (M - {#z#})"
  unfolding separated_def by (metis diff_right_commute in_diffD)

lemma separated_add:
  assumes "separated M" "\<And>b k. (b, k) \<in># M \<Longrightarrow> b + k \<le> p \<or> p + n \<le> b"
  shows "separated (add_mset (p, n) M)"
  unfolding separated_def
proof (intro ballI)
  fix x y
  assume x: "x \<in># add_mset (p, n) M" and y: "y \<in># add_mset (p, n) M - {#x#}"
  show "fst x + snd x \<le> fst y \<or> fst y + snd y \<le> fst x"
  proof (cases "x = (p, n)")
    case True
    with y have "(fst y, snd y) \<in># M" by simp
    from assms(2) [OF this] True show ?thesis by auto
  next
    case False
    with x have xM: "(fst x, snd x) \<in># M" by simp
    from False have "add_mset (p, n) M - {#x#} = add_mset (p, n) (M - {#x#})" by simp
    with y consider "y = (p, n)" | "y \<in># M - {#x#}" by auto
    then show ?thesis
    proof cases
      case 1
      with assms(2) [OF xM] show ?thesis by auto
    next
      case 2
      with assms(1) xM show ?thesis by (simp add: separated_def)
    qed
  qed
qed

lemma alloc_separated:
  "inv s \<Longrightarrow> separated (blocks s) \<Longrightarrow> alloc s n = Inr (p, s') \<Longrightarrow> separated (blocks s')"
  by (simp add: alloc_blocks, rule separated_add) (auto dest: alloc_fresh)

lemma release_separated:
  "inv s \<Longrightarrow> separated (blocks s) \<Longrightarrow> release s p = (e, s') \<Longrightarrow> separated (blocks s')"
  by (metis release_blocks separated_diff)

text \<open>A block stays handed out until a release of its own address.\<close>

lemma release_other:
  "inv s \<Longrightarrow> release s p = (e, s') \<Longrightarrow> (b, k) \<in># blocks s \<Longrightarrow> b \<noteq> unat p \<Longrightarrow> (b, k) \<in># blocks s'"
  by (drule release_blocks, assumption) (auto simp: in_diff_count)

text \<open>
  Any sequence of requests and releases, successful or not, from a state in which nothing
  is handed out.
\<close>

fun run :: "'s \<Rightarrow> (u64 + u64) list \<Rightarrow> 's" where
  "run s [] = s"
| "run s (Inl n # ops) = (case alloc s n of Inl e \<Rightarrow> run s ops | Inr (p, s') \<Rightarrow> run s' ops)"
| "run s (Inr p # ops) = run (snd (release s p)) ops"

lemma run_separated:
  "inv s \<Longrightarrow> separated (blocks s) \<Longrightarrow> inv (run s ops) \<and> separated (blocks (run s ops))"
proof (induction s ops rule: run.induct)
  case (2 s n ops)
  show ?case
  proof (cases "alloc s n")
    case (Inr r)
    then obtain p s' where r: "alloc s n = Inr (p, s')" by (cases r) simp
    with 2 have "inv s'" "separated (blocks s')" by (blast intro: alloc_inv alloc_separated)+
    with 2 r show ?thesis by simp
  qed (use 2 in simp)
next
  case (3 s p ops)
  then show ?case by (metis run.simps(3) prod.collapse release_inv release_separated)
qed simp

end

definition wf_heap :: "vm \<Rightarrow> bool" where
  "wf_heap vm \<longleftrightarrow> heap_ok (memblocks vm)"

definition live_blocks :: "vm \<Rightarrow> (nat \<times> nat) multiset" where
  "live_blocks vm = live (memblocks vm)"

lemma vm_alloc_Inr:
  "vm_alloc vm n = Inr (p, vm') \<longleftrightarrow>
    (\<exists>ns. alloc_blocks n (memblocks vm) = Some (p, ns) \<and> vm' = vm\<lparr>memblocks := ns\<rparr>)"
  by (auto simp: vm_alloc_def split: option.splits)

lemma vm_free_cases:
  "vm_free vm p = (e, vm') \<Longrightarrow> vm' = vm \<or>
    (\<exists>ns. e = VM_OK \<and> free_blocks p (memblocks vm) = Some ns \<and> vm' = vm\<lparr>memblocks := ns\<rparr>)"
  by (auto simp: vm_free_def split: option.splits if_splits)

interpretation heap: heap_allocator vm_alloc vm_free live_blocks wf_heap 1280 1536
proof
  show "wf_heap s'" if "wf_heap s" "vm_alloc s n = Inr (p, s')" for s n p s'
    using that by (auto simp: vm_alloc_Inr wf_heap_def intro: alloc_blocks_heap_ok)
  show "live_blocks s' = add_mset (unat p, unat n) (live_blocks s)"
    if "wf_heap s" "vm_alloc s n = Inr (p, s')" for s n p s'
    using that by (auto simp: vm_alloc_Inr wf_heap_def live_blocks_def intro: alloc_blocks_fresh(4))
  show "b + k \<le> unat p \<or> unat p + unat n \<le> b"
    if "wf_heap s" "vm_alloc s n = Inr (p, s')" "(b, k) \<in># live_blocks s" for s n p s' b k
    using that by (auto simp: vm_alloc_Inr wf_heap_def live_blocks_def dest: alloc_blocks_fresh(3))
  show "1280 \<le> b \<and> b + k \<le> 1536" if "wf_heap s" "(b, k) \<in># live_blocks s" for s b k
    using that by (auto simp: wf_heap_def live_blocks_def dest: live_bounds)
  show "wf_heap s'" if "wf_heap s" "vm_free s p = (e, s')" for s p e s'
    using that by (auto simp: wf_heap_def dest!: vm_free_cases intro: free_blocks_heap_ok)
  show "live_blocks s' = live_blocks s \<or>
      (\<exists>k. (unat p, k) \<in># live_blocks s \<and> live_blocks s' = live_blocks s - {#(unat p, k)#})"
    if "wf_heap s" "vm_free s p = (e, s')" for s p e s'
    using vm_free_cases [OF that(2)]
  proof
    assume "\<exists>ns. e = VM_OK \<and> free_blocks p (memblocks s) = Some ns \<and> s' = s\<lparr>memblocks := ns\<rparr>"
    then obtain ns where "free_blocks p (memblocks s) = Some ns" "s' = s\<lparr>memblocks := ns\<rparr>" by blast
    with free_blocks_live [of p "memblocks s" ns] show ?thesis by (simp add: live_blocks_def)
  qed simp
qed

lemma wf_vm_alloc: "wf_vm vm \<Longrightarrow> vm_alloc vm n = Inr (p, vm') \<Longrightarrow> wf_vm vm'"
  by (auto simp: vm_alloc_Inr wf_vm_def intro: alloc_blocks_heap_ok)

lemma wf_vm_free: "wf_vm vm \<Longrightarrow> vm_free vm p = (e, vm') \<Longrightarrow> wf_vm vm'"
  by (auto simp: wf_vm_def dest!: vm_free_cases intro: free_blocks_heap_ok)

section \<open>Properties\<close>

lemma MemNode_restore:
  "blk_free b \<Longrightarrow> b\<lparr>blk_size := blk_size b, blk_free := True\<rparr> = b"
  by (cases b) simp

text \<open>A machine with the initial heap, for evaluation.\<close>

lemma memblocks_initVM [simp]: "memblocks (initVM vm) = init_blocks"
  by (simp add: initVM_def)

lemmas heap_eval = vm_alloc_def vm_free_def init_blocks_def memory_map live_blocks_def live_Cons

text \<open>
  C26: a successful request returns a region of the requested size inside the heap segment
  that overlaps no block handed out before, and hands out exactly that region.
\<close>

theorem vm_alloc_fresh:
  assumes "wf_vm vm" "vm_alloc vm n = Inr (p, vm')"
  shows "1280 \<le> unat p \<and> unat p + unat n \<le> 1536 \<and>
    (\<forall>(b, k) \<in># live_blocks vm. b + k \<le> unat p \<or> unat p + unat n \<le> b) \<and>
    live_blocks vm' = add_mset (unat p, unat n) (live_blocks vm) \<and> wf_vm vm'"
proof -
  have h: "wf_heap vm" using assms(1) by (simp add: wf_heap_def wf_vm_def)
  note b = heap.alloc_blocks [OF h assms(2)]
  have "1280 \<le> unat p \<and> unat p + unat n \<le> 1536"
    using heap.inv_bounds [OF heap.alloc_inv [OF h assms(2)], of "unat p" "unat n"] b by simp
  with b heap.alloc_fresh [OF h assms(2)] wf_vm_alloc [OF assms] show ?thesis by auto
qed

theorem vm_alloc_fresh_witness:
  "\<exists>vm'. vm_alloc (initVM raw_vm) 16 = Inr (1280, vm') \<and> live_blocks vm' = {#(1280, 16)#}"
proof -
  have "\<exists>vm'. vm_alloc (initVM raw_vm) 16 = Inr (1280, vm')" "live_blocks (initVM raw_vm) = {#}"
    by (simp_all add: heap_eval)
  then show ?thesis using vm_alloc_fresh [OF wf_initVM, of raw_vm 16 1280] by auto
qed

text \<open>
  a request is refused exactly when no free block is large enough; \<open>vm_alloc\<close> then
  reports \<open>VM_HEAP_OUT_OF_MEMORY\<close>.
\<close>

theorem vm_alloc_refused_iff:
  "vm_alloc vm n = Inl e \<longleftrightarrow>
    e = VM_HEAP_OUT_OF_MEMORY \<and> (\<forall>b \<in> set (memblocks vm). \<not> (blk_free b \<and> n \<le> blk_size b))"
  by (auto simp: vm_alloc_def not_le alloc_blocks_None [symmetric] split: option.splits)

theorem vm_alloc_refused_iff_witness:
  "vm_alloc (initVM raw_vm) 257 = Inl VM_HEAP_OUT_OF_MEMORY"
  by (rule vm_alloc_refused_iff [THEN iffD2]) (simp add: heap_eval)

text \<open>
  C27: a block released right after its allocation. If no empty block of the chain begins at the
  address the allocation returned, the release restores the chain of blocks, whatever the size:
  the remainder split off is merged back. If an empty block begins there, as requests for 0 bytes and
  exact fits leave them, the release reports \<open>VM_OK\<close> but finds that block, and the new one stays
  handed out.
\<close>

theorem vm_alloc_vm_free:
  assumes "wf_vm vm" "vm_alloc vm n = Inr (p, vm')"
  shows "if \<forall>b \<in> set (memblocks vm). blk_begin b = p \<longrightarrow> blk_size b \<noteq> 0
    then vm_free vm' p = (VM_OK, vm)
    else n = 0 \<or> (\<exists>vm''. vm_free vm' p = (VM_OK, vm'') \<and> (unat p, unat n) \<in># live_blocks vm'')"
proof -
  obtain ns where a: "alloc_blocks n (memblocks vm) = Some (p, ns)" "vm' = vm\<lparr>memblocks := ns\<rparr>"
    using assms(2) by (auto simp: vm_alloc_Inr)
  obtain pre b suf where b: "memblocks vm = pre @ b # suf" "p = blk_begin b" "n \<le> blk_size b"
    "blk_free b" and ns: "ns = pre @ b\<lparr>blk_size := n, blk_free := False\<rparr> #
       \<lparr>blk_begin = blk_begin b + n, blk_size = blk_size b - n, blk_free = True\<rparr> # suf"
    using a(1) by (rule alloc_blocks_Some)
  have h: "heap_ok (pre @ b # suf)" using assms(1) b(1) by (simp add: wf_vm_def)
  then obtain lo where lo: "chain 1280 pre lo" "unat p = lo" "chain (lo + unat (blk_size b)) suf 1536"
    "1280 \<le> lo" "lo + unat (blk_size b) \<le> 1536"
    by (rule heap_ok_split) (use b(2) in simp)
  have free: "vm_free vm' p = (VM_OK, vm\<lparr>memblocks := ns'\<rparr>)"
    if "blk_size b \<noteq> 0" "free_blocks p ns = Some ns'" for ns'
    using that lo by (simp add: vm_free_def a(2) memory_map word_less_nat_alt word_le_nat_alt unat_gt_0 [symmetric])
  show ?thesis
  proof (cases "\<forall>b \<in> set (memblocks vm). blk_begin b = p \<longrightarrow> blk_size b \<noteq> 0")
    case True
    have "blk_begin m \<noteq> p" if "m \<in> set pre" for m
      using chain_bounds [OF lo(1) that] lo(2) True b(1) that by (auto simp: unat_eq_0)
    then have "free_blocks p ns = Some (pre @ b # suf)"
      using MemNode_restore [OF b(4)] b(2) by (simp add: ns free_blocks_skip)
    with free True b(1,2) have "vm_free vm' p = (VM_OK, vm)" by simp
    with True show ?thesis by simp
  next
    case False
    then obtain m where m: "m \<in> set (memblocks vm)" "blk_begin m = p" "blk_size m = 0" by auto
    have "n = 0 \<or> (\<exists>vm''. vm_free vm' p = (VM_OK, vm'') \<and> (unat p, unat n) \<in># live_blocks vm'')"
    proof (cases "n = 0")
      case n: False
      then have sz: "blk_size b \<noteq> 0" using b(3) by auto
      have "m \<notin> set suf" using chain_bounds [OF lo(3), of m] lo(2) m(2) sz by (auto simp: unat_eq_0)
      with m b(1) sz have "m \<in> set pre" by auto
      moreover have "(unat p, unat n) \<in># live (b\<lparr>blk_size := n, blk_free := False\<rparr> #
          \<lparr>blk_begin = blk_begin b + n, blk_size = blk_size b - n, blk_free = True\<rparr> # suf)"
        using b(2) by (simp add: live_Cons)
      ultimately obtain ns' where "free_blocks p ns = Some ns'" "(unat p, unat n) \<in># live ns'"
        using free_blocks_first [of m pre p] m(2) ns by metis
      with free [OF sz] show ?thesis by (simp add: live_blocks_def)
    qed simp
    then show ?thesis unfolding if_not_P [OF False] .
  qed
qed

theorem vm_alloc_vm_free_witness:
  "(\<exists>vm'. vm_alloc (initVM raw_vm) 16 = Inr (1280, vm') \<and> vm_free vm' 1280 = (VM_OK, initVM raw_vm)) \<and>
   (\<exists>v1 v2 v3. vm_alloc (initVM raw_vm) 0 = Inr (1280, v1) \<and> vm_alloc v1 16 = Inr (1280, v2) \<and>
     vm_free v2 1280 = (VM_OK, v3) \<and> (1280, 16) \<in># live_blocks v3)"
proof
  obtain vm' where a: "vm_alloc (initVM raw_vm) 16 = Inr (1280, vm')" by (simp add: heap_eval)
  have "vm_free vm' 1280 = (VM_OK, initVM raw_vm)"
    using vm_alloc_vm_free [OF wf_initVM a] by (simp add: init_blocks_def memory_map)
  with a show "\<exists>vm'. vm_alloc (initVM raw_vm) 16 = Inr (1280, vm') \<and> vm_free vm' 1280 = (VM_OK, initVM raw_vm)"
    by blast
  obtain v1 where 1: "vm_alloc (initVM raw_vm) 0 = Inr (1280, v1)" "blk_size (hd (memblocks v1)) = 0"
    "blk_begin (hd (memblocks v1)) = 1280" "memblocks v1 \<noteq> []" "\<exists>v2. vm_alloc v1 16 = Inr (1280, v2)"
    by (simp add: heap_eval)
  then obtain v2 where 2: "vm_alloc v1 16 = Inr (1280, v2)" by blast
  have "\<not> (\<forall>b \<in> set (memblocks v1). blk_begin b = 1280 \<longrightarrow> blk_size b \<noteq> 0)"
    using 1(2-4) by (metis hd_in_set)
  with vm_alloc_vm_free [OF wf_vm_alloc [OF wf_initVM 1(1)] 2]
  have "\<exists>v3. vm_free v2 1280 = (VM_OK, v3) \<and> (1280, 16) \<in># live_blocks v3" by (simp split: if_splits)
  with 1(1) 2 show "\<exists>v1 v2 v3. vm_alloc (initVM raw_vm) 0 = Inr (1280, v1) \<and> vm_alloc v1 16 = Inr (1280, v2) \<and>
     vm_free v2 1280 = (VM_OK, v3) \<and> (1280, 16) \<in># live_blocks v3" by blast
qed

text \<open>
  a block can be lost. After two 16-byte allocations, the release of the first and its
  exact re-use, the empty remainder left at 1296 hides the second block: its release
  reports \<open>VM_OK\<close> and leaves it handed out.
\<close>

theorem vm_free_hidden_block:
  "\<exists>v1 v2 v3 v4. vm_alloc (initVM vm) 16 = Inr (1280, v1) \<and> vm_alloc v1 16 = Inr (1296, v2) \<and>
    vm_free v2 1280 = (VM_OK, v3) \<and> vm_alloc v3 16 = Inr (1280, v4) \<and>
    vm_free v4 1296 = (VM_OK, v4) \<and> live_blocks v4 = {#(1280, 16), (1296, 16)#}"
  by (simp add: heap_eval)

text \<open>
  C28: a release is classified by its address. Outside the heap segment, or where no block of the
  chain begins, it is refused and changes nothing. Otherwise it frees the first block that begins
  there. If the next block is free the two become one block of the sum of their sizes, else the
  next block stays as it is; the blocks before and behind are unchanged. The live blocks lose that
  block, if it was one of them, and no other.
\<close>

theorem vm_free_classified:
  "(unat p < 1280 \<or> 1536 \<le> unat p \<longrightarrow> vm_free vm p = (VM_FREE_OUT_OF_THE_HEAP, vm)) \<and>
   (1280 \<le> unat p \<and> unat p < 1536 \<and> (\<forall>b \<in> set (memblocks vm). blk_begin b \<noteq> p) \<longrightarrow>
     vm_free vm p = (VM_MEM_ALREADY_FREE, vm)) \<and>
   (1280 \<le> unat p \<and> unat p < 1536 \<and> memblocks vm = pre @ b # suf \<and> blk_begin b = p \<and>
      (\<forall>m \<in> set pre. blk_begin m \<noteq> p) \<longrightarrow>
     (\<exists>vm'. vm_free vm p = (VM_OK, vm') \<and> vm' = vm\<lparr>memblocks := memblocks vm'\<rparr> \<and>
       (\<forall>c rest. suf = c # rest \<and> blk_free c \<longrightarrow>
         memblocks vm' = pre @ \<lparr>blk_begin = p, blk_size = blk_size b + blk_size c, blk_free = True\<rparr> # rest) \<and>
       (suf = [] \<or> \<not> blk_free (hd suf) \<longrightarrow>
         memblocks vm' = pre @ \<lparr>blk_begin = p, blk_size = blk_size b, blk_free = True\<rparr> # suf) \<and>
       live_blocks vm' = live_blocks vm - (if blk_free b then {#} else {#(unat p, unat (blk_size b))#})))"
proof (intro conjI impI, goal_cases)
  case 1
  then show ?case by (simp add: vm_free_def memory_map word_less_nat_alt word_le_nat_alt)
next
  case 2
  then show ?case
    by (simp add: vm_free_def memory_map word_less_nat_alt word_le_nat_alt free_blocks_None [symmetric])
next
  case 3
  let ?ns = "pre @ coalesce (b\<lparr>blk_free := True\<rparr>) suf"
  have "vm_free vm p = (VM_OK, vm\<lparr>memblocks := ?ns\<rparr>)"
    using 3 by (simp add: vm_free_def memory_map word_less_nat_alt word_le_nat_alt free_blocks_skip)
  moreover have "live ?ns = live (memblocks vm) - (if blk_free b then {#} else {#(unat p, unat (blk_size b))#})"
    using 3 by (simp add: live_append live_Cons live_coalesce)
  moreover have "b\<lparr>blk_free := True\<rparr> = \<lparr>blk_begin = p, blk_size = blk_size b, blk_free = True\<rparr>"
    using 3 by (cases b) simp
  ultimately show ?case by (cases suf) (auto simp: live_blocks_def)
qed

theorem vm_free_classified_witness:
  "\<exists>v1 v2 v3. vm_alloc (initVM raw_vm) 16 = Inr (1280, v1) \<and> vm_alloc v1 32 = Inr (1296, v2) \<and>
    vm_free v2 1296 = (VM_OK, v3) \<and>
    memblocks v3 = [\<lparr>blk_begin = 1280, blk_size = 16, blk_free = False\<rparr>,
      \<lparr>blk_begin = 1296, blk_size = 240, blk_free = True\<rparr>] \<and> live_blocks v3 = {#(1280, 16)#}"
proof -
  let ?b = "\<lambda>p n f. \<lparr>blk_begin = p, blk_size = n, blk_free = f\<rparr>"
  let ?v2 = "initVM raw_vm\<lparr>memblocks := [?b 1280 16 False, ?b 1296 32 False, ?b 1328 208 True]\<rparr>"
  have 1: "\<exists>v1. vm_alloc (initVM raw_vm) 16 = Inr (1280, v1) \<and> vm_alloc v1 32 = Inr (1296, ?v2)"
    by (simp add: heap_eval)
  have "\<exists>v3. vm_free ?v2 1296 = (VM_OK, v3) \<and> memblocks v3 = [?b 1280 16 False, ?b 1296 240 True] \<and>
      live_blocks v3 = {#(1280, 16)#}"
    using vm_free_classified [of 1296 ?v2 "[?b 1280 16 False]" "?b 1296 32 False" "[?b 1328 208 True]"]
    by (auto simp: live_blocks_def live_Cons)
  with 1 show ?thesis by blast
qed

end
