(* ===== verification/Syscall.thy ===== *)
theory Syscall
  imports Jump Allocator
begin

text \<open>
  The system calls of \<^verbatim>\<open>src/runtime/instructions.c\<close> behind TRAP. What the C library and the
  kernel answer is a parameter: \<open>os\<close> maps the history of calls, the present one last, to
  its reply. So is what a C stack variable holds before it is first assigned.
\<close>

unbundle bit_operations_syntax

section \<open>Environment\<close>

text \<open>
  \<open>ret\<close> is the value returned, as converted to the 64-bit register; \<open>bytes\<close> what \<open>read\<close>
  or \<open>fgets\<close> delivers; \<open>success\<close> whether \<open>scanf\<close> matched one number or \<open>fgets\<close>
  returned its buffer.
\<close>

record reply =
  ret :: u64
  bytes :: "u8 list"
  success :: bool

record env =
  os :: "io_event list \<Rightarrow> reply"
  junk_ptr :: u64
  junk_instr :: instruction

text \<open>An environment for concrete runs: every call answers 0 and no bytes.\<close>

definition idle_env :: env where
  "idle_env = \<lparr>os = (\<lambda>_. \<lparr>ret = 0, bytes = [], success = True\<rparr>), junk_ptr = 0,
     junk_instr = \<lparr>opcode = OP_ADD, mode = MODE_NONE, ins_a = 0, ins_b = 0, args = 0\<rparr>\<rparr>"

type_synonym syscall = "env \<Rightarrow> vm \<Rightarrow> result"

definition calling :: "env \<Rightarrow> io_event \<Rightarrow> vm \<Rightarrow> (reply \<Rightarrow> vm \<Rightarrow> 'a outcome) \<Rightarrow> 'a outcome" where
  "calling env ev vm k = (let vm = vm\<lparr>trace := trace vm @ [ev]\<rparr> in k (os env (trace vm)) vm)"

section \<open>Idioms of the system calls\<close>

text \<open>\<open>struct Instruction pop = {.opcode=OP_POP, .mode=MODE_REGU, .a=0}\<close>\<close>

definition pop_instr :: instruction where
  "pop_instr = \<lparr>opcode = OP_POP, mode = MODE_REGU, ins_a = 0, ins_b = 0, args = 0\<rparr>"

text \<open>\<open>status = instrPOP(vm, &pop); if (status != VM_OK) return status;\<close>\<close>

definition popping :: "vm \<Rightarrow> (vm \<Rightarrow> result) \<Rightarrow> result" where
  "popping vm k =
     obind (instrPOP vm pop_instr) (\<lambda>(status, vm). if status \<noteq> VM_OK then Done (status, vm) else k vm)"

text \<open>The pointer \<open>vm->memory + addr\<close> must point into the array or just past it.\<close>

definition mem_ptr :: "vm \<Rightarrow> u64 \<Rightarrow> 'a outcome \<Rightarrow> 'a outcome" where
  "mem_ptr vm addr x = (if unat addr \<le> length (memory vm) then x else Undefined)"

text \<open>The C string at an address: the bytes up to the first NUL, which must lie in the memory.\<close>

definition c_string :: "u8 list \<Rightarrow> u64 \<Rightarrow> u8 list outcome" where
  "c_string mem addr =
     (let s = drop (unat addr) mem
      in if 0 \<in> set s then Done (takeWhile (\<lambda>x. x \<noteq> 0) s) else Undefined)"

section \<open>The calls\<close>

definition syscallEXIT :: syscall where
  "syscallEXIT env vm = popping vm (\<lambda>vm. Done (VM_OK, vm\<lparr>running := False\<rparr>))"

definition syscallWRITE_FILE :: syscall where
  "syscallWRITE_FILE env vm =
     popping vm (\<lambda>vm. let fd = ucast (reg vm 0)
       in popping vm (\<lambda>vm. let addr = reg vm 0
       in popping vm (\<lambda>vm. let sz = reg vm 0
       in mem_ptr vm addr (obind (load_bytes (memory vm) addr (unat sz)) (\<lambda>bs.
         calling env (Write fd bs) vm (\<lambda>r vm. Done (VM_OK, set_reg 0 (ret r) vm)))))))"

definition syscallREAD_FILE :: syscall where
  "syscallREAD_FILE env vm =
     popping vm (\<lambda>vm. let fd = ucast (reg vm 0)
       in popping vm (\<lambda>vm. let addr = reg vm 0
       in if addr < HEAP_BASE \<or> addr \<ge> STACK_BASE then Done (VM_OUT_OF_THE_HEAP, vm)
       else popping vm (\<lambda>vm. let sz = reg vm 0
       in calling env (Read fd sz) vm (\<lambda>r vm.
         obind (store_bytes (memory vm) addr (bytes r)) (\<lambda>m.
           Done (VM_OK, set_reg 0 (ret r) (vm\<lparr>memory := m\<rparr>)))))))"

definition syscallOPEN_FILE :: syscall where
  "syscallOPEN_FILE env vm =
     popping vm (\<lambda>vm. obind (c_string (memory vm) (reg vm 0)) (\<lambda>filename.
       calling env (Open filename) vm (\<lambda>r vm. Done (VM_OK, set_reg 0 (ret r) vm))))"

definition syscallCLOSE_FILE :: syscall where
  "syscallCLOSE_FILE env vm =
     popping vm (\<lambda>vm. let fd = ucast (reg vm 0)
       in calling env (Close fd) vm (\<lambda>r vm. Done (VM_OK, set_reg 0 (ret r) vm)))"

definition syscallPRINT_INT :: syscall where
  "syscallPRINT_INT env vm =
     popping vm (\<lambda>vm. let value = reg vm 0
       in calling env (Print_int value) vm (\<lambda>r vm. Done (VM_OK, set_reg 0 0 vm)))"

definition syscallPRINT_STR :: syscall where
  "syscallPRINT_STR env vm =
     popping vm (\<lambda>vm. let addr = reg vm 0
       in obind (c_string (memory vm) addr) (\<lambda>s.
         calling env (Print_str s) vm (\<lambda>r vm. Done (VM_OK, set_reg 0 0 vm))))"

definition syscallREAD_INT :: syscall where
  "syscallREAD_INT env vm =
     calling env Scan_int vm (\<lambda>r vm. Done (VM_OK, set_reg 0 (if success r then ret r else - 1) vm))"

definition syscallREAD_STR :: syscall where
  "syscallREAD_STR env vm =
     popping vm (\<lambda>vm. let addr = reg vm 0
       in popping vm (\<lambda>vm. let sz = reg vm 0
       in if addr < HEAP_BASE \<or> addr + sz \<ge> STACK_BASE then Done (VM_OUT_OF_THE_HEAP, vm)
       else mem_ptr vm addr (calling env (Fgets (ucast sz)) vm (\<lambda>r vm.
         if success r
         then obind (store_bytes (memory vm) addr (bytes r @ [0])) (\<lambda>m.
           Done (VM_OK, set_reg 0 0 (vm\<lparr>memory := m\<rparr>)))
         else Done (VM_OK, set_reg 0 (- 1) vm)))))"

text \<open>After a refused allocation the register takes the indeterminate value of \<open>ptr\<close>.\<close>

definition syscallMALLOC :: syscall where
  "syscallMALLOC env vm =
     popping vm (\<lambda>vm. let sz = reg vm 0
       in case vm_alloc vm sz of
            Inl status \<Rightarrow> Done (status, set_reg 0 (junk_ptr env) vm)
          | Inr (ptr, vm) \<Rightarrow> Done (VM_OK, set_reg 0 ptr vm))"

definition syscallFREE :: syscall where
  "syscallFREE env vm = popping vm (\<lambda>vm. let ptr = reg vm 0 in Done (vm_free vm ptr))"

definition syscallMEMSET :: syscall where
  "syscallMEMSET env vm =
     popping vm (\<lambda>vm. let ptr = reg vm 0
       in popping vm (\<lambda>vm. let value = ucast (reg vm 0)
       in popping vm (\<lambda>vm. let sz = reg vm 0
       in if ptr < HEAP_BASE \<or> ptr + sz \<ge> MEM_SIZE then Done (VM_ILL_MEM_ACCESS, vm)
       else if unat ptr + unat sz \<le> length (memory vm)
       then let vm = vm\<lparr>memory := overlay (unat ptr) (replicate (unat sz) value) (memory vm)\<rparr>
         in Done (VM_OK, set_reg 0 0 vm)
       else Undefined)))"

text \<open>\<open>memcpy\<close> is called without a bounds check; overlapping regions are undefined too.\<close>

definition syscallMEMCPY :: syscall where
  "syscallMEMCPY env vm =
     popping vm (\<lambda>vm. let ptr_a = reg vm 0
       in popping vm (\<lambda>vm. let ptr_b = reg vm 0
       in popping vm (\<lambda>vm. let sz = reg vm 0; a = unat ptr_a; b = unat ptr_b; n = unat sz
       in if a + n \<le> length (memory vm) \<and> b + n \<le> length (memory vm) \<and> (a + n \<le> b \<or> b + n \<le> a \<or> n = 0)
       then let vm = vm\<lparr>memory := overlay a (take n (drop b (memory vm))) (memory vm)\<rparr>
         in Done (VM_OK, set_reg 0 0 vm)
       else Undefined)))"

definition syscallDUMP_REGS :: syscall where
  "syscallDUMP_REGS env vm = calling env (Dump_regs (registers vm)) vm (\<lambda>r vm. Done (VM_OK, vm))"

definition syscallDUMP_STACK :: syscall where
  "syscallDUMP_STACK env vm =
     obind (load_bytes (memory vm) STACK_BASE (unat (MEM_SIZE - STACK_BASE))) (\<lambda>bs.
       calling env (Dump_bytes STACK_BASE bs) vm (\<lambda>r vm. Done (VM_OK, vm)))"

definition syscallDUMP_MEM :: syscall where
  "syscallDUMP_MEM env vm =
     popping vm (\<lambda>vm. let ptr = reg vm 0
       in popping vm (\<lambda>vm. let sz = reg vm 0
       in if ptr + sz > MEM_SIZE then Done (VM_ILL_MEM_ACCESS, vm)
       else obind (load_bytes (memory vm) ptr (unat sz)) (\<lambda>bs.
         calling env (Dump_bytes ptr bs) vm (\<lambda>r vm. Done (VM_OK, vm)))))"

text \<open>The table has 32 entries; those not listed are NULL.\<close>

definition dispatchSyscalls :: "int \<Rightarrow> syscall option" where
  "dispatchSyscalls n =
     (if n = 0 then Some syscallWRITE_FILE else if n = 1 then Some syscallREAD_FILE
      else if n = 3 then Some syscallOPEN_FILE else if n = 4 then Some syscallCLOSE_FILE
      else if n = 5 then Some syscallPRINT_INT else if n = 6 then Some syscallPRINT_STR
      else if n = 7 then Some syscallREAD_INT else if n = 8 then Some syscallREAD_STR
      else if n = 9 then Some syscallEXIT else if n = 10 then Some syscallMALLOC
      else if n = 11 then Some syscallFREE else if n = 12 then Some syscallMEMSET
      else if n = 13 then Some syscallMEMCPY else if n = 14 then Some syscallDUMP_REGS
      else if n = 15 then Some syscallDUMP_STACK else if n = 16 then Some syscallDUMP_MEM
      else None)"

text \<open>TRAP: the identifier is register 0 cut to 32 bits, and indexes the table unchecked.\<close>

definition instrTRAP :: "env \<Rightarrow> handler" where
  "instrTRAP env vm instr =
     (let syscall_id = sint (ucast (reg vm 0) :: u32)
      in if syscall_id < 0 \<or> 32 \<le> syscall_id then Undefined
      else case dispatchSyscalls syscall_id of
          None \<Rightarrow> Done (VM_UNKNOWN_SYSCALL, vm)
        | Some h \<Rightarrow> h env vm)"

definition dispatchTRAP :: "env \<Rightarrow> MODE \<Rightarrow> handler option" where
  "dispatchTRAP env m = (case m of MODE_NONE \<Rightarrow> Some (instrTRAP env) | _ \<Rightarrow> None)"

section \<open>What each operation keeps\<close>

text \<open>
  \<open>keeps vm vm'\<close>: the invariant holds afterwards and the code segment is untouched.
\<close>

definition code :: "vm \<Rightarrow> u8 list" where
  "code vm = take 1024 (memory vm)"

definition keeps :: "vm \<Rightarrow> VM_Error \<times> vm \<Rightarrow> bool" where
  "keeps vm r \<longleftrightarrow> wf_vm (snd r) \<and> code (snd r) = code vm"

lemma keeps_pair [simp]: "keeps vm (st, vm') \<longleftrightarrow> wf_vm vm' \<and> code vm' = code vm"
  by (simp add: keeps_def)

lemma code_updates [simp]:
  "code (vm\<lparr>pc := p\<rparr>) = code vm" "code (vm\<lparr>sp := s\<rparr>) = code vm" "code (vm\<lparr>sr := f\<rparr>) = code vm"
  "code (vm\<lparr>running := b\<rparr>) = code vm" "code (vm\<lparr>trace := t\<rparr>) = code vm"
  "code (vm\<lparr>registers := rs\<rparr>) = code vm" "code (vm\<lparr>memblocks := ns\<rparr>) = code vm"
  by (simp_all add: code_def)

lemma code_overlay:
  "1024 \<le> i \<Longrightarrow> i + length bs \<le> length (memory vm) \<Longrightarrow>
    code (vm\<lparr>memory := overlay i bs (memory vm)\<rparr>) = code vm"
  by (simp add: code_def take_overlay_below)

lemma wf_sp: "wf_vm vm \<Longrightarrow> sp_ok s \<Longrightarrow> wf_vm (vm\<lparr>sp := s\<rparr>)"
  by (simp add: wf_vm_def)

lemma touches_keeps: "wf_vm vm \<Longrightarrow> touches r vm vm' \<Longrightarrow> keeps vm (st, vm')"
  by (simp add: touchesD code_def)

lemma memWrite64_keeps:
  assumes "wf_vm vm" "DATA_BASE \<le> addr" "memWrite64 vm addr v = Done (st, vm')"
  shows "keeps vm (st, vm') \<and> (\<exists>m. vm' = vm\<lparr>memory := m\<rparr>)"
proof -
  have "1024 \<le> unat addr" using assms(2) by (simp add: DATA_BASE_def word_le_nat_alt)
  then show ?thesis
    using memWrite64_Done [OF assms(3) wf_vmD(2) [OF assms(1)]] assms(1)
    by (auto simp: in_ram_def wf_overlay wf_vmD code_overlay intro: exI [of _ "memory vm"])
qed

lemma post_memWrite64_keeps:
  assumes "wf_vm vm" "DATA_BASE \<le> addr" "code vm = code vm0"
  shows "post (keeps vm0) (memWrite64 vm addr v)"
  using memWrite64_keeps [OF assms(1,2)] assms(3) by (auto simp: post_iff)

lemma post_reading64_keeps:
  assumes "wf_vm vm" "\<And>v. post (keeps vm) (k v)"
  shows "post (keeps vm) (reading64 vm addr k)"
  by (rule post_reading64) (use assms in auto)

lemma keeps_ST:
  assumes "wf_vm vm" "dispatchST m = Some h"
  shows "post (keeps vm) (h vm i)"
  using assms by (cases m)
    (auto simp: dispatchST_def instrSTD_def instrSTI_def instrSTX_def Let_def not_less
      intro!: post_memWrite64_keeps)

lemma keeps_swap_cell:
  assumes "wf_vm vm" "DATA_BASE \<le> addr"
  shows "post (keeps vm) (swap_cell vm r addr)"
  unfolding swap_cell_def
proof (rule post_reading64_keeps [OF assms(1)], rule post_obind)
  fix tmp
  show "post (\<lambda>x. post (keeps vm) (case x of (status, vm) \<Rightarrow>
      Done (status, if status = VM_OK then set_reg r tmp vm else vm))) (memWrite64 vm addr (reg vm r))"
    by (rule post_mono [OF post_memWrite64_keeps [OF assms refl]]) auto
qed

lemma keeps_SWP:
  assumes "wf_vm vm" "dispatchSWP m = Some h"
  shows "post (keeps vm) (h vm i)"
  using assms by (cases m)
    (auto simp: dispatchSWP_def instrSWPR_def instrSWPD_def instrSWPI_def instrSWPX_def Let_def
      not_less wf_vm_def intro!: keeps_swap_cell)

text \<open>The stack segment lies above the code: a push stores at or above \<open>STACK_BASE\<close>.\<close>

lemma below_sp:
  assumes "wf_vm vm" "\<not> sp vm \<le> STACK_BASE"
  shows "wf_vm (vm\<lparr>sp := sp vm - 8\<rparr>)" "DATA_BASE \<le> sp vm - 8" "in_ram (sp vm - 8)"
proof -
  note s = sp_ok_push [OF wf_vmD(3) [OF assms(1)] assms(2)]
  show "wf_vm (vm\<lparr>sp := sp vm - 8\<rparr>)" using assms(1) s(1) by (rule wf_sp)
  show "DATA_BASE \<le> sp vm - 8" using s by (simp add: DATA_BASE_def word_le_nat_alt)
  show "in_ram (sp vm - 8)" using s(2,3) wf_vmD(3) [OF assms(1)] by (simp add: in_ram_def sp_ok_def)
qed

lemma push_word_Done:
  assumes "wf_vm vm" "\<not> sp vm \<le> STACK_BASE"
  shows "push_word vm v = Done (VM_OK, vm\<lparr>sp := sp vm - 8,
    memory := overlay (unat (sp vm - 8)) (bytes_le 8 v) (memory vm)\<rparr>)"
  using below_sp [OF assms] wf_vmD(2) [OF assms(1)]
  by (simp add: push_word_def Let_def memWrite64_in_ram)

lemma keeps_push_word:
  assumes "wf_vm vm" "\<not> sp vm \<le> STACK_BASE"
  shows "post (keeps vm) (push_word vm v)"
proof -
  have "1024 \<le> unat (sp vm - 8)" using below_sp(2) [OF assms] by (simp add: DATA_BASE_def word_le_nat_alt)
  then show ?thesis
    using below_sp [OF assms] wf_overlay [OF below_sp(1) [OF assms], of "unat (sp vm - 8)" "bytes_le 8 v"]
      code_overlay [of "unat (sp vm - 8)" "bytes_le 8 v" "vm\<lparr>sp := sp vm - 8\<rparr>"] wf_vmD(2) [OF assms(1)]
    by (simp add: push_word_Done [OF assms] in_ram_def)
qed

lemma keeps_PUSH:
  assumes "wf_vm vm" "dispatchPUSH m = Some h"
  shows "post (keeps vm) (h vm i)"
  using assms by (cases m)
    (auto simp: dispatchPUSH_def instrPUSH_def instrPUSHR_def intro!: keeps_push_word)

text \<open>A pop finds a whole cell at the stack pointer.\<close>

lemma at_sp:
  assumes "wf_vm vm" "\<not> MEM_SIZE \<le> sp vm"
  shows "in_ram (sp vm)" "wf_vm (vm\<lparr>sp := sp vm + 8\<rparr>)"
  using sp_ok_pop [OF wf_vmD(3) [OF assms(1)]] assms by (auto simp: in_ram_def intro: wf_sp)

lemma instrPOP_Done:
  assumes "wf_vm vm" "\<not> MEM_SIZE \<le> sp vm" "ins_a i < N_REG"
  shows "instrPOP vm i = Done (VM_OK, vm\<lparr>
    registers := (registers vm)[unat (ins_a i) := cell (memory vm) (unat (sp vm))], sp := sp vm + 8\<rparr>)"
  using assms(2,3) at_sp [OF assms(1,2)] wf_vmD(2) [OF assms(1)]
  by (simp add: instrPOP_def Let_def not_le reading64_in_ram)

lemma instrPOP_keeps:
  assumes "wf_vm vm" "instrPOP vm i = Done (st, vm')"
  shows "keeps vm (st, vm')"
proof -
  consider "MEM_SIZE \<le> sp vm" | "\<not> MEM_SIZE \<le> sp vm" "N_REG \<le> ins_a i"
    | "\<not> MEM_SIZE \<le> sp vm" "ins_a i < N_REG" by fastforce
  then show ?thesis
  proof cases
    case 3
    then show ?thesis
      using assms at_sp(2) [OF assms(1) 3(1)] by (auto simp: instrPOP_Done wf_vm_def)
  qed (use assms in \<open>simp_all add: instrPOP_def\<close>)
qed

lemma keeps_POP:
  "wf_vm vm \<Longrightarrow> dispatchPOP m = Some h \<Longrightarrow> post (keeps vm) (h vm i)"
  by (cases m) (auto simp: dispatchPOP_def post_iff dest: instrPOP_keeps)

lemma keeps_FASD:
  assumes "wf_vm vm"
  shows "post (keeps vm) (instrFASD vm i)"
  using assms by (auto simp: instrFASD_def not_less intro!: post_reading64_keeps post_memWrite64_keeps)

lemma wf_FAS:
  assumes "wf_vm vm" "dispatchFAS m = Some h"
  shows "post (\<lambda>(st, vm'). wf_vm vm') (h vm i)"
  using assms(2)
proof (cases m)
  case MODE_DIR
  with assms post_mono [OF keeps_FASD [OF assms(1)]] show ?thesis
    by (auto simp: dispatchFAS_def)
next
  case MODE_IND
  with assms show ?thesis
    by (auto simp: dispatchFAS_def instrFASI_def get_reg_def put_reg_def reg_ptr_def
        intro!: post_reading64 post_memWrite64)
next
  case MODE_IDX
  with assms show ?thesis
    by (auto simp: dispatchFAS_def instrFASX_def get_reg_def put_reg_def reg_ptr_def Let_def
        intro!: post_reading64 post_memWrite64)
qed (simp_all add: dispatchFAS_def)

lemma keeps_call_to:
  assumes "wf_vm vm" "\<not> sp vm \<le> STACK_BASE"
  shows "post (keeps vm) (call_to i target vm)"
proof -
  note b = below_sp [OF assms]
  have "post (keeps vm) (obind (memWrite64 (vm\<lparr>sp := sp vm - 8\<rparr>) (sp vm - 8) v) (\<lambda>(status, vm).
      if status = VM_OK then Done (VM_OK, vm\<lparr>pc := target\<rparr>)
      else Done (status, vm\<lparr>sp := sp vm + 8\<rparr>)))" for v
    using b(3) wf_vmD(2) [OF assms(1)] memWrite64_keeps [OF b(1,2)]
    by (simp add: memWrite64_in_ram)
  then show ?thesis unfolding call_to_def by (simp add: Let_def with_mode_size_def)
qed

lemma keeps_CALL:
  assumes "wf_vm vm" "dispatchCALL m = Some h"
  shows "post (keeps vm) (h vm i)"
  using assms by (cases m)
    (auto simp: dispatchCALL_def instrCALL_def instrCALLR_def instrCALLD_def instrCALLI_def
      instrCALLX_def intro!: post_reading64_keeps keeps_call_to)

lemma keeps_RTN:
  assumes "wf_vm vm"
  shows "post (keeps vm) (instrRTN vm i)"
proof (cases "MEM_SIZE \<le> sp vm")
  case False
  then show ?thesis
    using assms at_sp [OF assms False] wf_vmD(2) [OF assms]
    by (simp add: instrRTN_def memRead64_in_ram wf_vm_def)
qed (use assms in \<open>simp add: instrRTN_def\<close>)

section \<open>What the system calls keep\<close>

lemma post_popping:
  assumes "wf_vm vm" "code vm = code vm0"
    and "\<And>vm1. wf_vm vm1 \<Longrightarrow> code vm1 = code vm0 \<Longrightarrow> post (keeps vm0) (k vm1)"
  shows "post (keeps vm0) (popping vm k)"
proof (cases "instrPOP vm pop_instr")
  case (Done r)
  with instrPOP_keeps [OF assms(1), of pop_instr "fst r" "snd r"] assms(2,3) show ?thesis
    by (cases r) (simp add: popping_def)
qed (simp_all add: popping_def)

lemma post_popping_wf:
  assumes "wf_vm vm"
    and "\<And>vm1. wf_vm vm1 \<Longrightarrow> post (\<lambda>(st, vm'). wf_vm vm') (k vm1)"
  shows "post (\<lambda>(st, vm'). wf_vm vm') (popping vm k)"
proof (cases "instrPOP vm pop_instr")
  case (Done r)
  with instrPOP_keeps [OF assms(1), of pop_instr "fst r" "snd r"] assms(2) show ?thesis
    by (cases r) (simp add: popping_def)
qed (simp_all add: popping_def)

lemma store_bytes_keeps:
  assumes "wf_vm vm" "store_bytes (memory vm) addr bs = Done m" "HEAP_BASE \<le> addr"
  shows "wf_vm (vm\<lparr>memory := m\<rparr>) \<and> code (vm\<lparr>memory := m\<rparr>) = code vm"
proof (cases "bs = []")
  case False
  have "unat addr + length bs \<le> 2048"
    using assms(2) False store_bytes_Undefined [of "memory vm" addr bs] wf_vmD(2) [OF assms(1)]
    by (force simp: not_le)
  moreover have "1280 \<le> unat addr" using assms(3) by (simp add: HEAP_BASE_def word_le_nat_alt)
  ultimately show ?thesis
    using assms(1,2) wf_vmD(2) [OF assms(1)]
    by (auto simp: store_bytes_Done wf_overlay code_overlay)
qed (use assms in \<open>auto simp: wf_vm_def code_def\<close>)

lemmas syscall_defs =
  syscallEXIT_def syscallWRITE_FILE_def syscallREAD_FILE_def syscallOPEN_FILE_def
  syscallCLOSE_FILE_def syscallPRINT_INT_def syscallPRINT_STR_def syscallREAD_INT_def
  syscallREAD_STR_def syscallMALLOC_def syscallFREE_def syscallMEMSET_def
  syscallDUMP_REGS_def syscallDUMP_STACK_def syscallDUMP_MEM_def

lemma post_calling:
  assumes "\<And>r t. post Q (k r (vm\<lparr>trace := t\<rparr>))"
  shows "post Q (calling env ev vm k)"
  using assms by (simp add: calling_def Let_def)

lemma post_bytes:
  assumes "\<And>y. x = Done y \<Longrightarrow> post Q (k y)"
  shows "post Q (obind x k)"
  using assms by (cases x) simp_all

lemmas syscall_intros = post_popping post_calling post_bytes

lemma keeps_vm_alloc:
  assumes "wf_vm vm" "vm_alloc vm n = Inr (p, vm')"
  shows "wf_vm vm' \<and> code vm' = code vm"
  using assms wf_vm_alloc [OF assms] by (auto simp: vm_alloc_def code_def split: option.splits)

lemma keeps_vm_free:
  assumes "wf_vm vm"
  shows "keeps vm (vm_free vm p)"
  using assms wf_vm_free [of vm p] by (auto simp: vm_free_def keeps_def code_def split: option.splits if_splits)

text \<open>The calls leave the machine as it is, but for the trace, register 0 and the bytes they store.\<close>

lemma keeps_io_update [simp]:
  "wf_vm (vm\<lparr>trace := t, registers := (registers vm)[i := v]\<rparr>) = wf_vm vm"
  "wf_vm (vm\<lparr>registers := (registers vm)[i := v], trace := t\<rparr>) = wf_vm vm"
  by (simp_all add: wf_vm_def)

lemma wf_io_memory:
  "wf_vm vm \<Longrightarrow> length m = 2048 \<Longrightarrow>
    wf_vm (vm\<lparr>trace := t, memory := m, registers := (registers vm)[i := v]\<rparr>)"
  "wf_vm vm \<Longrightarrow> length m = 2048 \<Longrightarrow>
    wf_vm (vm\<lparr>memory := m, registers := (registers vm)[i := v]\<rparr>)"
  by (simp_all add: wf_vm_def)

lemma store_bytes_frame:
  assumes "store_bytes (memory vm) addr bs = Done m" "HEAP_BASE \<le> addr" "wf_vm vm"
  shows "length m = 2048" "take 1024 m = code vm"
  using store_bytes_keeps [OF assms(3,1,2)] by (auto simp: wf_vm_def code_def)

lemma keeps_EXIT: "wf_vm vm \<Longrightarrow> post (keeps vm) (syscallEXIT env vm)"
  by (auto simp: syscallEXIT_def Let_def mem_ptr_def intro!: syscall_intros)

lemma keeps_WRITE_FILE: "wf_vm vm \<Longrightarrow> post (keeps vm) (syscallWRITE_FILE env vm)"
  by (auto simp: syscallWRITE_FILE_def Let_def mem_ptr_def intro!: syscall_intros)

lemma keeps_OPEN_FILE: "wf_vm vm \<Longrightarrow> post (keeps vm) (syscallOPEN_FILE env vm)"
  by (auto simp: syscallOPEN_FILE_def Let_def mem_ptr_def intro!: syscall_intros)

lemma keeps_CLOSE_FILE: "wf_vm vm \<Longrightarrow> post (keeps vm) (syscallCLOSE_FILE env vm)"
  by (auto simp: syscallCLOSE_FILE_def Let_def mem_ptr_def intro!: syscall_intros)

lemma keeps_PRINT_INT: "wf_vm vm \<Longrightarrow> post (keeps vm) (syscallPRINT_INT env vm)"
  by (auto simp: syscallPRINT_INT_def Let_def mem_ptr_def intro!: syscall_intros)

lemma keeps_PRINT_STR: "wf_vm vm \<Longrightarrow> post (keeps vm) (syscallPRINT_STR env vm)"
  by (auto simp: syscallPRINT_STR_def Let_def mem_ptr_def intro!: syscall_intros)

lemma keeps_READ_INT: "wf_vm vm \<Longrightarrow> post (keeps vm) (syscallREAD_INT env vm)"
  by (auto simp: syscallREAD_INT_def Let_def mem_ptr_def intro!: syscall_intros)

lemma keeps_DUMP_REGS: "wf_vm vm \<Longrightarrow> post (keeps vm) (syscallDUMP_REGS env vm)"
  by (auto simp: syscallDUMP_REGS_def Let_def mem_ptr_def intro!: syscall_intros)

lemma keeps_DUMP_STACK: "wf_vm vm \<Longrightarrow> post (keeps vm) (syscallDUMP_STACK env vm)"
  by (auto simp: syscallDUMP_STACK_def Let_def mem_ptr_def intro!: syscall_intros)

lemma keeps_DUMP_MEM: "wf_vm vm \<Longrightarrow> post (keeps vm) (syscallDUMP_MEM env vm)"
  by (auto simp: syscallDUMP_MEM_def Let_def mem_ptr_def intro!: syscall_intros)

lemma keeps_MALLOC: "wf_vm vm \<Longrightarrow> post (keeps vm) (syscallMALLOC env vm)"
  unfolding syscallMALLOC_def
proof (rule post_popping)
  fix vm1
  assume "wf_vm vm1" "code vm1 = code vm"
  with keeps_vm_alloc [of vm1 "reg vm1 0"]
  show "post (keeps vm) (let sz = reg vm1 0 in case vm_alloc vm1 sz of
      Inl status \<Rightarrow> Done (status, set_reg 0 (junk_ptr env) vm1)
    | Inr (ptr, vm) \<Rightarrow> Done (VM_OK, set_reg 0 ptr vm))"
    by (cases "vm_alloc vm1 (reg vm1 0)") auto
qed simp_all

lemma keeps_FREE: "wf_vm vm \<Longrightarrow> post (keeps vm) (syscallFREE env vm)"
  by (auto simp: syscallFREE_def Let_def keeps_def dest: keeps_vm_free intro!: post_popping)

lemma code_memory_update:
  "code (vm\<lparr>trace := t, memory := m\<rparr>) = take 1024 m" "code (vm\<lparr>memory := m\<rparr>) = take 1024 m"
  by (simp_all add: code_def)

lemma keeps_READ_FILE: "wf_vm vm \<Longrightarrow> post (keeps vm) (syscallREAD_FILE env vm)"
  by (auto simp: syscallREAD_FILE_def Let_def not_less code_memory_update store_bytes_frame
      intro!: syscall_intros wf_io_memory)

lemma keeps_READ_STR: "wf_vm vm \<Longrightarrow> post (keeps vm) (syscallREAD_STR env vm)"
  by (auto simp: syscallREAD_STR_def Let_def not_less mem_ptr_def code_memory_update store_bytes_frame
      intro!: syscall_intros wf_io_memory)

lemma overlay_frame:
  "wf_vm vm \<Longrightarrow> HEAP_BASE \<le> addr \<Longrightarrow> unat addr + length bs \<le> 2048 \<Longrightarrow>
    length (overlay (unat addr) bs (memory vm)) = 2048 \<and>
    take 1024 (overlay (unat addr) bs (memory vm)) = code vm"
  by (simp add: wf_vmD code_def take_overlay_below HEAP_BASE_def word_le_nat_alt)

lemma keeps_MEMSET: "wf_vm vm \<Longrightarrow> post (keeps vm) (syscallMEMSET env vm)"
  by (auto simp: syscallMEMSET_def Let_def not_less code_memory_update overlay_frame wf_vmD(2)
      intro!: syscall_intros wf_io_memory)

lemma wf_MEMCPY: "wf_vm vm \<Longrightarrow> post (\<lambda>(st, vm'). wf_vm vm') (syscallMEMCPY env vm)"
  by (auto simp: syscallMEMCPY_def Let_def wf_vmD(2) intro!: post_popping_wf wf_io_memory)

text \<open>TRAP: the call number is register 0 cut to 32 bits; only MEMCPY (13) can store outside the heap.\<close>

definition trap_number :: "vm \<Rightarrow> int" where
  "trap_number vm = sint (ucast (reg vm 0) :: u32)"

lemmas keeps_syscalls =
  keeps_EXIT keeps_WRITE_FILE keeps_READ_FILE keeps_OPEN_FILE keeps_CLOSE_FILE keeps_PRINT_INT
  keeps_PRINT_STR keeps_READ_INT keeps_READ_STR keeps_MALLOC keeps_FREE keeps_MEMSET
  keeps_DUMP_REGS keeps_DUMP_STACK keeps_DUMP_MEM

lemma keeps_syscall:
  assumes "wf_vm vm" "dispatchSyscalls n = Some h" "n \<noteq> 13"
  shows "post (keeps vm) (h env vm)"
  using assms by (auto simp: dispatchSyscalls_def intro: keeps_syscalls split: if_splits)

lemma wf_syscall:
  assumes "wf_vm vm" "dispatchSyscalls n = Some h"
  shows "post (\<lambda>(st, vm'). wf_vm vm') (h env vm)"
proof (cases "n = 13")
  case True
  with assms show ?thesis by (simp add: dispatchSyscalls_def wf_MEMCPY)
next
  case False
  show ?thesis by (rule post_mono [OF keeps_syscall [OF assms False]]) (auto simp: keeps_def)
qed

lemma keeps_TRAP:
  assumes "wf_vm vm" "dispatchTRAP env m = Some h" "trap_number vm \<noteq> 13"
  shows "post (keeps vm) (h vm i)"
  using assms by (cases m)
    (auto simp: dispatchTRAP_def instrTRAP_def Let_def trap_number_def keeps_syscall split: option.split)

lemma wf_TRAP:
  assumes "wf_vm vm" "dispatchTRAP env m = Some h"
  shows "post (\<lambda>(st, vm'). wf_vm vm') (h vm i)"
  using assms by (cases m)
    (auto simp: dispatchTRAP_def instrTRAP_def Let_def wf_syscall split: option.split)

end
