(* ===== verification/Dispatch.thy ===== *)
theory Dispatch
  imports Syscall
begin

text \<open>
  The dispatch table of \<^verbatim>\<open>src/runtime/instructions.c\<close>, \<open>get_handler\<close> and \<open>getArgsCount\<close>, and
  what holds of every handler the table names: the reference execution of the two-operand
  instructions and of the jumps, and what each instruction leaves of the machine.
\<close>

unbundle bit_operations_syntax

section \<open>Tables\<close>

fun dispatch :: "env \<Rightarrow> OP_CODE \<Rightarrow> MODE \<Rightarrow> handler option" where
  "dispatch env OP_ADD = dispatchADD"
| "dispatch env OP_SUB = dispatchSUB"
| "dispatch env OP_MUL = dispatchMUL"
| "dispatch env OP_DIV = dispatchDIV"
| "dispatch env OP_CMP = dispatchCMP"
| "dispatch env OP_NEG = dispatchNEG"
| "dispatch env OP_AND = dispatchAND"
| "dispatch env OP_OR = dispatchOR"
| "dispatch env OP_XOR = dispatchXOR"
| "dispatch env OP_NOT = dispatchNOT"
| "dispatch env OP_SHL = dispatchSHL"
| "dispatch env OP_SHR = dispatchSHR"
| "dispatch env OP_ST = dispatchST"
| "dispatch env OP_LD = dispatchLD"
| "dispatch env OP_SWP = dispatchSWP"
| "dispatch env OP_PUSH = dispatchPUSH"
| "dispatch env OP_POP = dispatchPOP"
| "dispatch env OP_FAS = dispatchFAS"
| "dispatch env OP_CALL = dispatchCALL"
| "dispatch env OP_RTN = dispatchRTN"
| "dispatch env OP_NOP = dispatchNOP"
| "dispatch env OP_RST = dispatchRST"
| "dispatch env OP_JMP = dispatchJMP"
| "dispatch env OP_JEQ = dispatchJEQ"
| "dispatch env OP_JNE = dispatchJNE"
| "dispatch env OP_JLE = dispatchJLE"
| "dispatch env OP_JLT = dispatchJLT"
| "dispatch env OP_JGE = dispatchJGE"
| "dispatch env OP_JGT = dispatchJGT"
| "dispatch env OP_HALT = dispatchHALT"
| "dispatch env OP_TRAP = dispatchTRAP env"
| "dispatch env OP_COUNT = (\<lambda>m. None)"

definition get_handler :: "env \<Rightarrow> OP_CODE \<Rightarrow> MODE \<Rightarrow> handler option" where
  "get_handler env op_code m =
     (if op_code \<ge> OP_COUNT then None
      else if m \<ge> MODE_COUNT then None
      else dispatch env op_code m)"

fun dispatchArgsCount :: "OP_CODE \<Rightarrow> nat" where
  "dispatchArgsCount OP_ADD = 2"
| "dispatchArgsCount OP_SUB = 2"
| "dispatchArgsCount OP_MUL = 2"
| "dispatchArgsCount OP_DIV = 2"
| "dispatchArgsCount OP_CMP = 2"
| "dispatchArgsCount OP_NEG = 1"
| "dispatchArgsCount OP_AND = 2"
| "dispatchArgsCount OP_OR = 2"
| "dispatchArgsCount OP_XOR = 2"
| "dispatchArgsCount OP_NOT = 1"
| "dispatchArgsCount OP_SHL = 2"
| "dispatchArgsCount OP_SHR = 2"
| "dispatchArgsCount OP_ST = 2"
| "dispatchArgsCount OP_LD = 2"
| "dispatchArgsCount OP_SWP = 2"
| "dispatchArgsCount OP_PUSH = 1"
| "dispatchArgsCount OP_POP = 1"
| "dispatchArgsCount OP_FAS = 2"
| "dispatchArgsCount OP_CALL = 1"
| "dispatchArgsCount OP_RTN = 0"
| "dispatchArgsCount OP_NOP = 0"
| "dispatchArgsCount OP_RST = 0"
| "dispatchArgsCount OP_JMP = 1"
| "dispatchArgsCount OP_JEQ = 1"
| "dispatchArgsCount OP_JNE = 1"
| "dispatchArgsCount OP_JLE = 1"
| "dispatchArgsCount OP_JLT = 1"
| "dispatchArgsCount OP_JGE = 1"
| "dispatchArgsCount OP_JGT = 1"
| "dispatchArgsCount OP_HALT = 0"
| "dispatchArgsCount OP_TRAP = 0"
| "dispatchArgsCount OP_COUNT = 0"

definition getArgsCount :: "OP_CODE \<Rightarrow> nat" where
  "getArgsCount op_code = (if op_code \<ge> OP_COUNT then 0 else dispatchArgsCount op_code)"

lemma get_handler_dispatch: "get_handler env op m = Some h \<Longrightarrow> dispatch env op m = Some h"
  by (simp add: get_handler_def split: if_splits)

section \<open>The two-operand instructions\<close>

text \<open>What each operation does with a register and the value of its operand.\<close>

fun alu_of :: "OP_CODE \<Rightarrow> alu option" where
  "alu_of OP_ADD = Some add_alu"
| "alu_of OP_SUB = Some sub_alu"
| "alu_of OP_MUL = Some mul_alu"
| "alu_of OP_DIV = Some div_alu"
| "alu_of OP_CMP = Some cmp_alu"
| "alu_of OP_AND = Some and_alu"
| "alu_of OP_OR = Some or_alu"
| "alu_of OP_XOR = Some xor_alu"
| "alu_of OP_SHL = Some shl_alu"
| "alu_of OP_SHR = Some shr_alu"
| "alu_of OP_LD = Some ld_alu"
| "alu_of _ = None"

lemmas alu_table_exec =
  add_ops.table_exec sub_ops.table_exec mul_ops.table_exec
  div_ops.table_exec cmp_ops.table_exec and_ops.table_exec
  or_ops.table_exec xor_ops.table_exec shl_ops.table_exec
  shr_ops.table_exec ld_ops.table_exec

lemmas alu_touches =
  add_ops.handler_touches sub_ops.handler_touches mul_ops.handler_touches
  div_ops.handler_touches cmp_ops.handler_touches and_ops.handler_touches
  or_ops.handler_touches xor_ops.handler_touches shl_ops.handler_touches
  shr_ops.handler_touches ld_ops.handler_touches

lemma dispatch_alu:
  assumes "wf_vm vm" "alu_of op = Some alu" "dispatch env op m = Some h"
  shows "h vm i = exec_operand alu m vm i"
  using assms by (cases op) (auto intro: alu_table_exec)

lemma dispatch_alu_touches:
  assumes "wf_vm vm" "alu_of op \<noteq> None" "dispatch env op m = Some h"
  shows "post (\<lambda>(st, vm'). touches (ins_a i) vm vm') (h vm i)"
  using assms by (cases op) (simp_all add: alu_touches)

section \<open>The jumps\<close>

fun taken_of :: "OP_CODE \<Rightarrow> (MODE \<Rightarrow> vm \<Rightarrow> bool) option" where
  "taken_of OP_JMP = Some (\<lambda>_ _. True)"
| "taken_of OP_JEQ = Some jeq_taken"
| "taken_of OP_JNE = Some jne_taken"
| "taken_of OP_JLE = Some jle_taken"
| "taken_of OP_JLT = Some jlt_taken"
| "taken_of OP_JGE = Some jge_taken"
| "taken_of OP_JGT = Some jgt_taken"
| "taken_of _ = None"

lemmas jump_table_exec =
  jmp_ops.table_exec jeq_ops.table_exec jne_ops.table_exec
  jle_ops.table_exec jlt_ops.table_exec jge_ops.table_exec
  jgt_ops.table_exec

lemma dispatch_jump:
  assumes "taken_of op = Some taken" "dispatch env op m = Some h"
  shows "h vm i = (if taken m vm then jump_by m vm i else Done (VM_OK, vm))"
  using assms by (cases op) (auto intro: jump_table_exec [THEN trans])

lemma dispatch_jump_pc:
  assumes "taken_of op \<noteq> None" "dispatch env op m = Some h"
  shows "post (\<lambda>(st, vm'). \<exists>p. vm' = vm\<lparr>pc := p\<rparr>) (h vm i)"
proof -
  from assms(1) obtain taken where "taken_of op = Some taken" by blast
  from dispatch_jump [OF this assms(2)] show ?thesis
    using post_mono [OF jump_by_jumped [of vm m i], of "\<lambda>(st, vm'). \<exists>p. vm' = vm\<lparr>pc := p\<rparr>"]
    by (auto intro: same_pc dest: jumped_pc)
qed

section \<open>What an instruction leaves of the machine\<close>

text \<open>
  The instructions that can store into the code segment: RST clears the memory; FASI
  stores at the number of a register and FASX at an address it has not checked; MEMCPY
  checks none.
\<close>

definition may_write_code :: "OP_CODE \<Rightarrow> MODE \<Rightarrow> vm \<Rightarrow> bool" where
  "may_write_code op m vm \<longleftrightarrow> op = OP_RST \<or> op = OP_FAS \<and> m \<noteq> MODE_DIR \<or>
     op = OP_TRAP \<and> trap_number vm = 13"

lemma keeps_small:
  "dispatchNEG m = Some h \<Longrightarrow> wf_vm vm \<Longrightarrow> post (keeps vm) (h vm i)"
  "dispatchNOT m = Some h \<Longrightarrow> wf_vm vm \<Longrightarrow> post (keeps vm) (h vm i)"
  "dispatchNOP m = Some h \<Longrightarrow> wf_vm vm \<Longrightarrow> post (keeps vm) (h vm i)"
  "dispatchHALT m = Some h \<Longrightarrow> wf_vm vm \<Longrightarrow> post (keeps vm) (h vm i)"
  "dispatchRTN m = Some h \<Longrightarrow> wf_vm vm \<Longrightarrow> post (keeps vm) (h vm i)"
  by (cases m; auto simp: dispatchNEG_def dispatchNOT_def dispatchNOP_def dispatchHALT_def
      dispatchRTN_def instrNOP_def instrHALT_def keeps_RTN
      intro: post_mono [OF instrNEG_touches] post_mono [OF instrNOT_touches] touches_keeps)+

lemma keeps_alu:
  assumes "wf_vm vm" "alu_of op \<noteq> None" "dispatch env op m = Some h"
  shows "post (keeps vm) (h vm i)"
  by (rule post_mono [OF dispatch_alu_touches [OF assms]]) (auto dest: touches_keeps [OF assms(1)])

lemma keeps_jump:
  assumes "wf_vm vm" "taken_of op \<noteq> None" "dispatch env op m = Some h"
  shows "post (keeps vm) (h vm i)"
  by (rule post_mono [OF dispatch_jump_pc [OF assms(2,3)]]) (use assms(1) in auto)

lemma keeps_handler:
  assumes "wf_vm vm" "dispatch env op m = Some h" "\<not> may_write_code op m vm"
  shows "post (keeps vm) (h vm i)"
proof (cases "alu_of op \<noteq> None \<or> taken_of op \<noteq> None")
  case True
  with assms(1,2) show ?thesis by (blast intro: keeps_alu keeps_jump)
next
  case False
  with assms show ?thesis
    by (cases op; cases m)
      (simp_all add: may_write_code_def keeps_small keeps_ST keeps_SWP keeps_PUSH keeps_POP
        keeps_CALL keeps_TRAP dispatchFAS_def keeps_FASD)
qed

lemma wf_handler:
  assumes "wf_vm vm" "dispatch env op m = Some h"
  shows "post (\<lambda>(st, vm'). wf_vm vm') (h vm i)"
proof (cases "may_write_code op m vm")
  case False
  show ?thesis by (rule post_mono [OF keeps_handler [OF assms False]]) (auto simp: keeps_def)
next
  case True
  then consider "op = OP_RST" | "op = OP_FAS" | "op = OP_TRAP" by (auto simp: may_write_code_def)
  then show ?thesis
  proof cases
    case 1
    with assms show ?thesis
      by (cases m) (auto simp: dispatchRST_def instrRST_def wf_initVM)
  qed (use assms in \<open>simp_all add: wf_FAS wf_TRAP\<close>)
qed

section \<open>The program counter\<close>

text \<open>
  Control leaves the next instruction only through a jump, CALL, RTN or RST; every other
  handler leaves \<open>pc\<close> alone, and the cycle advances it by the size of the instruction.
\<close>

definition transfers :: "OP_CODE \<Rightarrow> bool" where
  "transfers op \<longleftrightarrow> taken_of op \<noteq> None \<or> op \<in> {OP_CALL, OP_RTN, OP_RST}"

definition same_pc_as :: "vm \<Rightarrow> VM_Error \<times> vm \<Rightarrow> bool" where
  "same_pc_as vm r \<longleftrightarrow> pc (snd r) = pc vm"

lemma same_pc_as_pair [simp]: "same_pc_as vm (st, vm') \<longleftrightarrow> pc vm' = pc vm"
  by (simp add: same_pc_as_def)

lemma pc_memWrite64: "pc vm = pc vm0 \<Longrightarrow> post (same_pc_as vm0) (memWrite64 vm addr v)"
  by (auto simp: memWrite64_def post_iff obind_Done_iff)

lemma pc_reading64:
  "pc vm = pc vm0 \<Longrightarrow> (\<And>v. post (same_pc_as vm0) (k v)) \<Longrightarrow> post (same_pc_as vm0) (reading64 vm addr k)"
  by (rule post_reading64) auto

lemma pc_swap_cell: "post (same_pc_as vm) (swap_cell vm r addr)"
  unfolding swap_cell_def
  by (rule pc_reading64, simp, rule post_obind, rule post_mono [OF pc_memWrite64 [OF refl]]) auto

lemma pc_push_word: "post (same_pc_as vm) (push_word vm v)"
proof -
  have "post (same_pc_as vm) (memWrite64 (vm\<lparr>sp := sp vm - 8\<rparr>) addr v)" for addr
    by (simp add: pc_memWrite64)
  then show ?thesis
    unfolding push_word_def Let_def by (rule post_obind [OF post_mono]) auto
qed

lemma pc_POP: "post (same_pc_as vm) (instrPOP vm i)"
  by (auto simp: instrPOP_def Let_def intro!: pc_reading64)

lemma pc_popping:
  assumes "pc vm = pc vm0" "\<And>vm1. pc vm1 = pc vm0 \<Longrightarrow> post (same_pc_as vm0) (k vm1)"
  shows "post (same_pc_as vm0) (popping vm k)"
  unfolding popping_def
  by (rule post_obind, rule post_mono [OF pc_POP]) (use assms in auto)

lemma pc_vm_alloc: "vm_alloc vm n = Inr (p, vm') \<Longrightarrow> pc vm' = pc vm"
  by (auto simp: vm_alloc_def split: option.splits)

lemma pc_vm_free: "pc (snd (vm_free vm p)) = pc vm"
  by (auto simp: vm_free_def split: option.splits)

lemma pc_syscall:
  assumes "dispatchSyscalls n = Some h"
  shows "post (same_pc_as vm) (h env vm)"
  using assms
  by (auto simp: dispatchSyscalls_def syscall_defs syscallMEMCPY_def Let_def mem_ptr_def same_pc_as_def
      pc_vm_alloc pc_vm_free intro!: pc_popping post_calling post_bytes split: if_splits sum.splits)

lemma pc_rows:
  "dispatchNEG m = Some h \<Longrightarrow> post (same_pc_as vm) (h vm i)"
  "dispatchNOT m = Some h \<Longrightarrow> post (same_pc_as vm) (h vm i)"
  "dispatchNOP m = Some h \<Longrightarrow> post (same_pc_as vm) (h vm i)"
  "dispatchHALT m = Some h \<Longrightarrow> post (same_pc_as vm) (h vm i)"
  by (cases m; auto simp: dispatchNEG_def dispatchNOT_def dispatchNOP_def dispatchHALT_def
      instrNOP_def instrHALT_def touchesD
      intro!: post_mono [OF instrNEG_touches] post_mono [OF instrNOT_touches])+

lemma pc_memory_rows:
  "dispatchST m = Some h \<Longrightarrow> post (same_pc_as vm) (h vm i)"
  "dispatchSWP m = Some h \<Longrightarrow> post (same_pc_as vm) (h vm i)"
  "dispatchPUSH m = Some h \<Longrightarrow> post (same_pc_as vm) (h vm i)"
  "dispatchPOP m = Some h \<Longrightarrow> post (same_pc_as vm) (h vm i)"
  "dispatchFAS m = Some h \<Longrightarrow> post (same_pc_as vm) (h vm i)"
  "dispatchTRAP env m = Some h \<Longrightarrow> post (same_pc_as vm) (h vm i)"
  by (cases m; auto simp: dispatchST_def dispatchSWP_def dispatchPUSH_def dispatchPOP_def
      dispatchFAS_def dispatchTRAP_def instrSTD_def instrSTI_def instrSTX_def instrSWPR_def
      instrSWPD_def instrSWPI_def instrSWPX_def instrPUSH_def instrPUSHR_def instrFASD_def
      instrFASI_def instrFASX_def get_reg_def put_reg_def reg_ptr_def instrTRAP_def Let_def
      pc_swap_cell pc_push_word pc_POP pc_syscall
      intro!: pc_memWrite64 pc_reading64 split: option.splits)+

lemma pc_handler:
  assumes "wf_vm vm" "dispatch env op m = Some h" "\<not> transfers op"
  shows "post (same_pc_as vm) (h vm i)"
proof (cases "alu_of op \<noteq> None")
  case True
  show ?thesis
    by (rule post_mono [OF dispatch_alu_touches [OF assms(1) True assms(2)]]) (auto simp: touchesD)
next
  case False
  with assms show ?thesis
    by (cases op) (simp_all add: transfers_def pc_rows pc_memory_rows)
qed

end
