(* ===== verification/Cpu.thy ===== *)
theory Cpu
  imports Dispatch
begin

text \<open>
  \<^verbatim>\<open>src/runtime/cpu.c\<close> and the execution loop \<open>vm_run\<close> of \<^verbatim>\<open>src/runtime/vm.c\<close>: fetch, decode,
  dispatch, and the cycles of a run. The environment of a cycle gives the indeterminate
  contents of the local \<open>instr\<close> the decoder fills, so a run takes one environment per cycle.
\<close>

unbundle bit_operations_syntax

section \<open>One cycle\<close>

definition cpu_step :: "env \<Rightarrow> vm \<Rightarrow> result" where
  "cpu_step env vm =
     (if pc vm \<ge> DATA_BASE then Done (VM_INVALID_EXECUTION_ADDRESS, vm)
      else obind (instructionDecode (junk_instr env) (drop (unat (pc vm)) (memory vm)) (DATA_BASE - pc vm - 1))
        (\<lambda>(instr, consumed).
          with_mode_size (mode instr) (\<lambda>sz.
            if consumed \<noteq> sz then Done (VM_TRUNCATED_INSTR, vm)
            else let old_pc = pc vm
            in case get_handler env (opcode instr) (mode instr) of
                 None \<Rightarrow> Done (VM_UNKNOWN_INSTR, vm)
               | Some handler \<Rightarrow>
                   obind (handler vm instr) (\<lambda>(status, vm).
                     if status = VM_OK \<and> pc vm = old_pc then Done (status, vm\<lparr>pc := pc vm + consumed\<rparr>)
                     else Done (status, vm)))))"

text \<open>The instruction a cycle executes, when it gets as far as dispatching one.\<close>

definition fetched :: "env \<Rightarrow> vm \<Rightarrow> (instruction \<times> handler) option" where
  "fetched env vm =
     (if pc vm \<ge> DATA_BASE then None
      else case instructionDecode (junk_instr env) (drop (unat (pc vm)) (memory vm)) (DATA_BASE - pc vm - 1) of
        Done (instr, consumed) \<Rightarrow>
          if mode instr = MODE_COUNT \<or> consumed \<noteq> mode_size (mode instr) then None
          else map_option (Pair instr) (get_handler env (opcode instr) (mode instr))
      | _ \<Rightarrow> None)"

definition advance :: "u64 \<Rightarrow> u64 \<Rightarrow> VM_Error \<times> vm \<Rightarrow> VM_Error \<times> vm" where
  "advance old_pc sz r = (case r of (status, vm) \<Rightarrow>
     (status, if status = VM_OK \<and> pc vm = old_pc then vm\<lparr>pc := pc vm + sz\<rparr> else vm))"

lemma advance_simps [simp]:
  "fst (advance p sz (st, vm)) = st"
  "st \<noteq> VM_OK \<Longrightarrow> advance p sz (st, vm) = (st, vm)"
  by (simp_all add: advance_def)

lemma advance_eq:
  "(case r of (status, vm) \<Rightarrow> if status = VM_OK \<and> pc vm = p then Done (status, vm\<lparr>pc := pc vm + sz\<rparr>)
    else Done (status, vm)) = Done (advance p sz r)"
  by (cases r) (simp add: advance_def)

lemma advance_fun:
  "(\<lambda>(status, vm). if status = VM_OK \<and> pc vm = p then Done (status, vm\<lparr>pc := pc vm + sz\<rparr>)
    else Done (status, vm)) = (\<lambda>r. Done (advance p sz r))"
  by (rule ext) (rule advance_eq)

lemma cpu_step_fetched:
  assumes "fetched env vm = Some (instr, h)"
  shows "cpu_step env vm = obind (h vm instr) (\<lambda>r. Done (advance (pc vm) (mode_size (mode instr)) r))"
    and "get_handler env (opcode instr) (mode instr) = Some h"
  using assms unfolding fetched_def cpu_step_def advance_eq [symmetric]
  by (auto simp: Let_def split: if_splits outcome.splits prod.splits)

lemma cpu_step_unfetched:
  assumes "fetched env vm = None" "cpu_step env vm = Done r"
  shows "snd r = vm \<and> fst r \<in> {VM_INVALID_EXECUTION_ADDRESS, VM_TRUNCATED_INSTR, VM_UNKNOWN_INSTR}"
  using assms unfolding fetched_def cpu_step_def
  by (auto simp: Let_def with_mode_size_def obind_Done_iff split: if_splits outcome.splits prod.splits)

lemma fetched_dispatch: "fetched env vm = Some (instr, h) \<Longrightarrow> dispatch env (opcode instr) (mode instr) = Some h"
  by (blast dest: cpu_step_fetched(2) get_handler_dispatch)

text \<open>A cycle that ends either dispatched nothing and left the machine as it was, or ran a handler.\<close>

lemma cpu_step_cases [consumes 1, case_names stuck executed]:
  assumes "cpu_step env vm = Done (st, vm')"
  obtains "fetched env vm = None" "vm' = vm"
      "st \<in> {VM_INVALID_EXECUTION_ADDRESS, VM_TRUNCATED_INSTR, VM_UNKNOWN_INSTR}"
    | instr h vm1 where "fetched env vm = Some (instr, h)"
      "dispatch env (opcode instr) (mode instr) = Some h" "h vm instr = Done (st, vm1)"
      "vm' = snd (advance (pc vm) (mode_size (mode instr)) (st, vm1))"
proof (cases "fetched env vm")
  case None
  with cpu_step_unfetched [OF None assms] that(1) show thesis by simp
next
  case (Some f)
  obtain instr h where f: "f = (instr, h)" by (cases f)
  note F = Some [unfolded f]
  from assms obtain r where r: "h vm instr = Done r"
    "advance (pc vm) (mode_size (mode instr)) r = (st, vm')"
    unfolding cpu_step_fetched(1) [OF F] by (auto simp: obind_Done_iff)
  obtain st1 vm1 where "r = (st1, vm1)" by (cases r)
  with r that(2) [OF F fetched_dispatch [OF F]] show thesis
    by (metis advance_simps(1) fst_conv snd_conv)
qed

lemma wf_advance [simp]: "wf_vm (snd (advance p sz (st, vm))) = wf_vm vm"
  by (simp add: advance_def)

lemma code_advance [simp]: "code (snd (advance p sz (st, vm))) = code vm"
  by (simp add: advance_def)

lemma wf_cpu_step: "cpu_step env vm = Done (st, vm') \<Longrightarrow> wf_vm vm \<Longrightarrow> wf_vm vm'"
  by (erule cpu_step_cases) (auto dest: post_DoneD [OF wf_handler])

section \<open>The loop\<close>

text \<open>
  \<open>run_loop envs cycle vm\<close> is the loop of \<open>vm_run\<close> with \<open>cycle\<close> cycles done: \<open>None\<close> when it
  does not end, else the status, the count of full cycles and the machine.
\<close>

partial_function (option) run_loop :: "(nat \<Rightarrow> env) \<Rightarrow> nat \<Rightarrow> vm \<Rightarrow> (VM_Error \<times> nat \<times> vm) outcome option" where
  "run_loop envs cycle vm =
     (case cpu_step (envs cycle) vm of
        Done (status, vm) \<Rightarrow>
          if status = VM_OK \<and> running vm then run_loop envs (Suc cycle) vm
          else Some (Done (status, cycle, vm))
      | Exit_failure \<Rightarrow> Some Exit_failure
      | Undefined \<Rightarrow> Some Undefined)"

definition vm_run :: "(nat \<Rightarrow> env) \<Rightarrow> vm \<Rightarrow> result option" where
  "vm_run envs vm =
     map_option (\<lambda>x. obind x (\<lambda>(status, cycle, vm).
       Done (status, if status \<noteq> VM_OK
         then vm\<lparr>trace := trace vm @ [Print_cycles (word_of_nat (cycle + 1))]\<rparr> else vm)))
     (run_loop envs 0 vm)"

text \<open>\<open>cycles envs vm n vm'\<close>: from \<open>vm\<close>, \<open>n\<close> cycles that the loop continues after lead to \<open>vm'\<close>.\<close>

inductive cycles :: "(nat \<Rightarrow> env) \<Rightarrow> vm \<Rightarrow> nat \<Rightarrow> vm \<Rightarrow> bool" for envs vm where
  cycles_0: "cycles envs vm 0 vm"
| cycles_Suc: "cycles envs vm n vm1 \<Longrightarrow> cpu_step (envs n) vm1 = Done (VM_OK, vm2) \<Longrightarrow> running vm2 \<Longrightarrow>
    cycles envs vm (Suc n) vm2"

inductive_cases cycles_0E [elim!]: "cycles envs vm 0 vm'"
inductive_cases cycles_SucE [elim]: "cycles envs vm (Suc n) vm'"
inductive_simps cycles_0_iff [simp]: "cycles envs vm 0 vm'"
inductive_simps cycles_Suc_iff: "cycles envs vm (Suc n) vm'"

lemma cycles_functional: "cycles envs vm n vm1 \<Longrightarrow> cycles envs vm n vm2 \<Longrightarrow> vm1 = vm2"
proof (induction n arbitrary: vm1 vm2)
  case (Suc n)
  then obtain v1 v2 where "cycles envs vm n v1" "cpu_step (envs n) v1 = Done (VM_OK, vm1)"
    "cycles envs vm n v2" "cpu_step (envs n) v2 = Done (VM_OK, vm2)"
    by (auto simp: cycles_Suc_iff)
  with Suc.IH [of v1 v2] show ?case by simp
qed auto

lemma cycles_prefix: "cycles envs vm n vm' \<Longrightarrow> m \<le> n \<Longrightarrow> \<exists>vm1. cycles envs vm m vm1"
  by (induction rule: cycles.induct) (auto simp: le_Suc_eq intro: cycles.intros)

text \<open>Every invariant of \<open>cpu_step\<close> holds along a run.\<close>

lemma cycles_invariant:
  assumes "cycles envs vm n vm'" "P vm"
    and "\<And>k vm1 vm2. cycles envs vm k vm1 \<Longrightarrow> P vm1 \<Longrightarrow> cpu_step (envs k) vm1 = Done (VM_OK, vm2) \<Longrightarrow> P vm2"
  shows "P vm'"
  using assms(1) by induction (auto intro: assms(2,3))

lemma wf_cycles: "cycles envs vm n vm' \<Longrightarrow> wf_vm vm \<Longrightarrow> wf_vm vm'"
  by (rule cycles_invariant) (auto dest: wf_cpu_step)

text \<open>The last cycle of a run.\<close>

definition stops :: "env \<Rightarrow> vm \<Rightarrow> bool" where
  "stops env vm \<longleftrightarrow> (\<forall>vm'. cpu_step env vm = Done (VM_OK, vm') \<longrightarrow> \<not> running vm')"

definition last_cycle :: "nat \<Rightarrow> result \<Rightarrow> (VM_Error \<times> nat \<times> vm) outcome" where
  "last_cycle n x = obind x (\<lambda>(status, vm). Done (status, n, vm))"

lemma run_loop_stops: "stops (envs n) vm \<Longrightarrow> run_loop envs n vm = Some (last_cycle n (cpu_step (envs n) vm))"
  by (subst run_loop.simps) (auto simp: stops_def last_cycle_def split: outcome.splits)

lemma run_loop_continues:
  "cpu_step (envs n) vm = Done (VM_OK, vm') \<Longrightarrow> running vm' \<Longrightarrow> run_loop envs n vm = run_loop envs (Suc n) vm'"
  by (subst run_loop.simps) simp

lemma run_loop_cycles: "cycles envs vm n vm' \<Longrightarrow> run_loop envs 0 vm = run_loop envs n vm'"
  by (induction rule: cycles.induct) (simp_all add: run_loop_continues)

lemma stops_or_cycles:
  "cycles envs vm n vm' \<Longrightarrow> \<not> stops (envs n) vm' \<Longrightarrow> \<exists>vm2. cycles envs vm (Suc n) vm2"
  by (auto simp: stops_def intro: cycles_Suc)

lemma run_loop_Some:
  assumes "run_loop envs k vm1 = Some x" "cycles envs vm k vm1"
  shows "\<exists>n vm'. cycles envs vm n vm' \<and> stops (envs n) vm' \<and> x = last_cycle n (cpu_step (envs n) vm')"
  using assms
proof (induction rule: run_loop.raw_induct [rotated, consumes 1, case_names step])
  case (step loop envs k vm1 x)
  show ?case
  proof (cases "stops (envs k) vm1")
    case True
    with step(2) have "x = last_cycle k (cpu_step (envs k) vm1)"
      by (auto simp: stops_def last_cycle_def split: outcome.splits if_splits)
    with True step(3) show ?thesis by blast
  next
    case False
    then obtain vm2 where "cpu_step (envs k) vm1 = Done (VM_OK, vm2)" "running vm2"
      by (auto simp: stops_def)
    with step(2,3) show ?thesis by (intro step(1) [of envs "Suc k" vm2 x]) (auto intro: cycles_Suc)
  qed
qed

lemma run_loop_iff:
  "run_loop envs 0 vm = Some x \<longleftrightarrow>
    (\<exists>n vm'. cycles envs vm n vm' \<and> stops (envs n) vm' \<and> x = last_cycle n (cpu_step (envs n) vm'))"
proof
  assume "run_loop envs 0 vm = Some x"
  then show "\<exists>n vm'. cycles envs vm n vm' \<and> stops (envs n) vm' \<and> x = last_cycle n (cpu_step (envs n) vm')"
    by (rule run_loop_Some) simp
next
  assume "\<exists>n vm'. cycles envs vm n vm' \<and> stops (envs n) vm' \<and> x = last_cycle n (cpu_step (envs n) vm')"
  then obtain n vm' where c: "cycles envs vm n vm'" and s: "stops (envs n) vm'"
    and x: "x = last_cycle n (cpu_step (envs n) vm')" by blast
  from run_loop_cycles [OF c] run_loop_stops [of envs n, OF s] x
  show "run_loop envs 0 vm = Some x" by simp
qed

lemma run_loop_None:
  "run_loop envs 0 vm = None \<longleftrightarrow> (\<forall>n. \<exists>vm'. cycles envs vm n vm')"
proof
  assume none: "run_loop envs 0 vm = None"
  have "\<exists>vm'. cycles envs vm n vm'" for n
  proof (induction n)
    case (Suc n)
    with none show ?case by (metis option.simps(3) run_loop_iff stops_or_cycles)
  qed auto
  then show "\<forall>n. \<exists>vm'. cycles envs vm n vm'" by blast
next
  assume all: "\<forall>n. \<exists>vm'. cycles envs vm n vm'"
  show "run_loop envs 0 vm = None"
  proof (rule ccontr)
    assume "run_loop envs 0 vm \<noteq> None"
    then obtain n vm' where "cycles envs vm n vm'" "stops (envs n) vm'"
      using run_loop_iff by blast
    with all show False
      by (metis cycles_Suc_iff cycles_functional stops_def)
  qed
qed

section \<open>Executing an encoded instruction\<close>

text \<open>\<open>holds_at vm p bs\<close>: the memory holds the bytes \<open>bs\<close> from address \<open>p\<close> on.\<close>

definition holds_at :: "vm \<Rightarrow> nat \<Rightarrow> u8 list \<Rightarrow> bool" where
  "holds_at vm p bs \<longleftrightarrow> take (length bs) (drop p (memory vm)) = bs"

text \<open>
  The decoder asks for the bytes of the operands and two more, and the cycle offers the
  bytes up to the last but one of the code segment.
\<close>

definition fits_at :: "nat \<Rightarrow> MODE \<Rightarrow> bool" where
  "fits_at p m \<longleftrightarrow> p + unat (decode_need m) \<le> 1023"

lemma fits_at_remaining:
  assumes "fits_at (unat (p :: u64)) m"
  shows "\<not> DATA_BASE \<le> p" "decode_need m \<le> DATA_BASE - p - 1"
proof -
  have p: "unat p \<le> 1023" using assms by (simp add: fits_at_def)
  then have "unat (DATA_BASE - p) = 1024 - unat p"
    by (simp add: DATA_BASE_def unat_sub word_le_nat_alt)
  moreover from this p have "unat (DATA_BASE - p - 1) = 1023 - unat p"
    by (simp add: unat_sub word_le_nat_alt)
  ultimately show "\<not> DATA_BASE \<le> p" "decode_need m \<le> DATA_BASE - p - 1"
    using assms p by (auto simp: DATA_BASE_def word_le_nat_alt fits_at_def)
qed

lemma holds_at_split:
  assumes "holds_at vm p bs"
  shows "drop p (memory vm) = bs @ drop (p + length bs) (memory vm)"
  by (metis append_take_drop_id assms drop_drop holds_at_def add.commute)

lemma decoded_over_fields:
  "opcode (decoded_over old instr) = opcode instr" "mode (decoded_over old instr) = mode instr"
  by (simp_all add: decoded_over_def)

lemma cpu_step_encoding:
  assumes "wf_vm vm" "opcode instr \<noteq> OP_COUNT" "mode instr \<noteq> MODE_COUNT"
    and "holds_at vm (unat (pc vm)) (encoding instr)" "fits_at (unat (pc vm)) (mode instr)"
  shows "cpu_step env vm = (case get_handler env (opcode instr) (mode instr) of
      None \<Rightarrow> Done (VM_UNKNOWN_INSTR, vm)
    | Some h \<Rightarrow> obind (h vm (decoded_over (junk_instr env) instr))
        (\<lambda>r. Done (advance (pc vm) (mode_size (mode instr)) r)))"
proof -
  have "instructionDecode (junk_instr env) (drop (unat (pc vm)) (memory vm)) (DATA_BASE - pc vm - 1) =
      Done (decoded_over (junk_instr env) instr, mode_size (mode instr))"
    unfolding holds_at_split [OF assms(4)]
    using assms(2,3) fits_at_remaining [OF assms(5)] wf_vmD(2) [OF assms(1)]
    by (intro instructionDecode_encoding) simp_all
  then show ?thesis
    using fits_at_remaining [OF assms(5)] assms(3)
    by (simp add: cpu_step_def decoded_over_fields advance_fun Let_def split: option.split)
qed

lemma cpu_step_handler:
  assumes "wf_vm vm" "holds_at vm (unat (pc vm)) (encoding instr)" "fits_at (unat (pc vm)) (mode instr)"
    and "get_handler env (opcode instr) (mode instr) = Some h"
  shows "cpu_step env vm = obind (h vm (decoded_over (junk_instr env) instr))
    (\<lambda>r. Done (advance (pc vm) (mode_size (mode instr)) r))"
proof -
  have "opcode instr \<noteq> OP_COUNT" "mode instr \<noteq> MODE_COUNT"
    using assms(4) by (auto simp: get_handler_def split: if_splits)
  from cpu_step_encoding [OF assms(1) this assms(2,3)] assms(4) show ?thesis by simp
qed

lemma fetched_encoding:
  assumes "wf_vm vm" "holds_at vm (unat (pc vm)) (encoding instr)" "fits_at (unat (pc vm)) (mode instr)"
    and "get_handler env (opcode instr) (mode instr) = Some h"
  shows "fetched env vm = Some (decoded_over (junk_instr env) instr, h)"
proof -
  have "opcode instr \<noteq> OP_COUNT" "mode instr \<noteq> MODE_COUNT"
    using assms(4) by (auto simp: get_handler_def split: if_splits)
  moreover from this have "instructionDecode (junk_instr env) (drop (unat (pc vm)) (memory vm)) (DATA_BASE - pc vm - 1) =
      Done (decoded_over (junk_instr env) instr, mode_size (mode instr))"
    unfolding holds_at_split [OF assms(2)]
    using fits_at_remaining [OF assms(3)] wf_vmD(2) [OF assms(1)]
    by (intro instructionDecode_encoding) simp_all
  ultimately show ?thesis
    using fits_at_remaining [OF assms(3)] assms(4) by (simp add: fetched_def decoded_over_fields)
qed

section \<open>Straight-line code ends\<close>

lemma fetched_pc: "fetched env vm = Some (instr, h) \<Longrightarrow> unat (pc vm) < 1024"
  by (auto simp: fetched_def DATA_BASE_def not_le word_less_nat_alt split: if_splits)

lemma fetched_mode: "fetched env vm = Some (instr, h) \<Longrightarrow> mode instr \<noteq> MODE_COUNT"
  by (auto simp: fetched_def split: if_splits outcome.splits prod.splits)

lemma cpu_step_advances:
  assumes "wf_vm vm" "cpu_step env vm = Done (VM_OK, vm')" "fetched env vm = Some (instr, h)"
    and "\<not> transfers (opcode instr)"
  shows "unat (pc vm') = unat (pc vm) + unat (mode_size (mode instr))"
  using assms(2)
proof (cases rule: cpu_step_cases)
  case (executed instr' h' vm1)
  have e: "instr' = instr" "h' = h" using executed(1) assms(3) by simp_all
  have "pc vm1 = pc vm"
    using post_DoneD [OF pc_handler [OF assms(1) executed(2)] executed(3)] assms(4) e by simp
  moreover have "unat (pc vm) + unat (mode_size (mode instr)) < 2 ^ 64"
    using fetched_pc [OF assms(3)] mode_size_bounds [OF fetched_mode [OF assms(3)]] by simp
  ultimately show ?thesis
    using executed(4) e by (simp add: advance_def unat_word_ariths)
qed simp

lemma straight_cycles:
  assumes "wf_vm vm" "cycles envs vm n vm'"
    and "\<And>k vm1 instr h. cycles envs vm k vm1 \<Longrightarrow> fetched (envs k) vm1 = Some (instr, h) \<Longrightarrow>
      \<not> transfers (opcode instr)"
  shows "unat (pc vm) + 2 * n \<le> unat (pc vm')"
  using assms(2)
proof induction
  case (cycles_Suc n vm1 vm2)
  have wf: "wf_vm vm1" using cycles_Suc.hyps(1) assms(1) by (rule wf_cycles)
  have "fetched (envs n) vm1 \<noteq> None"
    using cpu_step_unfetched [of "envs n" vm1] cycles_Suc.hyps(2) by fastforce
  then obtain instr h where f: "fetched (envs n) vm1 = Some (instr, h)" by auto
  from cpu_step_advances [OF wf cycles_Suc.hyps(2) f] assms(3) [OF cycles_Suc.hyps(1) f]
    mode_size_bounds [OF fetched_mode [OF f]] cycles_Suc.IH
  show ?case by simp
qed simp

lemma straight_line_bound:
  assumes "wf_vm vm" "cycles envs vm (Suc n) vm'"
    and "\<And>k vm1 instr h. cycles envs vm k vm1 \<Longrightarrow> fetched (envs k) vm1 = Some (instr, h) \<Longrightarrow>
      \<not> transfers (opcode instr)"
  shows "unat (pc vm) + 2 * n < 1024"
proof -
  obtain vm1 where c: "cycles envs vm n vm1" and s: "cpu_step (envs n) vm1 = Done (VM_OK, vm')"
    using assms(2) by (auto simp: cycles_Suc_iff)
  from s have "fetched (envs n) vm1 \<noteq> None"
    using cpu_step_unfetched [of "envs n" vm1] by fastforce
  then obtain instr h where "fetched (envs n) vm1 = Some (instr, h)" by auto
  moreover have "unat (pc vm) + 2 * n \<le> unat (pc vm1)"
    by (rule straight_cycles [OF assms(1) c]) (rule assms(3))
  ultimately show ?thesis using fetched_pc by fastforce
qed

section \<open>The code segment along a run\<close>

definition safe_code :: "env \<Rightarrow> vm \<Rightarrow> bool" where
  "safe_code env vm \<longleftrightarrow> (case fetched env vm of None \<Rightarrow> True
     | Some (instr, h) \<Rightarrow> \<not> may_write_code (opcode instr) (mode instr) vm)"

lemma code_cpu_step:
  assumes "cpu_step env vm = Done (st, vm')" "wf_vm vm" "safe_code env vm"
  shows "code vm' = code vm"
  using assms(1)
proof (cases rule: cpu_step_cases)
  case (executed instr h vm1)
  have "\<not> may_write_code (opcode instr) (mode instr) vm"
    using assms(3) executed(1) by (simp add: safe_code_def)
  from post_DoneD [OF keeps_handler [OF assms(2) executed(2) this] executed(3)] executed(4)
  show ?thesis by simp
qed simp

lemma code_cycles:
  assumes "cycles envs vm n vm'" "wf_vm vm"
    and "\<And>k vm1. cycles envs vm k vm1 \<Longrightarrow> safe_code (envs k) vm1"
  shows "code vm' = code vm"
  using assms(1)
  by (rule cycles_invariant) (auto dest: code_cpu_step wf_cycles [OF _ assms(2)] assms(3))

end
