(* ===== verification/Stack.thy ===== *)
theory Stack
  imports Cpu
begin

text \<open>
  The stack segment as an abstract stack of words: PUSH and POP of
  \<^verbatim>\<open>src/runtime/instructions.c\<close> implement a bounded stack, CALL and RTN push and pop the
  return address. The contract is the locale \<open>bounded_stack\<close>; the machine interprets it.
\<close>

unbundle bit_operations_syntax

section \<open>The contract of a bounded stack\<close>

locale bounded_stack =
  fixes push :: "'s \<Rightarrow> 'v \<Rightarrow> (VM_Error \<times> 's) outcome"
    and pop :: "'s \<Rightarrow> (VM_Error \<times> 's) outcome"
    and top :: "'s \<Rightarrow> 'v"
    and content :: "'s \<Rightarrow> 'v list"
    and room :: "'s \<Rightarrow> nat"
    and inv :: "'s \<Rightarrow> bool"
  assumes push_content: "inv s \<Longrightarrow> room s \<noteq> 0 \<Longrightarrow>
      \<exists>s'. push s v = Done (VM_OK, s') \<and> content s' = v # content s \<and> inv s' \<and> Suc (room s') = room s"
    and push_full: "inv s \<Longrightarrow> room s = 0 \<Longrightarrow> push s v = Done (VM_STACK_OVERFLOW, s)"
    and pop_content: "inv s \<Longrightarrow> content s = v # vs \<Longrightarrow>
      \<exists>s'. pop s = Done (VM_OK, s') \<and> top s' = v \<and> content s' = vs \<and> inv s' \<and> room s' = Suc (room s)"
    and pop_empty: "inv s \<Longrightarrow> content s = [] \<Longrightarrow> pop s = Done (VM_STACK_UNDERFLOW, s)"
begin

fun push_all :: "'v list \<Rightarrow> 's \<Rightarrow> (VM_Error \<times> 's) outcome" where
  "push_all [] s = Done (VM_OK, s)"
| "push_all (v # vs) s = obind (push s v) (\<lambda>(st, s). if st \<noteq> VM_OK then Done (st, s) else push_all vs s)"

fun pop_all :: "nat \<Rightarrow> 's \<Rightarrow> (VM_Error \<times> 'v list \<times> 's) outcome" where
  "pop_all 0 s = Done (VM_OK, [], s)"
| "pop_all (Suc n) s = obind (pop s) (\<lambda>(st, s).
     if st \<noteq> VM_OK then Done (st, [], s)
     else obind (pop_all n s) (\<lambda>(st, vs, s'). Done (st, top s # vs, s')))"

lemma push_all_content:
  "inv s \<Longrightarrow> length vs \<le> room s \<Longrightarrow> \<exists>s'. push_all vs s = Done (VM_OK, s') \<and>
    content s' = rev vs @ content s \<and> inv s' \<and> room s' + length vs = room s"
proof (induction vs arbitrary: s)
  case (Cons v vs)
  obtain s1 where s1: "push s v = Done (VM_OK, s1)" "content s1 = v # content s" "inv s1"
    "Suc (room s1) = room s"
    using push_content [OF Cons.prems(1), of v] Cons.prems(2) by auto
  with Cons.IH [of s1] Cons.prems(2) show ?case by auto
qed simp

lemma push_all_overflow:
  "inv s \<Longrightarrow> room s < length vs \<Longrightarrow> \<exists>s'. push_all vs s = Done (VM_STACK_OVERFLOW, s') \<and>
    content s' = rev (take (room s) vs) @ content s"
proof (induction vs arbitrary: s)
  case (Cons v vs)
  show ?case
  proof (cases "room s")
    case 0
    with push_full [OF Cons.prems(1)] show ?thesis by simp
  next
    case (Suc r)
    then obtain s1 where "push s v = Done (VM_OK, s1)" "content s1 = v # content s" "inv s1"
      "Suc (room s1) = room s"
      using push_content [OF Cons.prems(1), of v] by auto
    with Cons.IH [of s1] Cons.prems(2) Suc show ?thesis by auto
  qed
qed simp

lemma pop_all_content:
  "inv s \<Longrightarrow> content s = vs @ rest \<Longrightarrow> \<exists>s'. pop_all (length vs) s = Done (VM_OK, vs, s') \<and>
    content s' = rest \<and> inv s' \<and> room s' = room s + length vs"
proof (induction vs arbitrary: s)
  case (Cons v vs)
  obtain s1 where s1: "pop s = Done (VM_OK, s1)" "top s1 = v" "content s1 = vs @ rest" "inv s1"
    "room s1 = Suc (room s)"
    using pop_content [OF Cons.prems(1), of v "vs @ rest"] Cons.prems(2) by auto
  with Cons.IH [of s1] show ?case by auto
qed simp

lemma lifo:
  assumes "inv s" "length vs \<le> room s"
  shows "\<exists>s1 s2. push_all vs s = Done (VM_OK, s1) \<and> pop_all (length vs) s1 = Done (VM_OK, rev vs, s2) \<and>
    content s2 = content s \<and> room s2 = room s"
proof -
  obtain s1 where s1: "push_all vs s = Done (VM_OK, s1)" "content s1 = rev vs @ content s" "inv s1"
    "room s1 + length vs = room s"
    using push_all_content [OF assms] by auto
  with pop_all_content [OF s1(3,2)] show ?thesis by auto
qed

end

section \<open>The stack segment\<close>

text \<open>The words between the stack pointer and the end of the memory, the top first.\<close>

definition stack_of :: "vm \<Rightarrow> u64 list" where
  "stack_of vm = map (\<lambda>k. cell (memory vm) (unat (sp vm) + 8 * k)) [0..<(2048 - unat (sp vm)) div 8]"

definition stack_room :: "vm \<Rightarrow> nat" where
  "stack_room vm = (unat (sp vm) - 1536) div 8"

definition push_imm :: "u64 \<Rightarrow> instruction" where
  "push_imm v = \<lparr>opcode = OP_PUSH, mode = MODE_IMM, ins_a = 0, ins_b = 0, args = v\<rparr>"

lemma stack_of_updates [simp]:
  "stack_of (vm\<lparr>pc := p\<rparr>) = stack_of vm" "stack_of (vm\<lparr>registers := rs\<rparr>) = stack_of vm"
  "stack_of (vm\<lparr>sr := s\<rparr>) = stack_of vm" "stack_of (vm\<lparr>running := b\<rparr>) = stack_of vm"
  "stack_of (vm\<lparr>trace := t\<rparr>) = stack_of vm" "stack_of (vm\<lparr>memblocks := ns\<rparr>) = stack_of vm"
  by (simp_all add: stack_of_def)

lemma stack_of_pushed:
  assumes "wf_vm vm" "\<not> sp vm \<le> STACK_BASE"
  shows "stack_of (vm\<lparr>sp := sp vm - 8, memory := overlay (unat (sp vm - 8)) (bytes_le 8 v) (memory vm)\<rparr>) =
    v # stack_of vm"
proof -
  note s = sp_ok_push [OF wf_vmD(3) [OF assms(1)] assms(2)]
  have hi: "unat (sp vm) \<le> 2048" using wf_vmD(3) [OF assms(1)] by (simp add: sp_ok_def)
  have len: "length (memory vm) = 2048" using assms(1) by (rule wf_vmD)
  let ?p = "unat (sp vm) - 8" and ?m = "overlay (unat (sp vm) - 8) (bytes_le 8 v) (memory vm)"
  have n: "(2048 - ?p) div 8 = Suc ((2048 - unat (sp vm)) div 8)"
    using s(3) hi by (simp add: Suc_diff_le)
  have "map (\<lambda>k. cell ?m (?p + 8 * k)) [0..<Suc ((2048 - unat (sp vm)) div 8)] =
      cell ?m ?p # map (\<lambda>k. cell ?m (?p + 8 * Suc k)) [0..<(2048 - unat (sp vm)) div 8]"
    by (simp add: upt_conv_Cons map_Suc_upt [symmetric] del: upt_Suc)
  moreover have "cell ?m ?p = v" using s(3) hi len by (intro cell_overlay_same) simp
  moreover have "cell ?m (?p + 8 * Suc k) = cell (memory vm) (unat (sp vm) + 8 * k)"
    if "k < (2048 - unat (sp vm)) div 8" for k
  proof -
    have "?p + 8 * Suc k = unat (sp vm) + 8 * k" using s(3) by simp
    moreover have "unat (sp vm) + 8 * k + 8 \<le> 2048" using that hi by linarith
    ultimately show ?thesis using s(3) len by (simp add: cell_overlay_apart)
  qed
  ultimately show ?thesis by (simp add: stack_of_def s(2) n)
qed

lemma stack_of_popped:
  assumes "wf_vm vm" "\<not> MEM_SIZE \<le> sp vm"
  shows "stack_of vm = cell (memory vm) (unat (sp vm)) # stack_of (vm\<lparr>sp := sp vm + 8\<rparr>)"
proof -
  note s = sp_ok_pop [OF wf_vmD(3) [OF assms(1)] assms(2)]
  have n: "(2048 - unat (sp vm)) div 8 = Suc ((2048 - (unat (sp vm) + 8)) div 8)"
    using s(3) by simp
  show ?thesis
    unfolding stack_of_def n s(2)
    by (simp add: s(2) upt_conv_Cons map_Suc_upt [symmetric] add.assoc del: upt_Suc)
qed

lemma stack_empty_iff:
  assumes "wf_vm vm"
  shows "stack_of vm = [] \<longleftrightarrow> MEM_SIZE \<le> sp vm"
  using wf_vmD(3) [OF assms]
  by (cases "MEM_SIZE \<le> sp vm")
    (auto simp: stack_of_popped [OF assms], auto simp: stack_of_def sp_ok_def MEM_SIZE_def word_le_nat_alt)

lemma stack_full_iff:
  assumes "wf_vm vm"
  shows "stack_room vm = 0 \<longleftrightarrow> sp vm \<le> STACK_BASE"
proof -
  have "unat (sp vm) mod 8 = 0" "1536 \<le> unat (sp vm)"
    using wf_vmD(3) [OF assms] by (simp_all add: sp_ok_def)
  then show ?thesis unfolding stack_room_def STACK_BASE_def word_le_nat_alt
    by (simp add: div_eq_0_iff) presburger
qed

lemma push_word_stack:
  assumes "wf_vm vm" "\<not> sp vm \<le> STACK_BASE"
  shows "\<exists>vm'. push_word vm v = Done (VM_OK, vm') \<and> stack_of vm' = v # stack_of vm \<and> wf_vm vm' \<and>
    Suc (stack_room vm') = stack_room vm \<and> code vm' = code vm \<and> registers vm' = registers vm"
proof -
  note s = sp_ok_push [OF wf_vmD(3) [OF assms(1)] assms(2)]
  have "Suc ((unat (sp vm) - 8 - 1536) div 8) = (unat (sp vm) - 1536) div 8"
    using s(3) by (simp add: le_div_geq)
  moreover from keeps_push_word [OF assms, of v] push_word_Done [OF assms, of v]
  have "wf_vm (vm\<lparr>sp := sp vm - 8, memory := overlay (unat (sp vm - 8)) (bytes_le 8 v) (memory vm)\<rparr>)"
    "code (vm\<lparr>sp := sp vm - 8, memory := overlay (unat (sp vm - 8)) (bytes_le 8 v) (memory vm)\<rparr>) = code vm"
    by simp_all
  ultimately show ?thesis
    using push_word_Done [OF assms, of v] stack_of_pushed [OF assms, of v] s(2)
    by (simp add: stack_room_def)
qed

interpretation machine_stack: bounded_stack
  "\<lambda>vm v. instrPUSH vm (push_imm v)" "\<lambda>vm. instrPOP vm pop_instr" "\<lambda>vm. reg vm 0"
  stack_of stack_room wf_vm
proof
  show "\<exists>s'. instrPUSH s (push_imm v) = Done (VM_OK, s') \<and> stack_of s' = v # stack_of s \<and> wf_vm s' \<and>
      Suc (stack_room s') = stack_room s" if "wf_vm s" "stack_room s \<noteq> 0" for s v
    using push_word_stack [OF that(1), of v] that stack_full_iff [OF that(1)]
    by (auto simp: instrPUSH_def push_imm_def N_REG_def)
  show "instrPUSH s (push_imm v) = Done (VM_STACK_OVERFLOW, s)"
    if "wf_vm s" "stack_room s = 0" for s v
    using that stack_full_iff [OF that(1)] by (simp add: instrPUSH_def)
  show "\<exists>s'. instrPOP s pop_instr = Done (VM_OK, s') \<and> reg s' 0 = v \<and> stack_of s' = vs \<and> wf_vm s' \<and>
      stack_room s' = Suc (stack_room s)" if "wf_vm s" "stack_of s = v # vs" for s v vs
  proof -
    have sp: "\<not> MEM_SIZE \<le> sp s" using stack_empty_iff [OF that(1)] that(2) by auto
    note p = sp_ok_pop [OF wf_vmD(3) [OF that(1)] sp]
    have "1536 \<le> unat (sp s)" using wf_vmD(3) [OF that(1)] by (simp add: sp_ok_def)
    then have "stack_room (s\<lparr>sp := sp s + 8\<rparr>) = Suc (stack_room s)"
      by (simp add: stack_room_def p(2))
    with that stack_of_popped [OF that(1) sp] instrPOP_Done [OF that(1) sp, of pop_instr] at_sp(2) [OF that(1) sp]
    show ?thesis by (simp add: pop_instr_def N_REG_def stack_room_def wf_vm_def stack_of_def)
  qed
  show "instrPOP s pop_instr = Done (VM_STACK_UNDERFLOW, s)" if "wf_vm s" "stack_of s = []" for s
    using that stack_empty_iff [OF that(1)] by (simp add: instrPOP_def)
qed

section \<open>CALL and RTN\<close>

lemma call_to_stack:
  assumes "wf_vm vm" "\<not> sp vm \<le> STACK_BASE" "mode i \<noteq> MODE_COUNT"
  shows "\<exists>vm'. call_to i target vm = Done (VM_OK, vm') \<and> wf_vm vm' \<and> pc vm' = target \<and>
    stack_of vm' = (pc vm + mode_size (mode i)) # stack_of vm \<and> code vm' = code vm"
proof -
  obtain vm1 where "push_word vm (pc vm + mode_size (mode i)) = Done (VM_OK, vm1)"
    "stack_of vm1 = (pc vm + mode_size (mode i)) # stack_of vm" "wf_vm vm1" "code vm1 = code vm"
    using push_word_stack [OF assms(1,2)] by blast
  then show ?thesis
    using assms(3) by (auto simp: push_word_def call_to_def Let_def obind_Done_iff split: if_splits)
qed

text \<open>A small address is the same number signed and unsigned.\<close>

lemma small_not_sle: "unat (x :: u64) < 1024 \<Longrightarrow> \<not> DATA_BASE \<le>s x"
  using sint_small [of x] by (simp add: word_sle_eq DATA_BASE_def del: of_nat_unat)

text \<open>The addresses RTN accepts: those below \<open>DATA_BASE\<close> as signed numbers.\<close>

lemma instrRTN_stack:
  assumes "wf_vm vm" "stack_of vm = ra # rest" "sint ra < 1024"
  shows "\<exists>vm'. instrRTN vm i = Done (VM_OK, vm') \<and> pc vm' = ra \<and> stack_of vm' = rest \<and> wf_vm vm'"
proof -
  have sp: "\<not> MEM_SIZE \<le> sp vm" using stack_empty_iff [OF assms(1)] assms(2) by auto
  with stack_of_popped [OF assms(1) sp] at_sp [OF assms(1) sp] assms wf_vmD(2) [OF assms(1)]
  show ?thesis
    by (simp add: instrRTN_def memRead64_in_ram DATA_BASE_def word_sle_eq wf_vm_def)
      (simp add: stack_of_def)
qed

lemma stack_initVM: "stack_room (initVM vm) = 64" "stack_of (initVM vm) = []"
  by (simp_all add: stack_room_def stack_of_def initVM_def MEM_SIZE_def)

lemma stack_length: "wf_vm vm \<Longrightarrow> length (stack_of vm) + stack_room vm = 64"
proof -
  assume "wf_vm vm"
  then have s: "unat (sp vm) mod 8 = 0" "1536 \<le> unat (sp vm)" "unat (sp vm) \<le> 2048"
    using wf_vmD(3) [of vm] by (simp_all add: sp_ok_def)
  then obtain k where k: "unat (sp vm) = 8 * k" by (auto simp: mod_eq_0_iff_dvd elim: dvdE)
  with s have "192 \<le> k" "k \<le> 256" by simp_all
  moreover have "(2048 - 8 * k) div 8 = 256 - k" "(8 * k - 1536) div 8 = k - 192"
    using diff_mult_distrib2 [of 8 256 k] diff_mult_distrib2 [of 8 k 192]
    by (simp_all add: div_mult_self1_is_m [of 8, symmetric] del: right_diff_distrib_numeral)
  ultimately show "length (stack_of vm) + stack_room vm = 64"
    by (simp add: stack_of_def stack_room_def k)
qed

section \<open>Properties\<close>

text \<open>
  C23: the stack is last-in first-out and bounded by 64 words. A run of PUSHes that fits
  the room left succeeds, and as many POPs give the values back in reverse order, with the
  stack as it was.
\<close>

theorem stack_lifo:
  assumes "wf_vm vm" "length vs \<le> stack_room vm"
  shows "\<exists>vm1 vm2. machine_stack.push_all vs vm = Done (VM_OK, vm1) \<and>
    machine_stack.pop_all (length vs) vm1 = Done (VM_OK, rev vs, vm2) \<and>
    stack_of vm2 = stack_of vm \<and> stack_room vm2 = stack_room vm"
  using assms by (rule machine_stack.lifo)

theorem stack_lifo_witness:
  "\<exists>vm1 vm2. machine_stack.push_all [1, 2, 3] (initVM raw_vm) = Done (VM_OK, vm1) \<and>
    machine_stack.pop_all (length [1, 2, 3 :: u64]) vm1 = Done (VM_OK, rev [1, 2, 3], vm2)"
proof -
  have "length [1, 2, 3 :: u64] \<le> stack_room (initVM raw_vm)" by (simp add: stack_initVM)
  from stack_lifo [OF wf_initVM this] show ?thesis by blast
qed

text \<open>
  C24: a run of PUSHes longer than the room left stops at the first that does not fit, with
  \<open>VM_STACK_OVERFLOW\<close> and the values before it on the stack; POP on the empty stack reports
  \<open>VM_STACK_UNDERFLOW\<close> and changes nothing.
\<close>

theorem stack_bounds:
  assumes "wf_vm vm"
  shows "length (stack_of vm) + stack_room vm = 64 \<and>
    (stack_room vm < length vs \<longrightarrow> (\<exists>vm'. machine_stack.push_all vs vm = Done (VM_STACK_OVERFLOW, vm') \<and>
      stack_of vm' = rev (take (stack_room vm) vs) @ stack_of vm)) \<and>
    (stack_of vm = [] \<longrightarrow> instrPOP vm pop_instr = Done (VM_STACK_UNDERFLOW, vm))"
  using stack_length [OF assms] machine_stack.push_all_overflow [OF assms, of vs]
    machine_stack.pop_empty [OF assms] by simp

theorem stack_bounds_witness:
  "(\<exists>vm'. machine_stack.push_all (replicate 65 7) (initVM raw_vm) = Done (VM_STACK_OVERFLOW, vm')) \<and>
    instrPOP (initVM raw_vm) pop_instr = Done (VM_STACK_UNDERFLOW, initVM raw_vm)"
proof -
  have "stack_room (initVM raw_vm) < length (replicate 65 (7 :: u64))" by (simp add: stack_initVM)
  with stack_bounds [OF wf_initVM, of raw_vm "replicate 65 7"] stack_initVM(2) [of raw_vm]
  show ?thesis by blast
qed

text \<open>
  C25: CALL and RTN match. CALL pushes the address of the instruction after it and goes to
  its target; whenever the stack is later what CALL left, RTN goes to that address and
  leaves the stack as it was before the CALL.
\<close>

theorem call_return:
  assumes "wf_vm vm" "instrCALL vm i = Done (VM_OK, vm1)"
    and "unat (pc vm) + unat (mode_size (mode i)) < 1024"
    and "wf_vm vm2" "stack_of vm2 = stack_of vm1"
  shows "pc vm1 = args i \<and> (\<exists>vm3. instrRTN vm2 j = Done (VM_OK, vm3) \<and>
    pc vm3 = pc vm + mode_size (mode i) \<and> stack_of vm3 = stack_of vm)"
proof -
  have c: "call_to i (args i) vm = Done (VM_OK, vm1)" "\<not> sp vm \<le> STACK_BASE"
    using assms(2) by (auto simp: instrCALL_def split: if_splits)
  then have "mode i \<noteq> MODE_COUNT" by (auto simp: call_to_def Let_def)
  with call_to_stack [OF assms(1) c(2), of i "args i"] c(1)
  have s: "pc vm1 = args i" "stack_of vm1 = (pc vm + mode_size (mode i)) # stack_of vm" by auto
  have ra: "unat (pc vm + mode_size (mode i)) < 1024" using assms(3) by (simp add: unat_word_ariths)
  then have "\<not> DATA_BASE \<le>s pc vm + mode_size (mode i)" by (rule small_not_sle)
  then have "sint (pc vm + mode_size (mode i)) < 1024" by (simp add: word_sle_eq DATA_BASE_def)
  with instrRTN_stack [OF assms(4), of "pc vm + mode_size (mode i)" "stack_of vm" j] assms(5) s
  show ?thesis by auto
qed

theorem call_return_witness:
  "\<exists>vm1 vm3. instrCALL (initVM raw_vm) \<lparr>opcode = OP_CALL, mode = MODE_IMM, ins_a = 0, ins_b = 0, args = 100\<rparr> =
      Done (VM_OK, vm1) \<and> pc vm1 = 100 \<and> instrRTN vm1 pop_instr = Done (VM_OK, vm3) \<and> pc vm3 = 11"
proof -
  let ?i = "\<lparr>opcode = OP_CALL, mode = MODE_IMM, ins_a = 0, ins_b = 0, args = 100 :: u64\<rparr>"
  have pc: "pc (initVM raw_vm) = 0" "\<not> sp (initVM raw_vm) \<le> STACK_BASE"
    by (simp_all add: initVM_def memory_map)
  then have "instrCALL (initVM raw_vm) ?i = call_to ?i 100 (initVM raw_vm)"
    by (simp add: instrCALL_def DATA_BASE_def)
  with call_to_stack [OF wf_initVM pc(2), of ?i 100] obtain vm1
    where vm1: "instrCALL (initVM raw_vm) ?i = Done (VM_OK, vm1)" "wf_vm vm1" by auto
  from call_return [OF wf_initVM vm1(1) _ vm1(2) refl, of pop_instr] pc(1) vm1 show ?thesis by auto
qed

end
