(* ===== verification/Traps.thy ===== *)
theory Traps
  imports Stack
begin

text \<open>
  The system calls behind TRAP against the abstract stack: each takes its arguments from the
  stack of words, the top first, and leaves its answer in register 0.
\<close>

unbundle bit_operations_syntax

section \<open>Arguments\<close>

text \<open>The machine after the top word of the stack went to register 0.\<close>

definition popped :: "vm \<Rightarrow> vm" where
  "popped vm = vm\<lparr>registers := (registers vm)[0 := hd (stack_of vm)], sp := sp vm + 8\<rparr>"

lemma popping_stack:
  assumes "wf_vm vm" "stack_of vm = v # rest"
  shows "popping vm k = k (popped vm)" "reg (popped vm) 0 = v" "stack_of (popped vm) = rest"
    "wf_vm (popped vm)" "memory (popped vm) = memory vm" "trace (popped vm) = trace vm"
    "memblocks (popped vm) = memblocks vm" "code (popped vm) = code vm"
proof -
  have sp: "\<not> MEM_SIZE \<le> sp vm" using stack_empty_iff [OF assms(1)] assms(2) by auto
  note p = stack_of_popped [OF assms(1) sp] at_sp [OF assms(1) sp]
  then have v: "cell (memory vm) (unat (sp vm)) = v" "stack_of (vm\<lparr>sp := sp vm + 8\<rparr>) = rest"
    using assms(2) by simp_all
  have "instrPOP vm pop_instr = Done (VM_OK, popped vm)"
    using instrPOP_Done [OF assms(1) sp, of pop_instr] v assms(2)
    by (simp add: pop_instr_def N_REG_def popped_def)
  then show "popping vm k = k (popped vm)" by (simp add: popping_def)
  show "reg (popped vm) 0 = v" "memory (popped vm) = memory vm" "trace (popped vm) = trace vm"
    "memblocks (popped vm) = memblocks vm" "code (popped vm) = code vm"
    using assms by (simp_all add: popped_def wf_vm_def)
  show "stack_of (popped vm) = rest"
    using v(2) by (simp add: popped_def stack_of_def)
  show "wf_vm (popped vm)" using p(3) by (simp add: popped_def wf_vm_def)
qed

lemma popping_empty:
  assumes "wf_vm vm" "stack_of vm = []"
  shows "popping vm k = Done (VM_STACK_UNDERFLOW, vm)"
  using machine_stack.pop_empty [OF assms] by (simp add: popping_def)

text \<open>Two and three arguments.\<close>

lemma popping2:
  assumes "wf_vm vm" "stack_of vm = v # w # rest"
  shows "reg (popped vm) 0 = v" "reg (popped (popped vm)) 0 = w" "stack_of (popped (popped vm)) = rest"
    "wf_vm (popped vm)" "wf_vm (popped (popped vm))" "memory (popped (popped vm)) = memory vm"
    "trace (popped (popped vm)) = trace vm" "code (popped (popped vm)) = code vm"
    "popping vm k = k (popped vm)" "popping (popped vm) k = k (popped (popped vm))"
  using popping_stack [OF assms] popping_stack [OF popping_stack(4,3) [OF assms]] by simp_all

lemma popping3:
  assumes "wf_vm vm" "stack_of vm = u # v # w # rest"
  shows "reg (popped vm) 0 = u" "reg (popped (popped vm)) 0 = v" "reg (popped (popped (popped vm))) 0 = w"
    "stack_of (popped (popped (popped vm))) = rest" "wf_vm (popped (popped (popped vm)))"
    "memory (popped (popped (popped vm))) = memory vm" "trace (popped (popped (popped vm))) = trace vm"
    "popping vm k = k (popped vm)" "popping (popped vm) k = k (popped (popped vm))"
    "popping (popped (popped vm)) k = k (popped (popped (popped vm)))"
  using popping2 [OF assms] popping_stack [OF popping2(5,3) [OF assms]] by simp_all

lemma instrTRAP_call:
  assumes "trap_number vm = n" "dispatchSyscalls n = Some h" "0 \<le> n" "n < 32"
  shows "instrTRAP env vm i = h env vm"
  using assms by (simp add: instrTRAP_def Let_def trap_number_def)

text \<open>
  TRAP by its number, the low 32 bits of register 0 as a signed number. From 0 to 16, but
  for 2, a system call runs; 2 and 17 to 31 report \<open>VM_UNKNOWN_SYSCALL\<close>; any other number
  indexes the table out of its bounds.
\<close>

lemma trap_classified:
  "(trap_number vm < 0 \<or> 32 \<le> trap_number vm \<longrightarrow> instrTRAP env vm i = Undefined) \<and>
   (trap_number vm = 2 \<or> 17 \<le> trap_number vm \<and> trap_number vm < 32 \<longrightarrow>
      instrTRAP env vm i = Done (VM_UNKNOWN_SYSCALL, vm)) \<and>
   (0 \<le> trap_number vm \<and> trap_number vm \<le> 16 \<and> trap_number vm \<noteq> 2 \<longrightarrow>
      (\<exists>h. dispatchSyscalls (trap_number vm) = Some h \<and> instrTRAP env vm i = h env vm))"
proof -
  have "dispatchSyscalls (trap_number vm) = None"
    if "trap_number vm = 2 \<or> 17 \<le> trap_number vm"
    using that by (auto simp: dispatchSyscalls_def)
  moreover have "dispatchSyscalls (trap_number vm) \<noteq> None"
    if "0 \<le> trap_number vm \<and> trap_number vm \<le> 16 \<and> trap_number vm \<noteq> 2"
  proof -
    have "trap_number vm \<in> {0, 1, 3, 4, 5, 6, 7, 8, 9, 10, 11, 12, 13, 14, 15, 16}"
      using that by (simp only: insert_iff empty_iff) presburger
    then show ?thesis by (auto simp: dispatchSyscalls_def)
  qed
  ultimately show ?thesis
    by (auto simp: instrTRAP_def Let_def trap_number_def)
qed

section \<open>Properties\<close>

text \<open>
  WRITE takes the descriptor, the address and the size from the stack, hands exactly those
  bytes of the memory to the kernel once, and puts the kernel's answer in register 0; the
  memory is unchanged.
\<close>

theorem write_call:
  assumes "wf_vm vm" "stack_of vm = fd # addr # sz # rest" "unat addr + unat sz \<le> 2048" "trap_number vm = 0"
  shows "\<exists>vm'. instrTRAP env vm i = Done (VM_OK, vm') \<and>
    trace vm' = trace vm @ [Write (ucast fd) (take (unat sz) (drop (unat addr) (memory vm)))] \<and>
    reg vm' 0 = ret (os env (trace vm')) \<and> memory vm' = memory vm \<and> stack_of vm' = rest"
proof -
  note p = popping3 [OF assms(1,2)]
  have len: "length (memory vm) = 2048" using assms(1) by (rule wf_vmD)
  have "instrTRAP env vm i = syscallWRITE_FILE env vm"
    by (rule instrTRAP_call [OF assms(4)]) (simp_all add: dispatchSyscalls_def)
  moreover have "length (registers (popped (popped (popped vm)))) = 2" using p(5) by (rule wf_vmD)
  ultimately show ?thesis
    using assms(3) len p
    by (simp add: syscallWRITE_FILE_def Let_def mem_ptr_def load_bytes_Done calling_def)
qed

lemma stack_three:
  "\<exists>vm'. machine_stack.push_all [w, v, u] (initVM raw_vm) = Done (VM_OK, vm') \<and> wf_vm vm' \<and>
    stack_of vm' = [u, v, w]"
  using machine_stack.push_all_content [OF wf_initVM, of "[w, v, u]" raw_vm] by (auto simp: stack_initVM)

lemma stack_with_trap:
  "\<exists>vm'. wf_vm vm' \<and> stack_of vm' = [u, v, w] \<and> trap_number vm' = sint (ucast (n :: u64) :: u32)"
proof -
  obtain vm1 where "wf_vm vm1" "stack_of vm1 = [u, v, w]" using stack_three by blast
  moreover from this have "length (registers vm1) = 2" by (simp add: wf_vm_def)
  ultimately show ?thesis
    by (intro exI [of _ "set_reg 0 n vm1"]) (simp add: trap_number_def)
qed

theorem write_call_witness:
  "\<exists>vm vm'. instrTRAP idle_env vm pop_instr = Done (VM_OK, vm') \<and>
    trace vm' = trace vm @ [Write 1 (take 4 (drop 1280 (memory vm)))]"
proof -
  obtain vm where "wf_vm vm" "stack_of vm = [1, 1280, 4]" "trap_number vm = 0"
    using stack_with_trap [of 1 1280 4 0] by auto
  from write_call [OF this(1,2) _ this(3), of idle_env pop_instr] show ?thesis by auto
qed

lemma fresh_heap_call:
  "\<exists>vm. wf_vm vm \<and> stack_of vm = [n] \<and> trap_number vm = sint (ucast (t :: u64) :: u32) \<and> memblocks vm = init_blocks"
proof -
  have sp: "\<not> sp (initVM raw_vm) \<le> STACK_BASE" by (simp add: initVM_def memory_map)
  obtain vm1 where vm1: "push_word (initVM raw_vm) n = Done (VM_OK, vm1)" "wf_vm vm1" "stack_of vm1 = [n]"
    using push_word_stack [OF wf_initVM sp, of n] by (auto simp: stack_initVM)
  have "memblocks vm1 = init_blocks"
    using vm1(1) push_word_Done [OF wf_initVM sp, of n] by (auto simp: initVM_def)
  moreover have "length (registers vm1) = 2" using vm1(2) by (rule wf_vmD)
  ultimately show ?thesis
    using vm1(2,3) by (intro exI [of _ "set_reg 0 t vm1"]) (simp add: trap_number_def)
qed

text \<open>
  MALLOC and FREE are the allocator behind the stack. MALLOC pops the size and answers with
  what \<open>vm_alloc\<close> gives for it, FREE pops the address and answers with the status of
  \<open>vm_free\<close>; a refused MALLOC leaves an indeterminate value in register 0.
\<close>

theorem heap_calls:
  assumes "wf_vm vm" "stack_of vm = x # rest"
  shows "(trap_number vm = 10 \<longrightarrow> (case vm_alloc (popped vm) x of
      Inr (p, vm') \<Rightarrow> instrTRAP env vm i = Done (VM_OK, set_reg 0 p vm')
    | Inl e \<Rightarrow> instrTRAP env vm i = Done (e, set_reg 0 (junk_ptr env) (popped vm)))) \<and>
    (trap_number vm = 11 \<longrightarrow> instrTRAP env vm i = Done (vm_free (popped vm) x)) \<and>
    memblocks (popped vm) = memblocks vm \<and> stack_of (popped vm) = rest"
proof -
  note p = popping_stack [OF assms]
  have "instrTRAP env vm i = syscallMALLOC env vm" if "trap_number vm = 10"
    by (rule instrTRAP_call [OF that]) (simp_all add: dispatchSyscalls_def)
  moreover have "instrTRAP env vm i = syscallFREE env vm" if "trap_number vm = 11"
    by (rule instrTRAP_call [OF that]) (simp_all add: dispatchSyscalls_def)
  ultimately show ?thesis
    using p by (auto simp: syscallMALLOC_def syscallFREE_def Let_def split: sum.split)
qed

theorem heap_calls_witness:
  "\<exists>vm vm'. instrTRAP idle_env vm pop_instr = Done (VM_OK, vm') \<and> reg vm' 0 = 1280 \<and>
    memblocks vm' \<noteq> memblocks vm"
proof -
  obtain vm where vm: "wf_vm vm" "stack_of vm = [16]" "trap_number vm = 10" "memblocks vm = init_blocks"
    using fresh_heap_call [of 16 10] by auto
  have r: "length (registers vm) = 2" using vm(1) by (rule wf_vmD)
  from heap_calls [OF vm(1,2), of idle_env pop_instr] vm(3,4) obtain vm'
    where "instrTRAP idle_env vm pop_instr = Done (VM_OK, vm')" "reg vm' 0 = 1280" "memblocks vm' \<noteq> init_blocks"
    using r by (auto simp: vm_alloc_def init_blocks_def memory_map popped_def)
  with vm(4) show ?thesis by metis
qed

lemma stack_of_cong: "memory vm' = memory vm \<Longrightarrow> sp vm' = sp vm \<Longrightarrow> stack_of vm' = stack_of vm"
  by (simp add: stack_of_def)

text \<open>
  C39: the MALLOC call, number 10, from the stack to register 0. With \<open>n\<close> on top of the stack, and
  if some free block has at least \<open>n\<close> bytes, register 0 becomes the address of \<open>n\<close> bytes inside the
  heap segment that share none with a block handed out before; the heap then has exactly this block
  more, and the memory is as it was. If there is none, the call reports \<open>VM_HEAP_OUT_OF_MEMORY\<close> and
  leaves the heap alone, while register 0 takes the indeterminate value of the C variable \<open>ptr\<close>.
  Either way only \<open>n\<close> has left the stack.
\<close>

theorem malloc_call:
  assumes "wf_vm vm" "stack_of vm = n # rest" "trap_number vm = 10"
  shows "if \<exists>b \<in> set (memblocks vm). blk_free b \<and> n \<le> blk_size b
    then \<exists>vm' p. instrTRAP env vm i = Done (VM_OK, vm') \<and> p = unat (reg vm' 0) \<and>
      1280 \<le> p \<and> p + unat n \<le> 1536 \<and>
      (\<forall>(b, k) \<in># live_blocks vm. b + k \<le> p \<or> p + unat n \<le> b) \<and>
      live_blocks vm' = add_mset (p, unat n) (live_blocks vm) \<and>
      memory vm' = memory vm \<and> stack_of vm' = rest \<and> wf_vm vm'
    else \<exists>vm'. instrTRAP env vm i = Done (VM_HEAP_OUT_OF_MEMORY, vm') \<and> reg vm' 0 = junk_ptr env \<and>
      memblocks vm' = memblocks vm \<and> memory vm' = memory vm \<and> stack_of vm' = rest \<and> wf_vm vm'"
proof -
  note p = popping_stack [OF assms(1,2)]
  have call: "instrTRAP env vm i = syscallMALLOC env vm"
    by (rule instrTRAP_call [OF assms(3)]) (simp_all add: dispatchSyscalls_def)
  have r: "length (registers (popped vm)) = 2" using p(4) by (rule wf_vmD)
  have heap: "wf_heap (popped vm)" "live_blocks (popped vm) = live_blocks vm"
    using p(4,7) by (simp_all add: wf_heap_def wf_vm_def live_blocks_def)
  show ?thesis
  proof (cases "alloc_blocks n (memblocks vm)")
    case None
    then have none: "\<not> (\<exists>b \<in> set (memblocks vm). blk_free b \<and> n \<le> blk_size b)"
      by (auto simp: alloc_blocks_None not_le [symmetric])
    let ?vm = "set_reg 0 (junk_ptr env) (popped vm)"
    have "instrTRAP env vm i = Done (VM_HEAP_OUT_OF_MEMORY, ?vm)"
      using p None by (simp add: call syscallMALLOC_def vm_alloc_def)
    then have "\<exists>vm'. instrTRAP env vm i = Done (VM_HEAP_OUT_OF_MEMORY, vm') \<and> reg vm' 0 = junk_ptr env \<and>
        memblocks vm' = memblocks vm \<and> memory vm' = memory vm \<and> stack_of vm' = rest \<and> wf_vm vm'"
      using p r stack_of_cong [of ?vm "popped vm"] by simp
    then show ?thesis unfolding if_not_P [OF none] .
  next
    case (Some a)
    then obtain x ns where a: "alloc_blocks n (memblocks vm) = Some (x, ns)" by (cases a) simp
    then have ex: "\<exists>b \<in> set (memblocks vm). blk_free b \<and> n \<le> blk_size b"
      using alloc_blocks_None [of n "memblocks vm"] by (auto simp: not_less)
    let ?vm1 = "popped vm\<lparr>memblocks := ns\<rparr>"
    let ?vm = "set_reg 0 x ?vm1"
    have alloc: "vm_alloc (popped vm) n = Inr (x, ?vm1)" using a p(7) by (simp add: vm_alloc_def)
    have "instrTRAP env vm i = Done (VM_OK, ?vm)" using p alloc by (simp add: call syscallMALLOC_def)
    moreover have "live_blocks ?vm = add_mset (unat x, unat n) (live_blocks vm)"
      using heap.alloc_blocks [OF heap(1) alloc] heap(2) by (simp add: live_blocks_def)
    moreover have "1280 \<le> unat x" "unat x + unat n \<le> 1536"
      using heap.inv_bounds [OF heap.alloc_inv [OF heap(1) alloc], of "unat x" "unat n"]
        heap.alloc_blocks [OF heap(1) alloc] by simp_all
    moreover have "\<forall>(b, k) \<in># live_blocks vm. b + k \<le> unat x \<or> unat x + unat n \<le> b"
      using heap.alloc_fresh [OF heap(1) alloc] heap(2) by auto
    moreover have "wf_vm ?vm" using wf_vm_alloc [OF p(4) alloc] by (simp add: wf_vm_def)
    moreover have "unat x = unat (reg ?vm 0)" "memory ?vm = memory vm" "stack_of ?vm = rest"
      using p r stack_of_cong [of ?vm "popped vm"] by simp_all
    ultimately have "\<exists>vm' p. instrTRAP env vm i = Done (VM_OK, vm') \<and> p = unat (reg vm' 0) \<and>
      1280 \<le> p \<and> p + unat n \<le> 1536 \<and>
      (\<forall>(b, k) \<in># live_blocks vm. b + k \<le> p \<or> p + unat n \<le> b) \<and>
      live_blocks vm' = add_mset (p, unat n) (live_blocks vm) \<and>
      memory vm' = memory vm \<and> stack_of vm' = rest \<and> wf_vm vm'"
      by (intro exI [of _ ?vm] exI [of _ "unat x"] conjI)
    then show ?thesis unfolding if_P [OF ex] .
  qed
qed

theorem malloc_call_witness:
  "(\<exists>vm vm'. live_blocks vm = {#} \<and> instrTRAP idle_env vm pop_instr = Done (VM_OK, vm') \<and>
     live_blocks vm' = {#(unat (reg vm' 0), 16)#}) \<and>
   (\<exists>vm vm'. instrTRAP idle_env vm pop_instr = Done (VM_HEAP_OUT_OF_MEMORY, vm') \<and> memblocks vm' = memblocks vm)"
proof
  obtain vm where vm: "wf_vm vm" "stack_of vm = [16]" "trap_number vm = 10" "memblocks vm = init_blocks"
    using fresh_heap_call [of 16 10] by auto
  have "live_blocks vm = {#}" using vm(4) by (simp add: heap_eval)
  with malloc_call [OF vm(1-3), of idle_env pop_instr] vm(4)
  show "\<exists>vm vm'. live_blocks vm = {#} \<and> instrTRAP idle_env vm pop_instr = Done (VM_OK, vm') \<and>
     live_blocks vm' = {#(unat (reg vm' 0), 16)#}"
    by (auto simp: init_blocks_def memory_map)
  obtain vm where vm: "wf_vm vm" "stack_of vm = [257]" "trap_number vm = 10" "memblocks vm = init_blocks"
    using fresh_heap_call [of 257 10] by auto
  have "\<not> (\<exists>b \<in> set (memblocks vm). blk_free b \<and> 257 \<le> blk_size b)"
    by (simp add: vm(4) init_blocks_def memory_map)
  with malloc_call [OF vm(1-3), of idle_env pop_instr]
  show "\<exists>vm vm'. instrTRAP idle_env vm pop_instr = Done (VM_HEAP_OUT_OF_MEMORY, vm') \<and> memblocks vm' = memblocks vm"
    by (auto simp only: if_False)
qed

text \<open>
  C40: MEMSET, number 12, and MEMCPY, number 13, on the three words on top of the stack, in the order
  in which the code pops them: for MEMSET the address \<open>p\<close>, the value \<open>v\<close> and the size \<open>n\<close>, for
  MEMCPY the destination \<open>p\<close>, the source \<open>v\<close> and the size \<open>n\<close>. (In the order the README gives
  for \<^verbatim>\<open>memset\<close> the value would be popped first.) MEMSET refuses a block that starts below the heap or for which
  \<open>p + n\<close>, computed in 64 bits, is 2048 or more; any other block that does not wrap around has all
  its bytes and no others set to the low byte of \<open>v\<close>, in the heap and in the stack; one that wraps
  around is undefined. MEMCPY checks nothing: two blocks inside the memory that do not overlap, wherever
  they are, the code included, leave the destination with the bytes of the source and all other
  bytes as they were; all else is undefined. A call that is not undefined takes three words from the
  stack, and register 0 is 0 if it is not refused.
\<close>

theorem block_calls:
  assumes "wf_vm vm" "stack_of vm = p # v # n # rest"
  shows "(trap_number vm = 12 \<longrightarrow>
      (if unat p < 1280 \<or> 2048 \<le> (unat p + unat n) mod 2 ^ 64
       then \<exists>vm'. instrTRAP env vm i = Done (VM_ILL_MEM_ACCESS, vm') \<and> memory vm' = memory vm \<and> sp vm' = sp vm + 24
       else if unat p + unat n < 2 ^ 64
       then \<exists>vm'. instrTRAP env vm i = Done (VM_OK, vm') \<and> reg vm' 0 = 0 \<and> sp vm' = sp vm + 24 \<and>
         length (memory vm') = 2048 \<and>
         (\<forall>k < 2048. memory vm' ! k = (if unat p \<le> k \<and> k < unat p + unat n then ucast v else memory vm ! k))
       else instrTRAP env vm i = Undefined)) \<and>
    (trap_number vm = 13 \<longrightarrow>
      (if unat p + unat n \<le> 2048 \<and> unat v + unat n \<le> 2048 \<and>
         (unat p + unat n \<le> unat v \<or> unat v + unat n \<le> unat p \<or> n = 0)
       then \<exists>vm'. instrTRAP env vm i = Done (VM_OK, vm') \<and> reg vm' 0 = 0 \<and> sp vm' = sp vm + 24 \<and>
         length (memory vm') = 2048 \<and>
         (\<forall>k < 2048. memory vm' ! k =
           (if unat p \<le> k \<and> k < unat p + unat n then memory vm ! (unat v + (k - unat p)) else memory vm ! k))
       else instrTRAP env vm i = Undefined))"
proof -
  note s = popping3 [OF assms]
  let ?vm = "popped (popped (popped vm))"
  have len: "length (memory vm) = 2048" using assms(1) by (rule wf_vmD)
  have r: "length (registers ?vm) = 2" using s(5) by (rule wf_vmD)
  have sp: "sp ?vm = sp vm + 24" by (simp add: popped_def)
  let ?filled = "\<lambda>bs. set_reg 0 0 (?vm\<lparr>memory := overlay (unat p) bs (memory vm)\<rparr>)"
  have set: "instrTRAP env vm i =
    (if unat p < 1280 \<or> 2048 \<le> (unat p + unat n) mod 2 ^ 64 then Done (VM_ILL_MEM_ACCESS, ?vm)
     else if unat p + unat n \<le> 2048 then Done (VM_OK, ?filled (replicate (unat n) (ucast v))) else Undefined)"
    if "trap_number vm = 12"
  proof -
    have "instrTRAP env vm i = syscallMEMSET env vm"
      by (rule instrTRAP_call [OF that]) (simp_all add: dispatchSyscalls_def)
    moreover have "p < HEAP_BASE \<or> p + n \<ge> MEM_SIZE \<longleftrightarrow> unat p < 1280 \<or> 2048 \<le> (unat p + unat n) mod 2 ^ 64"
      by (simp add: memory_map word_less_nat_alt word_le_nat_alt unat_word_ariths)
    ultimately show ?thesis using s len by (simp add: syscallMEMSET_def Let_def)
  qed
  have cpy: "instrTRAP env vm i =
    (if unat p + unat n \<le> 2048 \<and> unat v + unat n \<le> 2048 \<and>
       (unat p + unat n \<le> unat v \<or> unat v + unat n \<le> unat p \<or> n = 0)
     then Done (VM_OK, ?filled (take (unat n) (drop (unat v) (memory vm)))) else Undefined)"
    if "trap_number vm = 13"
  proof -
    have "instrTRAP env vm i = syscallMEMCPY env vm"
      by (rule instrTRAP_call [OF that]) (simp_all add: dispatchSyscalls_def)
    then show ?thesis using s len by (simp add: syscallMEMCPY_def Let_def unat_eq_0)
  qed
  show ?thesis
    using len r sp s(6) by (auto simp: set cpy nth_overlay)
qed

theorem block_calls_witness:
  "(\<exists>vm vm'. instrTRAP idle_env vm pop_instr = Done (VM_OK, vm') \<and>
     memory vm' ! 3 = memory vm ! 1027 \<and> memory vm' ! 8 = memory vm ! 8) \<and>
   (\<exists>vm vm'. instrTRAP idle_env vm pop_instr = Done (VM_OK, vm') \<and> memory vm' ! 1287 = 255)"
proof
  obtain vm where "wf_vm vm" "stack_of vm = [0, 1024, 8]" "trap_number vm = 13"
    using stack_with_trap [of 0 1024 8 13] by auto
  from block_calls [OF this(1,2), of idle_env pop_instr] this(3) obtain vm' where
    vm': "instrTRAP idle_env vm pop_instr = Done (VM_OK, vm')" "\<forall>k < 2048. memory vm' ! k =
      (if k < 8 then memory vm ! (1024 + k) else memory vm ! k)"
    by auto
  then have "memory vm' ! 3 = memory vm ! 1027" "memory vm' ! 8 = memory vm ! 8" by simp_all
  with vm'(1) show "\<exists>vm vm'. instrTRAP idle_env vm pop_instr = Done (VM_OK, vm') \<and>
     memory vm' ! 3 = memory vm ! 1027 \<and> memory vm' ! 8 = memory vm ! 8" by blast
  obtain vm where "wf_vm vm" "stack_of vm = [1280, 255, 8]" "trap_number vm = 12"
    using stack_with_trap [of 1280 255 8 12] by auto
  from block_calls [OF this(1,2), of idle_env pop_instr] this(3) obtain vm' where
    vm': "instrTRAP idle_env vm pop_instr = Done (VM_OK, vm')" "\<forall>k < 2048. memory vm' ! k =
      (if 1280 \<le> k \<and> k < 1288 then ucast (255 :: u64) else memory vm ! k)"
    by auto
  then have "memory vm' ! 1287 = 255" by simp
  with vm'(1) show "\<exists>vm vm'. instrTRAP idle_env vm pop_instr = Done (VM_OK, vm') \<and> memory vm' ! 1287 = 255" by blast
qed

end
