(* ===== verification/Instruction_Set.thy ===== *)
theory Instruction_Set
  imports Cpu
begin

text \<open>
  What the instructions promise a program: exact arithmetic with its flags, comparison and
  branch, the stack, subroutine calls, and which errors leave the machine untouched. The
  statements are about the handlers \<open>get_handler\<close> finds for an instruction.
\<close>

unbundle bit_operations_syntax

section \<open>Two-operand instructions\<close>

text \<open>
  C19: each of the 55 handlers of ADD, SUB, MUL, DIV, CMP, AND, OR, XOR, SHL, SHR and LD, in
  its five addressing modes, equals the reference execution: check the registers, fetch the
  operand of the mode, apply the operation; and it touches nothing but its register and the
  status register.
\<close>

theorem two_operand_reference:
  assumes "wf_vm vm" "get_handler env op m = Some h" "alu_of op = Some alu"
  shows "h vm i = exec_operand alu m vm i \<and> post (\<lambda>(st, vm'). touches (ins_a i) vm vm') (h vm i)"
  using dispatch_alu [OF assms(1,3) get_handler_dispatch [OF assms(2)]]
    dispatch_alu_touches [OF assms(1) _ get_handler_dispatch [OF assms(2)]] assms(3) by simp

theorem two_operand_reference_witness:
  "instrLDR (initVM raw_vm) \<lparr>opcode = OP_LD, mode = MODE_REG, ins_a = 0, ins_b = 1, args = 0\<rparr> =
    exec_operand ld_alu MODE_REG (initVM raw_vm)
      \<lparr>opcode = OP_LD, mode = MODE_REG, ins_a = 0, ins_b = 1, args = 0\<rparr>"
  using two_operand_reference [OF wf_initVM, of idle_env OP_LD MODE_REG instrLDR ld_alu]
  by (simp add: get_handler_def dispatchLD_def)

section \<open>Arithmetic\<close>

fun exact :: "OP_CODE \<Rightarrow> (int \<Rightarrow> int \<Rightarrow> int) option" where
  "exact OP_ADD = Some (+)"
| "exact OP_SUB = Some (-)"
| "exact OP_MUL = Some (*)"
| "exact _ = None"

lemma setSRMUL_flags:
  "flag_Z (setSRMUL a b res vm) \<longleftrightarrow> res = 0"
  "flag_N (setSRMUL a b res vm) \<longleftrightarrow> sint res < 0"
  "flag_O (setSRMUL a b res vm) \<longleftrightarrow> \<not> fits64 (sint a * sint b)"
  by (auto simp: setSRMUL_def Let_def set_ZN_flags fits64_def not_le not_less)

lemma flags_of_update [simp]:
  "flag_O (vm\<lparr>registers := rs\<rparr>) = flag_O vm" "flag_N (vm\<lparr>registers := rs\<rparr>) = flag_N vm"
  "flag_Z (vm\<lparr>registers := rs\<rparr>) = flag_Z vm" "flag_C (vm\<lparr>registers := rs\<rparr>) = flag_C vm"
  "flag_O (vm\<lparr>pc := p\<rparr>) = flag_O vm" "flag_N (vm\<lparr>pc := p\<rparr>) = flag_N vm"
  "flag_Z (vm\<lparr>pc := p\<rparr>) = flag_Z vm" "flag_C (vm\<lparr>pc := p\<rparr>) = flag_C vm"
  by (simp_all add: flag_defs)

lemma reg_index: "wf_vm vm \<Longrightarrow> r < N_REG \<Longrightarrow> unat r < length (registers vm)"
  by (simp add: reg_lt not_le)

lemma operand_registers: "operand m vm i = Done (Inr v) \<Longrightarrow> ins_a i < N_REG"
  by (auto simp: operand_def not_le split: if_splits)

lemma sint_zero_iff: "(x :: u64) = 0 \<longleftrightarrow> sint x = 0"
  using signed_word_eqI [of x 0] by auto

text \<open>
  C20: ADD, SUB and MUL leave the 64-bit wrapped exact result of the signed operands; Z and
  N describe that result, and O is set exactly when the exact result does not fit.
\<close>

theorem arithmetic_exact:
  assumes "wf_vm vm" "get_handler env op m = Some h" "exact op = Some f"
    and "operand m vm i = Done (Inr v)"
  shows "\<exists>vm'. h vm i = Done (VM_OK, vm') \<and>
    (let e = f (sint (reg vm (ins_a i))) (sint v); r = sint (reg vm' (ins_a i))
     in r = swrap e \<and> (flag_O vm' \<longleftrightarrow> \<not> fits64 e) \<and> (flag_O vm' \<longleftrightarrow> r \<noteq> e) \<and>
        (flag_Z vm' \<longleftrightarrow> r = 0) \<and> (flag_N vm' \<longleftrightarrow> r < 0))"
proof -
  note k = reg_index [OF assms(1) operand_registers [OF assms(4)]]
  note d = get_handler_dispatch [OF assms(2)]
  consider "op = OP_ADD" "f = (+)" | "op = OP_SUB" "f = (-)" | "op = OP_MUL" "f = (*)"
    using assms(3) by (cases op) auto
  then show ?thesis
  proof cases
    case 1
    with k dispatch_alu [OF assms(1) _ d, of add_alu] assms(4) show ?thesis
      by (simp add: exec_operand_def add_alu_def Let_def setSRADD_flags overflow_add sint_arith
          swrap_id_iff sint_zero_iff)
  next
    case 2
    with k dispatch_alu [OF assms(1) _ d, of sub_alu] assms(4) show ?thesis
      by (simp add: exec_operand_def sub_alu_def Let_def setSRSUB_flags overflow_sub sint_arith
          swrap_id_iff sint_zero_iff)
  next
    case 3
    with k dispatch_alu [OF assms(1) _ d, of mul_alu] assms(4) show ?thesis
      by (simp add: exec_operand_def mul_alu_def Let_def setSRMUL_flags sint_arith
          swrap_id_iff sint_zero_iff)
  qed
qed

theorem arithmetic_exact_witness:
  "\<exists>vm'. instrADD (initVM raw_vm\<lparr>registers := [2 ^ 63 - 1, 0]\<rparr>)
      \<lparr>opcode = OP_ADD, mode = MODE_IMM, ins_a = 0, ins_b = 0, args = 1\<rparr> = Done (VM_OK, vm') \<and>
    sint (reg vm' 0) = - (2 ^ 63) \<and> flag_O vm' \<and> flag_N vm'"
proof -
  let ?vm = "initVM raw_vm\<lparr>registers := [2 ^ 63 - 1, 0]\<rparr>"
  let ?i = "\<lparr>opcode = OP_ADD, mode = MODE_IMM, ins_a = 0, ins_b = 0, args = 1 :: u64\<rparr>"
  have "wf_vm ?vm" using wf_initVM [of raw_vm] by (simp add: wf_vm_def)
  from arithmetic_exact [OF this, of idle_env OP_ADD MODE_IMM instrADD "(+)" ?i 1]
  show ?thesis
    by (auto simp: get_handler_def dispatchADD_def operand_def N_REG_def Let_def swrap_def fits64_def)
qed

section \<open>Division\<close>

lemma setSRDIV_flags:
  "flag_Z (setSRDIV res vm) \<longleftrightarrow> res = 0" "flag_N (setSRDIV res vm) \<longleftrightarrow> sint res < 0"
  "\<not> flag_C (setSRDIV res vm)" "\<not> flag_O (setSRDIV res vm)"
  by (simp_all add: setSRDIV_def set_ZN_flags)

lemma sdiv_fits:
  assumes "fits64 a" "fits64 b" "\<not> (a = - (2 ^ 63) \<and> b = - 1)"
  shows "fits64 (a sdiv b)"
proof -
  have q: "\<bar>a sdiv b\<bar> \<le> \<bar>a\<bar> div \<bar>b\<bar>"
    by (auto simp: signed_divide_int_def abs_mult sgn_if pos_imp_zdiv_nonneg_iff neg_imp_zdiv_nonneg_iff)
  show ?thesis
  proof (cases "a = - (2 ^ 63)")
    case False
    have "\<bar>a\<bar> div \<bar>b\<bar> \<le> \<bar>a\<bar>" by (cases "a = 0") (simp_all add: int_div_le_self)
    with q False assms(1) show ?thesis by (auto simp: fits64_def)
  next
    case True
    then have "b \<noteq> - 1" using assms(3) by simp
    then consider "b = 0" | "b = 1" | "2 \<le> \<bar>b\<bar>" by linarith
    then show ?thesis
    proof cases
      case 3
      then have "\<bar>a\<bar> div \<bar>b\<bar> \<le> \<bar>a\<bar> div 2" by (intro zdiv_mono2) auto
      with q True show ?thesis by (auto simp: fits64_def)
    qed (simp_all add: True fits64_def signed_divide_int_def)
  qed
qed

lemma sint_word_of_fits: "fits64 k \<Longrightarrow> sint (word_of_int k :: u64) = k"
  by (simp add: signed_of_int signed_take_bit_swrap swrap_id_iff)

lemma INT64_MIN_sint: "(a :: u64) = INT64_MIN \<longleftrightarrow> sint a = - (2 ^ 63)"
proof -
  have "sint INT64_MIN = - (2 ^ 63)" by (simp add: INT64_MIN_def)
  then show ?thesis by (metis signed_word_eqI)
qed

lemma minus_one_sint: "(a :: u64) = - 1 \<longleftrightarrow> sint a = - 1"
  by (metis signed_word_eqI sint_n1)

text \<open>
  C33: DIV truncates the signed quotient towards zero; a zero divisor is refused with
  \<open>VM_DIV_ZERO\<close> before anything changes, and the one quotient that does not fit,
  \<open>INT64_MIN / -1\<close>, is undefined behaviour of the host program.
\<close>

theorem division_truncates:
  assumes "wf_vm vm" "get_handler env OP_DIV m = Some h" "operand m vm i = Done (Inr v)"
  shows "let a = sint (reg vm (ins_a i)); b = sint v in
    if b = 0 then h vm i = Done (VM_DIV_ZERO, vm)
    else if a = - (2 ^ 63) \<and> b = - 1 then h vm i = Undefined
    else \<exists>vm'. h vm i = Done (VM_OK, vm') \<and> sint (reg vm' (ins_a i)) = a sdiv b \<and>
      (flag_Z vm' \<longleftrightarrow> a sdiv b = 0) \<and> (flag_N vm' \<longleftrightarrow> a sdiv b < 0) \<and> \<not> flag_O vm' \<and> \<not> flag_C vm'"
proof -
  note k = reg_index [OF assms(1) operand_registers [OF assms(3)]]
  have h: "h vm i = div_alu (ins_a i) v vm"
    using dispatch_alu [OF assms(1) _ get_handler_dispatch [OF assms(2)], of div_alu] assms(3)
    by (simp add: exec_operand_def)
  let ?a = "reg vm (ins_a i)"
  show ?thesis
  proof (cases "v = 0 \<or> sint ?a = - (2 ^ 63) \<and> sint v = - 1")
    case True
    then show ?thesis
      using sint_zero_iff [of v] by (auto simp: h div_alu_def c_div_def INT64_MIN_sint minus_one_sint)
  next
    case False
    then have v: "sint v \<noteq> 0" "\<not> (?a = INT64_MIN \<and> v = - 1)"
      using sint_zero_iff [of v] by (auto simp: INT64_MIN_sint minus_one_sint)
    have q: "sint (word_of_int (sint ?a sdiv sint v) :: u64) = sint ?a sdiv sint v"
      using False by (intro sint_word_of_fits sdiv_fits) auto
    then have "(word_of_int (sint ?a sdiv sint v) :: u64) = 0 \<longleftrightarrow> sint ?a sdiv sint v = 0"
      by (simp only: sint_zero_iff)
    with q False v k show ?thesis
      by (auto simp: h div_alu_def c_div_def Let_def setSRDIV_flags)
  qed
qed

theorem division_truncates_witness:
  "\<exists>vm'. instrDIV (initVM raw_vm\<lparr>registers := [- 7, 0]\<rparr>)
      \<lparr>opcode = OP_DIV, mode = MODE_IMM, ins_a = 0, ins_b = 0, args = 2\<rparr> = Done (VM_OK, vm') \<and>
    sint (reg vm' 0) = - 3"
proof -
  let ?vm = "initVM raw_vm\<lparr>registers := [- 7, 0]\<rparr>"
  let ?i = "\<lparr>opcode = OP_DIV, mode = MODE_IMM, ins_a = 0, ins_b = 0, args = 2 :: u64\<rparr>"
  have "wf_vm ?vm" using wf_initVM [of raw_vm] by (simp add: wf_vm_def)
  from division_truncates [OF this, of idle_env MODE_IMM instrDIV ?i 2] show ?thesis
    by (auto simp: get_handler_def dispatchDIV_def operand_def N_REG_def Let_def signed_divide_int_def)
qed

section \<open>Shifts\<close>

lemma set_ZN_frame [simp]:
  "registers (set_ZN res (clear_flags vm)) = registers vm"
  "flag_O (setSRCF b vm) = flag_O vm"
  by (simp_all add: only_srD(1) [OF only_sr_set_ZN [OF only_sr_clear]])

lemma signed_drop_bit_lsb:
  "k < 64 \<Longrightarrow> signed_drop_bit k (a :: u64) AND 1 \<noteq> 0 \<longleftrightarrow> bit a k"
  using and_single_bit_nonzero [of 0 "signed_drop_bit k a"] by (simp add: bit_signed_drop_bit_iff)

lemma word_range_split:
  assumes "n \<noteq> 0" "n < (64 :: u64)"
  shows "unat (63 - n + 1) = 64 - unat n" "63 - n + 1 < 64" "unat (n - 1) = unat n - 1" "n - 1 < 64"
proof -
  have n: "1 \<le> unat n" "unat n < 64" using assms by (auto simp: word_less_nat_alt unat_gt_0 Suc_le_eq)
  then show b: "unat (63 - n + 1) = 64 - unat n"
    using unat_sub [of n 64] by (simp add: word_le_nat_alt)
  with n show "63 - n + 1 < 64" by (simp add: word_less_nat_alt)
  from n show c: "unat (n - 1) = unat n - 1" by (simp add: unat_sub word_le_nat_alt)
  with n show "n - 1 < 64" by (simp add: word_less_nat_alt)
qed

text \<open>
  C34: SHL and SHR by 1 to 63 positions shift, arithmetically to the right, and C takes the
  last bit shifted out; a shift by 0 or by 64 and more is undefined, because the carry is
  read by a shift of 64 or more even when the shift itself is by 0.
\<close>

theorem shifts_classified:
  assumes "wf_vm vm" "get_handler env op m = Some h" "operand m vm i = Done (Inr v)"
    and "op = OP_SHL \<or> op = OP_SHR"
  shows "let a = reg vm (ins_a i); n = unat v in
    if n = 0 \<or> 64 \<le> n then h vm i = Undefined
    else \<exists>vm'. h vm i = Done (VM_OK, vm') \<and>
      reg vm' (ins_a i) = (if op = OP_SHL then push_bit n a else signed_drop_bit n a) \<and>
      (flag_C vm' \<longleftrightarrow> (if op = OP_SHL then bit a (64 - n) else bit a (n - 1))) \<and>
      (flag_Z vm' \<longleftrightarrow> reg vm' (ins_a i) = 0) \<and> (flag_N vm' \<longleftrightarrow> sint (reg vm' (ins_a i)) < 0)"
proof -
  note k = reg_index [OF assms(1) operand_registers [OF assms(3)]]
  note d = dispatch_alu [OF assms(1) _ get_handler_dispatch [OF assms(2)]]
  let ?a = "reg vm (ins_a i)" and ?r = "ins_a i"
  consider "v = 0" | "64 \<le> v" | "v \<noteq> 0" "v < 64" by force
  then show ?thesis
  proof cases
    case 1
    have "\<not> (64 :: u64) - 0 < 64" "\<not> (- 1 :: u64) < 64" by simp_all
    with 1 d [of shl_alu] d [of shr_alu] assms(3,4) show ?thesis
      by (auto simp: exec_operand_def shl_alu_def shr_alu_def c_shl_def c_sar_def setSRSHL_def setSRSHR_def)
  next
    case 2
    then have "64 \<le> unat v" "\<not> v < 64" by (auto simp: word_le_nat_alt word_less_nat_alt)
    with d [of shl_alu] d [of shr_alu] assms(3,4) show ?thesis
      by (auto simp: exec_operand_def shl_alu_def shr_alu_def c_shl_def c_sar_def)
  next
    case 3
    then have n: "unat v \<noteq> 0" "unat v < 64" by (auto simp: unat_eq_0 word_less_nat_alt)
    note w = word_range_split [OF 3]
    have lsb: "signed_drop_bit (64 - unat v) ?a AND 1 \<noteq> 0 \<longleftrightarrow> bit ?a (64 - unat v)"
      "signed_drop_bit (unat v - 1) ?a AND 1 \<noteq> 0 \<longleftrightarrow> bit ?a (unat v - 1)"
      using n by (auto intro!: signed_drop_bit_lsb)
    from assms(4) show ?thesis
    proof
      assume op: "op = OP_SHL"
      with d [of shl_alu] assms(3) k n 3(2) w lsb show ?thesis
        by (auto simp: exec_operand_def shl_alu_def c_shl_def c_sar_def setSRSHL_def Let_def set_ZN_flags)
    next
      assume op: "op = OP_SHR"
      with d [of shr_alu] assms(3) k n 3(2) w lsb show ?thesis
        by (auto simp: exec_operand_def shr_alu_def c_sar_def setSRSHR_def Let_def set_ZN_flags)
    qed
  qed
qed

theorem shifts_classified_witness:
  "instrSHL (initVM raw_vm) \<lparr>opcode = OP_SHL, mode = MODE_IMM, ins_a = 0, ins_b = 0, args = 0\<rparr> = Undefined \<and>
    (\<exists>vm'. instrSHR (initVM raw_vm\<lparr>registers := [- 7, 0]\<rparr>)
      \<lparr>opcode = OP_SHR, mode = MODE_IMM, ins_a = 0, ins_b = 0, args = 1\<rparr> = Done (VM_OK, vm') \<and>
      reg vm' 0 = - 4 \<and> flag_C vm')"
proof -
  let ?vm = "initVM raw_vm\<lparr>registers := [- 7, 0]\<rparr>"
  let ?i = "\<lparr>opcode = OP_SHR, mode = MODE_IMM, ins_a = 0, ins_b = 0, args = 1 :: u64\<rparr>"
  let ?j = "\<lparr>opcode = OP_SHL, mode = MODE_IMM, ins_a = 0, ins_b = 0, args = 0 :: u64\<rparr>"
  have "wf_vm ?vm" using wf_initVM [of raw_vm] by (simp add: wf_vm_def)
  from shifts_classified [OF this, of idle_env OP_SHR MODE_IMM instrSHR ?i 1]
    shifts_classified [OF wf_initVM, of idle_env OP_SHL MODE_IMM instrSHL raw_vm ?j 0] show ?thesis
    by (auto simp: get_handler_def dispatchSHR_def dispatchSHL_def operand_def N_REG_def Let_def)
qed

section \<open>Comparison and branch\<close>

fun relation :: "OP_CODE \<Rightarrow> (int \<Rightarrow> int \<Rightarrow> bool) option" where
  "relation OP_JEQ = Some (=)"
| "relation OP_JNE = Some (\<noteq>)"
| "relation OP_JLE = Some (\<le>)"
| "relation OP_JLT = Some (<)"
| "relation OP_JGE = Some (\<ge>)"
| "relation OP_JGT = Some (>)"
| "relation _ = None"

lemmas taken_defs = jeq_taken_def jne_taken_def jle_taken_def jlt_taken_def jge_taken_def jgt_taken_def

lemma flags_same_sr:
  assumes "sr vm2 = sr vm1"
  shows "flag_Z vm2 = flag_Z vm1" "flag_N vm2 = flag_N vm1" "flag_O vm2 = flag_O vm1"
  using assms by (simp_all add: flag_defs)

lemma sint_eq_iff: "(a :: u64) = b \<longleftrightarrow> sint a = sint b"
  using signed_word_eqI [of a b] by auto

lemma branch_after_compare:
  assumes "relation op = Some rel" "dispatch env op m = Some br" "\<not> (op = OP_JNE \<and> m = MODE_IND)"
    and "sr vm2 = sr (setSRSUB a b (a - b) vm)"
  shows "br vm2 j = (if rel (sint a) (sint b) then jump_by m vm2 j else Done (VM_OK, vm2))"
proof -
  note f = flags_same_sr [OF assms(4)] and c = compare_flags [of a b vm]
  show ?thesis
  proof (cases op)
    case OP_JEQ
    with assms(1) dispatch_jump [of op jeq_taken env m br vm2 j] assms(2) f c show ?thesis
      by (auto simp: taken_defs sint_eq_iff)
  next
    case OP_JNE
    with assms(1,3) dispatch_jump [of op jne_taken env m br vm2 j] assms(2) f c show ?thesis
      by (auto simp: taken_defs sint_eq_iff)
  next
    case OP_JLE
    with assms(1) dispatch_jump [of op jle_taken env m br vm2 j] assms(2) f c show ?thesis
      by (auto simp: taken_defs sint_eq_iff)
  next
    case OP_JLT
    with assms(1) dispatch_jump [of op jlt_taken env m br vm2 j] assms(2) f c show ?thesis
      by (auto simp: taken_defs)
  next
    case OP_JGE
    with assms(1) dispatch_jump [of op jge_taken env m br vm2 j] assms(2) f c show ?thesis
      by (auto simp: taken_defs)
  next
    case OP_JGT
    with assms(1) dispatch_jump [of op jgt_taken env m br vm2 j] assms(2) f c show ?thesis
      by (auto simp: taken_defs sint_eq_iff)
  qed (use assms(1) in simp_all)
qed

text \<open>
  C21: comparison and branch. After CMP, in any of its modes, each conditional jump, in any of
  its modes but the indirect JNE, is taken exactly when the operands are in the signed
  relation of its name, as long as the status register is what CMP left; a jump not taken
  changes nothing. CMP itself changes only the status register, and C is the unsigned
  borrow.
\<close>

theorem compare_and_branch:
  assumes "wf_vm vm" "get_handler env OP_CMP m = Some cmp" "operand m vm i = Done (Inr v)"
    and "get_handler env' op m' = Some br" "relation op = Some rel"
    and "\<not> (op = OP_JNE \<and> m' = MODE_IND)"
  shows "\<exists>vm1. cmp vm i = Done (VM_OK, vm1) \<and> only_sr vm vm1 \<and>
    (flag_C vm1 \<longleftrightarrow> reg vm (ins_a i) < v) \<and>
    (\<forall>vm2 j. sr vm2 = sr vm1 \<longrightarrow>
      br vm2 j = (if rel (sint (reg vm (ins_a i))) (sint v) then jump_by m' vm2 j else Done (VM_OK, vm2)))"
proof -
  let ?a = "reg vm (ins_a i)"
  let ?vm1 = "setSRSUB ?a v (?a - v) vm"
  have "cmp vm i = Done (VM_OK, ?vm1)"
    using dispatch_alu [OF assms(1) _ get_handler_dispatch [OF assms(2)], of cmp_alu] assms(3)
    by (simp add: exec_operand_def cmp_alu_def Let_def)
  moreover have "only_sr vm ?vm1" by simp
  moreover have "flag_C ?vm1 \<longleftrightarrow> ?a < v" by (rule compare_flags)
  ultimately show ?thesis
    using branch_after_compare [OF assms(5) get_handler_dispatch [OF assms(4)] assms(6)] by blast
qed

theorem compare_and_branch_witness:
  "\<exists>vm1. instrCMP (initVM raw_vm) \<lparr>opcode = OP_CMP, mode = MODE_IMM, ins_a = 0, ins_b = 0, args = 5\<rparr> =
      Done (VM_OK, vm1) \<and>
    instrJLT vm1 \<lparr>opcode = OP_JLT, mode = MODE_IMM, ins_a = 0, ins_b = 0, args = 40\<rparr> =
      Done (VM_OK, vm1\<lparr>pc := 40\<rparr>)"
proof -
  let ?i = "\<lparr>opcode = OP_CMP, mode = MODE_IMM, ins_a = 0, ins_b = 0, args = 5 :: u64\<rparr>"
  have "reg (initVM raw_vm) 0 = 0" by (simp add: initVM_def N_REG_def)
  with compare_and_branch [OF wf_initVM, of idle_env MODE_IMM instrCMP raw_vm ?i 5 idle_env OP_JLT MODE_IMM
      instrJLT "(<)"] show ?thesis
    by (auto simp: get_handler_def dispatchCMP_def dispatchJLT_def operand_def N_REG_def jump_by_def
        jump_def DATA_BASE_def)
qed

text \<open>
  JNE with an indirect target is taken when the operands were equal: the handler tests
  the zero flag the wrong way round and is the same function as the one of JEQ.
\<close>

theorem JNE_indirect_is_JEQ:
  "instrJNEI vm i = instrJEQI vm i \<and>
    instrJNEI vm i = (if flag_Z vm then jumpi vm i else Done (VM_OK, vm))"
  by (simp add: instrJNEI_def instrJEQI_def)

text \<open>
  the carry flag of ADD is computed with a signed comparison: it says whether the result
  is less than the first operand as signed numbers, not whether the unsigned sum
  overflowed. Adding 1 to the largest unsigned value leaves C clear.
\<close>

theorem ADD_carry_signed:
  assumes "wf_vm vm" "get_handler env OP_ADD m = Some h" "operand m vm i = Done (Inr v)"
  shows "\<exists>vm'. h vm i = Done (VM_OK, vm') \<and>
    (flag_C vm' \<longleftrightarrow> sint (reg vm (ins_a i) + v) < sint (reg vm (ins_a i)))"
  using dispatch_alu [OF assms(1) _ get_handler_dispatch [OF assms(2)], of add_alu] assms(3)
  by (auto simp: exec_operand_def add_alu_def Let_def setSRADD_flags)

theorem ADD_carry_signed_witness:
  "\<exists>vm'. instrADD (initVM raw_vm\<lparr>registers := [- 1, 0]\<rparr>)
      \<lparr>opcode = OP_ADD, mode = MODE_IMM, ins_a = 0, ins_b = 0, args = 1\<rparr> = Done (VM_OK, vm') \<and>
    \<not> flag_C vm' \<and> 2 ^ 64 \<le> unat (- 1 :: u64) + unat (1 :: u64)"
proof -
  let ?vm = "initVM raw_vm\<lparr>registers := [- 1, 0]\<rparr>"
  let ?i = "\<lparr>opcode = OP_ADD, mode = MODE_IMM, ins_a = 0, ins_b = 0, args = 1 :: u64\<rparr>"
  have "wf_vm ?vm" using wf_initVM [of raw_vm] by (simp add: wf_vm_def)
  from ADD_carry_signed [OF this, of idle_env MODE_IMM instrADD ?i 1] show ?thesis
    by (auto simp: get_handler_def dispatchADD_def operand_def N_REG_def
        unsigned_minus_1_eq_mask mask_eq_exp_minus_1)
qed

section \<open>Errors\<close>

text \<open>An error is precise when the machine is as it was before the instruction.\<close>

definition precise :: "vm \<Rightarrow> VM_Error \<times> vm \<Rightarrow> bool" where
  "precise vm r \<longleftrightarrow> fst r = VM_OK \<or> snd r = vm"

lemma precise_pair [simp]: "precise vm (st, vm') \<longleftrightarrow> st = VM_OK \<or> vm' = vm"
  by (simp add: precise_def)

lemma precise_alu:
  assumes "alu_of op = Some alu"
  shows "post (precise vm) (alu r v vm)"
  using assms
  by (cases op)
    (auto simp: add_alu_def sub_alu_def mul_alu_def div_alu_def cmp_alu_def and_alu_def or_alu_def
      xor_alu_def shl_alu_def shr_alu_def ld_alu_def Let_def post_iff obind_Done_iff)

lemma precise_exec_operand:
  assumes "alu_of op = Some alu"
  shows "post (precise vm) (exec_operand alu m vm i)"
  unfolding exec_operand_def
  by (rule post_obind) (auto simp: post_iff split: sum.splits dest: post_DoneD [OF precise_alu [OF assms]])

lemma precise_memWrite64: "post (precise vm) (memWrite64 vm addr v)"
  by (auto simp: memWrite64_def post_iff obind_Done_iff)

lemma precise_reading64: "(\<And>v. post (precise vm) (k v)) \<Longrightarrow> post (precise vm) (reading64 vm addr k)"
  by (rule post_reading64) auto

lemma precise_swap_cell: "post (precise vm) (swap_cell vm r addr)"
  unfolding swap_cell_def
  by (rule precise_reading64, rule post_obind, rule post_mono [OF precise_memWrite64]) auto

text \<open>PUSH and CALL lower the stack pointer first and put it back when the store fails.\<close>

lemma failed_memWrite64: "memWrite64 vm addr v = Done (st, vm') \<Longrightarrow> st \<noteq> VM_OK \<Longrightarrow> vm' = vm"
  by (auto simp: memWrite64_def obind_Done_iff split: if_splits)

lemma precise_push_word: "post (precise vm) (push_word vm v)"
  unfolding push_word_def Let_def
  by (rule post_obind) (auto simp: post_iff dest: failed_memWrite64)

lemma precise_call_to: "post (precise vm) (call_to i target vm)"
  unfolding call_to_def Let_def
  by (intro post_with_mode_size post_obind) (auto simp: post_iff dest: failed_memWrite64)

lemma post_reading64_value:
  "(\<And>e. Q (e, vm)) \<Longrightarrow> (\<And>v. memRead64 vm addr = Done (Inr v) \<Longrightarrow> post Q (k v)) \<Longrightarrow>
    post Q (reading64 vm addr k)"
  by (cases "memRead64 vm addr") (auto simp: reading64_def split: sum.splits)

lemma unguarded_memWrite64: "\<not> MEM_SIZE \<le> addr + 7 \<Longrightarrow> post (precise vm) (memWrite64 vm1 addr v)"
  by (auto simp: memWrite64_def post_iff obind_Done_iff)

lemma memRead64_guard: "memRead64 vm addr = Done (Inr v) \<Longrightarrow> \<not> MEM_SIZE \<le> addr + 7"
  by (auto simp: memRead64_def)

lemma byte_address: "\<not> MEM_SIZE \<le> ucast x + (7 :: u64)" for x :: u8
proof -
  have "unat x < 256" using unsigned_less [of x, where ?'a = nat] by simp
  then have "unat (ucast x :: u64) < 256" by (simp add: unsigned_ucast_eq take_bit_nat_eq_self)
  then show ?thesis by (simp add: MEM_SIZE_def word_le_nat_alt unat_word_ariths)
qed

lemma precise_FASD: "post (precise vm) (instrFASD vm i)"
  by (auto simp: instrFASD_def intro!: post_reading64_value unguarded_memWrite64 dest: memRead64_guard)

lemma precise_FASI: "post (precise vm) (instrFASI vm i)"
  by (auto simp: instrFASI_def get_reg_def reg_ptr_def put_reg_def byte_address
      intro!: post_reading64_value unguarded_memWrite64)

lemma precise_RTN: "post (precise vm) (instrRTN vm i)"
  by (auto simp: instrRTN_def intro!: post_bytes split: sum.splits)

lemma precise_rows:
  "dispatchNEG m = Some h \<Longrightarrow> post (precise vm) (h vm i)"
  "dispatchNOT m = Some h \<Longrightarrow> post (precise vm) (h vm i)"
  "dispatchNOP m = Some h \<Longrightarrow> post (precise vm) (h vm i)"
  "dispatchHALT m = Some h \<Longrightarrow> post (precise vm) (h vm i)"
  "dispatchRST m = Some h \<Longrightarrow> post (precise vm) (h vm i)"
  "dispatchRTN m = Some h \<Longrightarrow> post (precise vm) (h vm i)"
  by (cases m; auto simp: dispatchNEG_def dispatchNOT_def dispatchNOP_def dispatchHALT_def
      dispatchRST_def dispatchRTN_def instrNEG_def instrNOT_def instrNOP_def instrHALT_def
      instrRST_def Let_def precise_RTN)+

lemma precise_memory_rows:
  "dispatchST m = Some h \<Longrightarrow> post (precise vm) (h vm i)"
  "dispatchSWP m = Some h \<Longrightarrow> post (precise vm) (h vm i)"
  "dispatchPUSH m = Some h \<Longrightarrow> post (precise vm) (h vm i)"
  "dispatchPOP m = Some h \<Longrightarrow> post (precise vm) (h vm i)"
  "dispatchCALL m = Some h \<Longrightarrow> post (precise vm) (h vm i)"
  "dispatchFAS m = Some h \<Longrightarrow> m \<noteq> MODE_IDX \<Longrightarrow> post (precise vm) (h vm i)"
  by (cases m; auto simp: dispatchST_def dispatchSWP_def dispatchPUSH_def dispatchPOP_def
      dispatchCALL_def dispatchFAS_def instrSTD_def instrSTI_def instrSTX_def instrSWPR_def
      instrSWPD_def instrSWPI_def instrSWPX_def instrPUSH_def instrPUSHR_def instrPOP_def
      instrCALL_def instrCALLR_def instrCALLD_def instrCALLI_def instrCALLX_def Let_def
      precise_memWrite64 precise_swap_cell precise_push_word precise_call_to precise_FASD precise_FASI
      intro!: precise_reading64)+

lemma precise_jump:
  assumes "taken_of op \<noteq> None" "dispatch env op m = Some h"
  shows "post (precise vm) (h vm i)"
proof -
  from assms(1) obtain taken where "taken_of op = Some taken" by blast
  from dispatch_jump [OF this assms(2)] post_mono [OF jump_by_jumped [of vm m i], of "precise vm"]
  show ?thesis by (auto simp: jumped_def split: if_splits)
qed

text \<open>
  C22: errors are precise. Every instruction that reports an error leaves the machine exactly
  as it was, but for TRAP (its system calls pop their arguments first) and FASX (which
  overwrites its register before the store fails).
\<close>

theorem errors_precise:
  assumes "wf_vm vm" "get_handler env op m = Some h" "op \<noteq> OP_TRAP" "\<not> (op = OP_FAS \<and> m = MODE_IDX)"
    and "h vm i = Done (st, vm')" "st \<noteq> VM_OK"
  shows "vm' = vm"
proof -
  note d = get_handler_dispatch [OF assms(2)]
  have "post (precise vm) (h vm i)"
  proof (cases "alu_of op \<noteq> None \<or> taken_of op \<noteq> None")
    case True
    then show ?thesis
      using precise_jump [OF _ d] dispatch_alu [OF assms(1) _ d] precise_exec_operand by fastforce
  next
    case False
    with d assms(3,4) show ?thesis
      by (cases op) (simp_all add: precise_rows precise_memory_rows)
  qed
  with assms(5,6) show ?thesis by simp
qed

theorem errors_precise_witness:
  "instrDIV (initVM raw_vm) \<lparr>opcode = OP_DIV, mode = MODE_IMM, ins_a = 0, ins_b = 0, args = 0\<rparr> =
    Done (VM_DIV_ZERO, initVM raw_vm)"
proof -
  let ?i = "\<lparr>opcode = OP_DIV, mode = MODE_IMM, ins_a = 0, ins_b = 0, args = 0 :: u64\<rparr>"
  have d: "get_handler idle_env OP_DIV MODE_IMM = Some instrDIV"
    by (simp add: get_handler_def dispatchDIV_def)
  obtain vm' where h: "instrDIV (initVM raw_vm) ?i = Done (VM_DIV_ZERO, vm')"
    by (simp add: instrDIV_def N_REG_def)
  from errors_precise [OF wf_initVM d _ _ h] h show ?thesis by simp
qed

section \<open>Data movement\<close>

text \<open>The address of a memory operand.\<close>

definition effective :: "MODE \<Rightarrow> vm \<Rightarrow> instruction \<Rightarrow> u64" where
  "effective m vm i = (case m of MODE_DIR \<Rightarrow> args i | MODE_IND \<Rightarrow> reg vm (ins_b i)
     | _ \<Rightarrow> reg vm (ins_b i) + args i)"

definition addressed :: "MODE \<Rightarrow> vm \<Rightarrow> instruction \<Rightarrow> bool" where
  "addressed m vm i \<longleftrightarrow> m \<in> {MODE_DIR, MODE_IND, MODE_IDX} \<and> ins_a i < N_REG \<and>
     (m \<noteq> MODE_DIR \<longrightarrow> ins_b i < N_REG) \<and> DATA_BASE \<le> effective m vm i"

lemma ST_addressed:
  assumes "addressed m vm i" "dispatchST m = Some h"
  shows "h vm i = memWrite64 vm (effective m vm i) (reg vm (ins_a i))"
  using assms
  by (cases m) (auto simp: dispatchST_def addressed_def effective_def instrSTD_def instrSTI_def
      instrSTX_def Let_def not_le not_less)

lemma LD_addressed:
  assumes "addressed m vm i" "dispatchLD m = Some h"
  shows "h vm i = reading64 vm (effective m vm i) (\<lambda>v. Done (VM_OK, set_reg (ins_a i) v vm))"
  using assms
  by (cases m) (auto simp: dispatchLD_def addressed_def effective_def instrLDD_def instrLDI_def
      instrLDX_def Let_def not_le not_less)

lemma SWP_addressed:
  assumes "addressed m vm i" "dispatchSWP m = Some h"
  shows "h vm i = swap_cell vm (ins_a i) (effective m vm i)"
  using assms
  by (cases m) (auto simp: dispatchSWP_def addressed_def effective_def instrSWPD_def instrSWPI_def
      instrSWPX_def Let_def not_le not_less)

lemma ST_OK_addressed:
  assumes "dispatchST m = Some h" "h vm i = Done (VM_OK, vm')"
  shows "addressed m vm i"
  using assms
  by (cases m) (auto simp: dispatchST_def addressed_def effective_def instrSTD_def instrSTI_def
      instrSTX_def Let_def not_le not_less split: if_splits)

lemma SWP_OK_addressed:
  assumes "dispatchSWP m = Some h" "m \<noteq> MODE_REG" "h vm i = Done (VM_OK, vm')"
  shows "addressed m vm i"
  using assms
  by (cases m) (auto simp: dispatchSWP_def addressed_def effective_def instrSWPD_def instrSWPI_def
      instrSWPX_def Let_def not_le not_less split: if_splits)

text \<open>
  what ST stores, LD loads. After a successful ST, an LD of the same mode and address
  operands into any register puts the stored value there and changes nothing else.
\<close>

theorem store_load:
  assumes "wf_vm vm" "get_handler env OP_ST m = Some st" "st vm i = Done (VM_OK, vm1)"
    and "get_handler env OP_LD m = Some ld" "r < N_REG"
  shows "ld vm1 (i\<lparr>ins_a := r\<rparr>) = Done (VM_OK, set_reg r (reg vm (ins_a i)) vm1)"
proof -
  have d: "dispatchST m = Some st" "dispatchLD m = Some ld"
    using get_handler_dispatch [OF assms(2)] get_handler_dispatch [OF assms(4)] by simp_all
  note a = ST_OK_addressed [OF d(1) assms(3)]
  from assms(3) have w: "memWrite64 vm (effective m vm i) (reg vm (ins_a i)) = Done (VM_OK, vm1)"
    by (simp add: ST_addressed [OF a d(1)])
  have regs: "registers vm1 = registers vm"
    using memWrite64_keeps [OF assms(1) _ w] a by (auto simp: addressed_def)
  have a1: "addressed m vm1 (i\<lparr>ins_a := r\<rparr>)" and e: "effective m vm1 (i\<lparr>ins_a := r\<rparr>) = effective m vm i"
    using a assms(5) regs by (auto simp: addressed_def effective_def split: MODE.splits)
  show ?thesis
    using ram.load_stored [OF assms(1) w]
    by (simp add: LD_addressed [OF a1 d(2)] e reading64_def)
qed

theorem store_load_witness:
  "\<exists>vm1. instrSTD (initVM raw_vm\<lparr>registers := [42, 0]\<rparr>)
      \<lparr>opcode = OP_ST, mode = MODE_DIR, ins_a = 0, ins_b = 0, args = 1024\<rparr> = Done (VM_OK, vm1) \<and>
    instrLDD vm1 \<lparr>opcode = OP_ST, mode = MODE_DIR, ins_a = 1, ins_b = 0, args = 1024\<rparr> =
      Done (VM_OK, set_reg 1 42 vm1)"
proof -
  let ?vm = "initVM raw_vm\<lparr>registers := [42, 0]\<rparr>"
  let ?i = "\<lparr>opcode = OP_ST, mode = MODE_DIR, ins_a = 0, ins_b = 0, args = 1024 :: u64\<rparr>"
  have wf: "wf_vm ?vm" using wf_initVM [of raw_vm] by (simp add: wf_vm_def)
  have d: "get_handler idle_env OP_ST MODE_DIR = Some instrSTD" "get_handler idle_env OP_LD MODE_DIR = Some instrLDD"
    by (simp_all add: get_handler_def dispatchST_def dispatchLD_def)
  obtain vm1 where s: "instrSTD ?vm ?i = Done (VM_OK, vm1)"
    using ram.store_total [OF wf, of 1024 42] by (auto simp: instrSTD_def N_REG_def DATA_BASE_def in_ram_def)
  from store_load [OF wf d(1) s d(2), of 1] s show ?thesis by (auto simp: N_REG_def)
qed

lemma swap_cell_in_ram:
  assumes "length (memory vm) = 2048" "in_ram addr"
  shows "swap_cell vm r addr = Done (VM_OK, vm\<lparr>memory := overlay (unat addr) (bytes_le 8 (reg vm r)) (memory vm),
    registers := (registers vm)[unat r := cell (memory vm) (unat addr)]\<rparr>)"
  using assms by (simp add: swap_cell_def reading64_in_ram memWrite64_in_ram)

lemma swap_cell_in_ramI:
  assumes "length (memory vm) = 2048" "swap_cell vm r addr = Done (VM_OK, vm')"
  shows "in_ram addr"
  using assms by (cases "in_ram addr") (auto simp: swap_cell_def reading64_out split: if_splits)

lemma overlay_back:
  assumes "i + 8 \<le> length mem"
  shows "overlay i (bytes_le 8 (cell mem i)) (overlay i (bytes_le 8 v) mem) = mem"
proof -
  have "bytes_le 8 (cell mem i) = take 8 (drop i mem)"
    unfolding cell_def using assms by (intro bytes_le_word_le) auto
  then show ?thesis
    using assms by (intro nth_equalityI) (auto simp: nth_overlay)
qed

text \<open>
  SWP is its own inverse: repeated with the address unchanged, it restores the machine.
\<close>

theorem swap_twice:
  assumes "wf_vm vm" "get_handler env OP_SWP m = Some h" "h vm i = Done (VM_OK, vm1)"
    and "m \<in> {MODE_IND, MODE_IDX} \<longrightarrow> ins_a i \<noteq> ins_b i"
  shows "h vm1 i = Done (VM_OK, vm)"
proof -
  have d: "dispatchSWP m = Some h" using get_handler_dispatch [OF assms(2)] by simp
  show ?thesis
  proof (cases "m = MODE_REG")
    case True
    with d assms(1,3) show ?thesis
      by (auto simp: dispatchSWP_def instrSWPR_def Let_def not_le list_update_swap wf_vm_def N_REG_def
          word_less_nat_alt nth_list_update split: if_splits)
  next
    case False
    note a = SWP_OK_addressed [OF d False assms(3)]
    let ?e = "effective m vm i" and ?a = "ins_a i"
    note len = wf_vmD(2) [OF assms(1)]
    have s: "swap_cell vm ?a ?e = Done (VM_OK, vm1)" using assms(3) by (simp add: SWP_addressed [OF a d])
    note ir = swap_cell_in_ramI [OF len s]
    have vm1: "vm1 = vm\<lparr>memory := overlay (unat ?e) (bytes_le 8 (reg vm ?a)) (memory vm),
        registers := (registers vm)[unat ?a := cell (memory vm) (unat ?e)]\<rparr>"
      using s by (simp add: swap_cell_in_ram [OF len ir])
    have k: "unat ?a < length (registers vm)" using a by (auto simp: addressed_def reg_index [OF assms(1)])
    have "unat ?a \<noteq> unat (ins_b i)" if "m \<noteq> MODE_DIR"
      using that assms(4) a by (auto simp: addressed_def dest: word_unat_eq_iff [THEN iffD2])
    then have a1: "addressed m vm1 i" and e: "effective m vm1 i = ?e"
      using a by (auto simp: vm1 addressed_def effective_def split: MODE.splits)
    have "unat ?e + 8 \<le> length (memory vm)" using ir len by (simp add: in_ram_def)
    with len ir k have "swap_cell vm1 ?a ?e = Done (VM_OK, vm)"
      by (simp add: swap_cell_in_ram vm1 cell_overlay_same overlay_back)
    then show ?thesis by (simp only: SWP_addressed [OF a1 d] e)
  qed
qed

theorem swap_twice_witness:
  "\<exists>vm1. instrSWPD (initVM raw_vm\<lparr>registers := [42, 0]\<rparr>)
      \<lparr>opcode = OP_SWP, mode = MODE_DIR, ins_a = 0, ins_b = 0, args = 1024\<rparr> = Done (VM_OK, vm1) \<and>
    instrSWPD vm1 \<lparr>opcode = OP_SWP, mode = MODE_DIR, ins_a = 0, ins_b = 0, args = 1024\<rparr> =
      Done (VM_OK, initVM raw_vm\<lparr>registers := [42, 0]\<rparr>)"
proof -
  let ?vm = "initVM raw_vm\<lparr>registers := [42, 0]\<rparr>"
  let ?i = "\<lparr>opcode = OP_SWP, mode = MODE_DIR, ins_a = 0, ins_b = 0, args = 1024 :: u64\<rparr>"
  have wf: "wf_vm ?vm" using wf_initVM [of raw_vm] by (simp add: wf_vm_def)
  have d: "get_handler idle_env OP_SWP MODE_DIR = Some instrSWPD"
    by (simp add: get_handler_def dispatchSWP_def)
  obtain vm1 where s: "instrSWPD ?vm ?i = Done (VM_OK, vm1)"
    using swap_cell_in_ram [OF wf_vmD(2) [OF wf], of 1024 0]
    by (auto simp: instrSWPD_def N_REG_def DATA_BASE_def in_ram_def)
  from swap_twice [OF wf d s] s show ?thesis by auto
qed

section \<open>Fetch and set\<close>

text \<open>
  FAS takes the old value of a cell and leaves 1 in the cell when the address is direct;
  when the address is in a register, the 1 goes to the address that is the number of that
  register, in the code segment, and the cell keeps its value.
\<close>

theorem fetch_and_set:
  assumes "wf_vm vm" "ins_a i < N_REG" "ins_b i < N_REG"
  shows "(DATA_BASE \<le> args i \<and> in_ram (args i) \<longrightarrow>
      instrFASD vm i = Done (VM_OK, vm\<lparr>
        registers := (registers vm)[unat (ins_a i) := cell (memory vm) (unat (args i))],
        memory := overlay (unat (args i)) (bytes_le 8 (1 :: u64)) (memory vm)\<rparr>)) \<and>
    (DATA_BASE \<le> reg vm (ins_b i) \<and> in_ram (reg vm (ins_b i)) \<longrightarrow>
      (\<exists>vm'. instrFASI vm i = Done (VM_OK, vm') \<and>
        reg vm' (ins_a i) = cell (memory vm) (unat (reg vm (ins_b i))) \<and>
        cell (memory vm') (unat (reg vm (ins_b i))) = cell (memory vm) (unat (reg vm (ins_b i))) \<and>
        memory vm' = overlay (unat (ins_b i)) (bytes_le 8 (1 :: u64)) (memory vm)))"
proof -
  note len = wf_vmD(2) [OF assms(1)] and k = reg_index [OF assms(1) assms(2)] reg_index [OF assms(1) assms(3)]
  have b: "unat (ucast (ins_b i) :: u64) = unat (ins_b i)" "unat (ins_b i) < 2"
    using assms(3) by (simp_all add: N_REG_def word_less_nat_alt unsigned_ucast_eq take_bit_nat_eq_self)
  then have ir: "in_ram (ucast (ins_b i))" by (simp add: in_ram_def)
  have apart: "cell (overlay (unat (ins_b i)) (bytes_le 8 (1 :: u64)) (memory vm)) (unat p) = cell (memory vm) (unat p)"
    if "DATA_BASE \<le> p" "in_ram p" for p
    using that b len by (intro cell_overlay_apart) (auto simp: in_ram_def DATA_BASE_def word_le_nat_alt)
  show ?thesis
    using assms(2,3) k less_imp_le [OF k(1)] ir b len apart
    by (auto simp: instrFASD_def instrFASI_def get_reg_def reg_ptr_def put_reg_def reading64_in_ram
        memWrite64_in_ram)
qed

theorem fetch_and_set_witness:
  "\<exists>vm'. instrFASI (initVM raw_vm\<lparr>registers := [0, 1024]\<rparr>)
      \<lparr>opcode = OP_FAS, mode = MODE_IND, ins_a = 0, ins_b = 1, args = 0\<rparr> = Done (VM_OK, vm') \<and>
    code vm' \<noteq> code (initVM raw_vm\<lparr>registers := [0, 1024]\<rparr>)"
proof -
  let ?vm = "initVM raw_vm\<lparr>registers := [0, 1024]\<rparr>"
  let ?i = "\<lparr>opcode = OP_FAS, mode = MODE_IND, ins_a = 0, ins_b = 1, args = 0 :: u64\<rparr>"
  have wf: "wf_vm ?vm" using wf_initVM [of raw_vm] by (simp add: wf_vm_def)
  obtain vm' where vm': "instrFASI ?vm ?i = Done (VM_OK, vm')" "memory vm' = overlay 1 (bytes_le 8 (1 :: u64)) (memory ?vm)"
    using fetch_and_set [OF wf, of ?i] by (auto simp: N_REG_def DATA_BASE_def in_ram_def)
  have "code vm' ! 1 = 1" "code ?vm ! 1 = 0"
    by (simp_all add: code_def vm'(2) nth_overlay initVM_def MEM_SIZE_def)
  then have "code vm' \<noteq> code ?vm" by auto
  with vm'(1) show ?thesis by blast
qed

end
