(* ===== verification/Machine.thy ===== *)
theory Machine
  imports Instruction_Set Stack
begin

text \<open>
  What the machine promises as a whole: the invariant and the code segment along a run, the
  meaning of \<open>vm_run\<close>, the execution of an encoded instruction, and the end of straight-line
  programs.
\<close>

unbundle bit_operations_syntax

section \<open>A concrete machine\<close>

text \<open>A machine after \<open>initVM\<close>, with the given code from address 0 on.\<close>

definition with_code :: "u8 list \<Rightarrow> vm" where
  "with_code bs = (initVM raw_vm)\<lparr>memory := bs @ zeros (2048 - length bs)\<rparr>"

lemma replicate_2: "replicate 2 x = [x, x]"
  by (simp add: numeral_2_eq_2)

lemma with_code_fields [simp]:
  "pc (with_code bs) = 0" "sp (with_code bs) = 2048" "registers (with_code bs) = [0, 0]"
  "running (with_code bs)" "memory (with_code bs) = bs @ zeros (2048 - length bs)"
  by (simp_all add: with_code_def initVM_def MEM_SIZE_def N_REG_def replicate_2)

lemma wf_with_code: "length bs \<le> 2048 \<Longrightarrow> wf_vm (with_code bs)"
  using wf_initVM [of raw_vm] by (simp add: with_code_def wf_vm_def)

lemma holds_at_with_code: "holds_at (with_code (xs @ bs @ ys)) (length xs) bs"
  by (simp add: holds_at_def)

definition instr :: "OP_CODE \<Rightarrow> MODE \<Rightarrow> u8 \<Rightarrow> u8 \<Rightarrow> u64 \<Rightarrow> instruction" where
  "instr op m a b x = \<lparr>opcode = op, mode = m, ins_a = a, ins_b = b, args = x\<rparr>"

lemma decoded_over_idle:
  assumes "m = MODE_NONE \<Longrightarrow> a = 0" "m \<notin> {MODE_REG, MODE_IND, MODE_IDX} \<Longrightarrow> b = 0"
    "m \<notin> {MODE_IMM, MODE_DIR, MODE_IDX} \<Longrightarrow> x = 0"
  shows "decoded_over (junk_instr idle_env) (instr op m a b x) = instr op m a b x"
  using assms by (cases m) (simp_all add: decoded_over_def idle_env_def instr_def codecB_def codecARGS_def)

section \<open>Zeroed code\<close>

text \<open>Two zero bytes decode as ADD without operands, which no handler implements.\<close>

lemma cpu_step_zeros:
  assumes "wf_vm vm" "holds_at vm (unat (pc vm)) [0, 0]" "unat (pc vm) + 2 \<le> 1023"
  shows "cpu_step env vm = Done (VM_UNKNOWN_INSTR, vm)"
  using cpu_step_encoding [OF assms(1), of "instr OP_ADD MODE_NONE 0 0 0" env] assms(2,3)
  by (simp add: instr_def encoding_def fits_at_def decode_need_def get_handler_def dispatchADD_def)

lemma zeros_holds_at: "p + 2 \<le> 2048 \<Longrightarrow> memory vm = zeros 2048 \<Longrightarrow> holds_at vm p [0, 0]"
  by (simp add: holds_at_def zeros_def numeral_2_eq_2 min_def)

section \<open>A run in full\<close>

text \<open>NOP and HALT, executed to the end.\<close>

definition nop_halt :: vm where
  "nop_halt = with_code (encoding (instr OP_NOP MODE_NONE 0 0 0) @ encoding (instr OP_HALT MODE_NONE 0 0 0))"

lemma nop_halt_fetched:
  "fetched idle_env nop_halt = Some (instr OP_NOP MODE_NONE 0 0 0, instrNOP)"
  "fetched idle_env (nop_halt\<lparr>pc := 2\<rparr>) = Some (instr OP_HALT MODE_NONE 0 0 0, instrHALT)"
proof -
  have wf: "wf_vm nop_halt" "wf_vm (nop_halt\<lparr>pc := 2\<rparr>)"
    by (simp_all add: nop_halt_def wf_with_code encoding_def instr_def)
  have at: "holds_at nop_halt 0 (encoding (instr OP_NOP MODE_NONE 0 0 0))"
    "holds_at (nop_halt\<lparr>pc := 2\<rparr>) 2 (encoding (instr OP_HALT MODE_NONE 0 0 0))"
    by (simp_all add: nop_halt_def holds_at_def encoding_def instr_def numeral_2_eq_2)
  have h: "get_handler idle_env OP_NOP MODE_NONE = Some instrNOP"
    "get_handler idle_env OP_HALT MODE_NONE = Some instrHALT"
    by (simp_all add: get_handler_def dispatchNOP_def dispatchHALT_def)
  have i: "opcode (instr op m a b x) = op" "mode (instr op m a b x) = m" for op m a b x
    by (simp_all add: instr_def)
  have p: "pc nop_halt = 0" by (simp add: nop_halt_def)
  show "fetched idle_env nop_halt = Some (instr OP_NOP MODE_NONE 0 0 0, instrNOP)"
    using fetched_encoding [OF wf(1), of "instr OP_NOP MODE_NONE 0 0 0" idle_env instrNOP] at(1) h(1) p
    by (simp add: i fits_at_def decode_need_def decoded_over_idle)
  show "fetched idle_env (nop_halt\<lparr>pc := 2\<rparr>) = Some (instr OP_HALT MODE_NONE 0 0 0, instrHALT)"
    using fetched_encoding [OF wf(2), of "instr OP_HALT MODE_NONE 0 0 0" idle_env instrHALT] at(2) h(2)
    by (simp add: i fits_at_def decode_need_def decoded_over_idle)
qed

lemma nop_halt_steps:
  "cpu_step idle_env nop_halt = Done (VM_OK, nop_halt\<lparr>pc := 2\<rparr>)"
  "cpu_step idle_env (nop_halt\<lparr>pc := 2\<rparr>) = Done (VM_OK, nop_halt\<lparr>pc := 4, running := False\<rparr>)"
proof -
  have p: "pc nop_halt = 0" by (simp add: nop_halt_def)
  show "cpu_step idle_env nop_halt = Done (VM_OK, nop_halt\<lparr>pc := 2\<rparr>)"
    by (simp add: cpu_step_fetched(1) [OF nop_halt_fetched(1)] instrNOP_def advance_def instr_def p)
  show "cpu_step idle_env (nop_halt\<lparr>pc := 2\<rparr>) = Done (VM_OK, nop_halt\<lparr>pc := 4, running := False\<rparr>)"
    by (simp add: cpu_step_fetched(1) [OF nop_halt_fetched(2)] instrHALT_def advance_def instr_def)
qed

lemma nop_halt_cycles:
  "cycles (\<lambda>_. idle_env) nop_halt k vm \<Longrightarrow> k = 0 \<and> vm = nop_halt \<or> k = 1 \<and> vm = nop_halt\<lparr>pc := 2\<rparr>"
  by (induction rule: cycles.induct) (auto simp: nop_halt_steps)

lemma nop_halt_cycle: "cycles (\<lambda>_. idle_env) nop_halt 1 (nop_halt\<lparr>pc := 2\<rparr>)"
  using cycles_Suc [OF cycles_0, of "\<lambda>_. idle_env" nop_halt "nop_halt\<lparr>pc := 2\<rparr>"] nop_halt_steps
  by (simp add: nop_halt_def)

lemma wf_nop_halt: "wf_vm nop_halt"
  by (simp add: nop_halt_def wf_with_code encoding_def instr_def)

section \<open>Invariants of a run\<close>

text \<open>
  C1: the invariant of the machine holds before and after every cycle of every run that starts
  in a machine where it holds, whatever the code, the environment and the outcome of the
  cycle: two registers, 2048 bytes of memory, a stack pointer that is a multiple of 8 in
  the stack segment, and a chain of blocks that covers the heap without gap or overlap.
\<close>

theorem run_keeps_invariant:
  assumes "wf_vm vm" "cycles envs vm n vm1" "cpu_step (envs n) vm1 = Done (st, vm2)"
  shows "wf_vm vm1 \<and> wf_vm vm2"
  using wf_cycles [OF assms(2,1)] wf_cpu_step [OF assms(3)] by blast

theorem run_keeps_invariant_witness:
  "cpu_step idle_env (initVM raw_vm) = Done (VM_UNKNOWN_INSTR, initVM raw_vm) \<and> wf_vm (initVM raw_vm)"
proof -
  have "cpu_step idle_env (initVM raw_vm) = Done (VM_UNKNOWN_INSTR, initVM raw_vm)"
    by (rule cpu_step_zeros [OF wf_initVM])
      (auto intro!: zeros_holds_at simp: initVM_def MEM_SIZE_def)
  with run_keeps_invariant [OF wf_initVM cycles_0, of "\<lambda>_. idle_env"] show ?thesis by blast
qed

text \<open>
  C5: the code segment is write-protected, with three exceptions. Along a run whose fetched
  instructions are neither RST, nor FAS through a register, nor a MEMCPY system call, the
  bytes below \<open>DATA_BASE\<close> never change; no other instruction or system call, with any
  operands, can store there.
\<close>

theorem code_protected:
  assumes "wf_vm vm" "cycles envs vm n vm'"
    and "\<forall>k vm1. cycles envs vm k vm1 \<longrightarrow> safe_code (envs k) vm1"
  shows "code vm' = code vm"
  by (rule code_cycles [OF assms(2,1)]) (use assms(3) in blast)

theorem code_protected_witness:
  "cycles (\<lambda>_. idle_env) nop_halt 1 (nop_halt\<lparr>pc := 2\<rparr>) \<and> code (nop_halt\<lparr>pc := 2\<rparr>) = code nop_halt"
proof -
  have "safe_code idle_env vm1" if "cycles (\<lambda>_. idle_env) nop_halt k vm1" for k vm1
    using nop_halt_cycles [OF that]
    by (auto simp: safe_code_def nop_halt_fetched may_write_code_def instr_def)
  with code_protected [OF wf_nop_halt nop_halt_cycle] nop_halt_cycle show ?thesis by blast
qed

section \<open>The loop\<close>

lemma last_cycle_iff: "Done (st, n, vm') = last_cycle k x \<longleftrightarrow> k = n \<and> x = Done (st, vm')"
  by (cases x) (auto simp: last_cycle_def)

text \<open>
  C17: \<open>vm_run\<close> executes cycles until one reports an error or clears \<open>running\<close>: it returns
  exactly when, after some number of cycles that go on, a cycle stops, and its result is
  that cycle's (with the count printed when it is an error); it does not return exactly
  when there are cycles that go on of every number.
\<close>

theorem vm_run_characterised:
  "(vm_run envs vm = None \<longleftrightarrow> (\<forall>n. \<exists>vm1. cycles envs vm n vm1)) \<and>
   (vm_run envs vm = Some (Done (st, vm')) \<longleftrightarrow>
     (\<exists>n vm1 vm2. cycles envs vm n vm1 \<and> cpu_step (envs n) vm1 = Done (st, vm2) \<and>
       (if st = VM_OK then \<not> running vm2 \<and> vm' = vm2
        else vm' = vm2\<lparr>trace := trace vm2 @ [Print_cycles (word_of_nat (n + 1))]\<rparr>)))"
proof -
  have "vm_run envs vm = None \<longleftrightarrow> (\<forall>n. \<exists>vm1. cycles envs vm n vm1)"
    by (simp add: vm_run_def run_loop_None)
  moreover have "vm_run envs vm = Some (Done (st, vm')) \<longleftrightarrow>
      (\<exists>n vm2. run_loop envs 0 vm = Some (Done (st, n, vm2)) \<and>
        vm' = (if st = VM_OK then vm2 else vm2\<lparr>trace := trace vm2 @ [Print_cycles (word_of_nat (n + 1))]\<rparr>))"
    by (auto simp: vm_run_def obind_Done_iff)
  moreover have "run_loop envs 0 vm = Some (Done (st, n, vm2)) \<longleftrightarrow>
      (\<exists>vm1. cycles envs vm n vm1 \<and> cpu_step (envs n) vm1 = Done (st, vm2) \<and> (st = VM_OK \<longrightarrow> \<not> running vm2))"
    for n vm2
    unfolding run_loop_iff by (auto simp: last_cycle_iff stops_def)
  ultimately show ?thesis by (cases "st = VM_OK") (simp only: if_True if_False simp_thms; blast)+
qed

section \<open>Straight-line programs\<close>

text \<open>
  C18: a program that never transfers control ends. If no instruction fetched along the run is a
  jump, CALL, RTN or RST, the program counter grows by at least 2 every cycle, so the run
  stops before \<open>pc\<close> leaves the code segment: \<open>vm_run\<close> returns, and after at most 512 full
  cycles.
\<close>

theorem straight_line_ends:
  assumes "wf_vm vm"
    and "\<forall>k vm1 i h. cycles envs vm k vm1 \<longrightarrow> fetched (envs k) vm1 = Some (i, h) \<longrightarrow> \<not> transfers (opcode i)"
  shows "vm_run envs vm \<noteq> None \<and> (\<forall>n vm1. cycles envs vm n vm1 \<longrightarrow> n \<le> 512)"
proof -
  have bound: "n \<le> 512" if c: "cycles envs vm n vm1" for n vm1
  proof (cases n)
    case (Suc m)
    have "unat (pc vm) + 2 * m < 1024"
      by (rule straight_line_bound [OF assms(1) c [unfolded Suc]]) (use assms(2) in blast)
    with Suc show ?thesis by simp
  qed simp
  have "\<nexists>vm1. cycles envs vm 513 vm1" using bound by fastforce
  then have "run_loop envs 0 vm \<noteq> None" unfolding run_loop_None by blast
  with bound show ?thesis by (auto simp: vm_run_def)
qed

theorem straight_line_ends_witness:
  "vm_run (\<lambda>_. idle_env) nop_halt \<noteq> None"
proof -
  have "\<not> transfers (opcode i)"
    if c: "cycles (\<lambda>_. idle_env) nop_halt k vm1" and f: "fetched idle_env vm1 = Some (i, h)" for k vm1 i h
    using nop_halt_cycles [OF c] f by (auto simp: nop_halt_fetched transfers_def instr_def)
  with straight_line_ends [OF wf_nop_halt, of "\<lambda>_. idle_env"] show ?thesis by blast
qed

section \<open>Executing an instruction\<close>

text \<open>
  C6: one cycle executes the instruction at \<open>pc\<close>. Where the memory holds the encoding of an
  instruction that a handler implements, with two more bytes before the last one of the code
  segment, the cycle runs that handler on the decoded instruction, whose unused fields and
  argument still carry what the C local held before, and then steps over the encoding unless
  the handler moved \<open>pc\<close> or failed.
\<close>

theorem cycle_executes:
  assumes "wf_vm vm" "holds_at vm (unat (pc vm)) (encoding i)" "fits_at (unat (pc vm)) (mode i)"
    and "get_handler env (opcode i) (mode i) = Some h"
  shows "cpu_step env vm = obind (h vm (decoded_over (junk_instr env) i)) (\<lambda>(status, vm').
      Done (status, if status = VM_OK \<and> pc vm' = pc vm then vm'\<lparr>pc := pc vm + mode_size (mode i)\<rparr> else vm')) \<and>
    (args (junk_instr env) = 0 \<longrightarrow> codecARGS i \<longrightarrow> args (decoded_over (junk_instr env) i) = args i)"
proof -
  have "(\<lambda>(status, vm'). Done (status, if status = VM_OK \<and> pc vm' = pc vm
      then vm'\<lparr>pc := pc vm + mode_size (mode i)\<rparr> else vm')) = (\<lambda>r. Done (advance (pc vm) (mode_size (mode i)) r))"
    by (auto simp: advance_def)
  with cpu_step_handler [OF assms] show ?thesis by (simp add: decoded_over_def)
qed

theorem cycle_executes_witness:
  "cpu_step idle_env (with_code (encoding (instr OP_LD MODE_IMM 0 0 42))) =
    Done (VM_OK, with_code (encoding (instr OP_LD MODE_IMM 0 0 42))\<lparr>pc := 11, registers := [42, 0]\<rparr>)"
proof -
  let ?i = "instr OP_LD MODE_IMM 0 0 42"
  let ?vm = "with_code (encoding ?i)"
  have "mode ?i = MODE_IMM" "opcode ?i = OP_LD" by (simp_all add: instr_def)
  moreover have "wf_vm ?vm" by (rule wf_with_code) (simp add: length_encoding instr_def)
  moreover have "holds_at ?vm 0 (encoding ?i)" by (simp add: holds_at_def)
  moreover have "get_handler idle_env OP_LD MODE_IMM = Some instrLD"
    by (simp add: get_handler_def dispatchLD_def)
  moreover have "decoded_over (junk_instr idle_env) ?i = ?i" by (rule decoded_over_idle) simp_all
  moreover have "instrLD ?vm ?i = Done (VM_OK, ?vm\<lparr>registers := [42, 0]\<rparr>)"
    by (simp add: instrLD_def instr_def N_REG_def)
  ultimately show ?thesis
    using cycle_executes [of ?vm ?i idle_env instrLD] by (simp add: fits_at_def decode_need_def)
qed

section \<open>Corner cases of the cycle\<close>

text \<open>
  a jump or call to its own address falls through: the cycle cannot tell it from an
  instruction that did not move \<open>pc\<close>, and steps over it. A one-instruction endless loop is
  therefore no loop on this machine.
\<close>

theorem jump_to_self_falls_through:
  assumes "wf_vm vm" "mode i = MODE_IMM" "opcode i = OP_JMP" "args i = pc vm"
    and "holds_at vm (unat (pc vm)) (encoding i)" "fits_at (unat (pc vm)) MODE_IMM"
    and "args (junk_instr env) = 0"
  shows "cpu_step env vm = Done (VM_OK, vm\<lparr>pc := pc vm + 11\<rparr>)"
proof -
  have h: "get_handler env (opcode i) (mode i) = Some instrJMP"
    by (simp add: assms(2,3) get_handler_def dispatchJMP_def)
  have "args (decoded_over (junk_instr env) i) = pc vm"
    using assms(2,4,7) by (simp add: decoded_over_def codecARGS_def)
  then have "instrJMP vm (decoded_over (junk_instr env) i) = Done (VM_OK, vm)"
    using fits_at_remaining(1) [OF assms(6)] by (simp add: instrJMP_def jump_def)
  with cpu_step_handler [OF assms(1,5) _ h] assms(2,6) show ?thesis
    by (simp add: advance_def)
qed

theorem jump_to_self_falls_through_witness:
  "cpu_step idle_env (with_code (encoding (instr OP_JMP MODE_IMM 0 0 0))) =
    Done (VM_OK, with_code (encoding (instr OP_JMP MODE_IMM 0 0 0))\<lparr>pc := 11\<rparr>)"
proof -
  let ?i = "instr OP_JMP MODE_IMM 0 0 0"
  have "mode ?i = MODE_IMM" "opcode ?i = OP_JMP" "args ?i = 0" by (simp_all add: instr_def)
  moreover have "wf_vm (with_code (encoding ?i))" by (rule wf_with_code) (simp add: length_encoding instr_def)
  moreover have "holds_at (with_code (encoding ?i)) 0 (encoding ?i)" by (simp add: holds_at_def)
  ultimately show ?thesis
    using jump_to_self_falls_through [of "with_code (encoding ?i)" ?i idle_env]
    by (simp add: fits_at_def decode_need_def idle_env_def)
qed

text \<open>
  RST ends the program. It clears the memory and with it the code, so the cycle after it
  finds two zero bytes and reports \<open>VM_UNKNOWN_INSTR\<close>, at address 0 or, for an RST at address
  0, at address 2.
\<close>

theorem reset_ends_program:
  assumes "wf_vm vm" "mode i = MODE_NONE" "opcode i = OP_RST"
    and "holds_at vm (unat (pc vm)) (encoding i)" "fits_at (unat (pc vm)) MODE_NONE"
  shows "\<exists>vm'. cpu_step env vm = Done (VM_OK, vm') \<and> memory vm' = zeros 2048 \<and>
    pc vm' = (if pc vm = 0 then 2 else 0) \<and> running vm' \<and> stack_of vm' = [] \<and>
    cpu_step env' vm' = Done (VM_UNKNOWN_INSTR, vm')"
proof -
  have h: "get_handler env (opcode i) (mode i) = Some instrRST"
    by (simp add: assms(2,3) get_handler_def dispatchRST_def)
  let ?vm0 = "initVM (destroyVM vm)"
  let ?vm1 = "if pc vm = 0 then ?vm0\<lparr>pc := 2\<rparr> else ?vm0"
  have p0: "pc ?vm0 = 0" "memory ?vm0 = zeros 2048" "running ?vm0"
    by (simp_all add: initVM_def MEM_SIZE_def)
  have step: "cpu_step env vm = Done (VM_OK, ?vm1)"
    using cpu_step_handler [OF assms(1,4) _ h] assms(2,5) p0(1)
    by (auto simp: instrRST_def advance_def)
  have m: "wf_vm ?vm1" "memory ?vm1 = zeros 2048" "pc ?vm1 = (if pc vm = 0 then 2 else 0)" "running ?vm1"
    using p0 by (simp_all add: wf_initVM)
  have z: "holds_at ?vm1 (unat (pc ?vm1)) [0, 0]"
    by (rule zeros_holds_at [OF _ m(2)]) (simp add: m(3))
  have "cpu_step env' ?vm1 = Done (VM_UNKNOWN_INSTR, ?vm1)"
    by (rule cpu_step_zeros [OF m(1) z]) (simp add: m(3))
  moreover have "stack_of ?vm1 = []" by (simp add: stack_initVM)
  ultimately show ?thesis using step m(2-4) by blast
qed

theorem reset_ends_program_witness:
  "\<exists>vm'. cpu_step idle_env (with_code (encoding (instr OP_RST MODE_NONE 0 0 0))) = Done (VM_OK, vm') \<and>
    cpu_step idle_env vm' = Done (VM_UNKNOWN_INSTR, vm')"
proof -
  let ?i = "instr OP_RST MODE_NONE 0 0 0"
  have "mode ?i = MODE_NONE" "opcode ?i = OP_RST" by (simp_all add: instr_def)
  moreover have "wf_vm (with_code (encoding ?i))" by (rule wf_with_code) (simp add: length_encoding instr_def)
  moreover have "holds_at (with_code (encoding ?i)) 0 (encoding ?i)" by (simp add: holds_at_def)
  ultimately show ?thesis
    using reset_ends_program [of "with_code (encoding ?i)" ?i idle_env idle_env]
    by (auto simp: fits_at_def decode_need_def)
qed

text \<open>
  what a cycle does when it dispatches nothing, by the program counter. At or above
  \<open>DATA_BASE\<close> it refuses the address. At 1022 and 1023 nothing is decoded, and the size it
  compares with is that of the mode the local instruction happens to hold. Below, a byte that
  is no operation code ends the process.
\<close>

theorem fetch_failures:
  assumes "wf_vm vm"
  shows "(1024 \<le> unat (pc vm) \<longrightarrow> cpu_step env vm = Done (VM_INVALID_EXECUTION_ADDRESS, vm)) \<and>
    (unat (pc vm) \<in> {1022, 1023} \<longrightarrow> cpu_step env vm =
      (if mode (junk_instr env) = MODE_COUNT then Undefined else Done (VM_TRUNCATED_INSTR, vm))) \<and>
    (unat (pc vm) < 1022 \<longrightarrow> 31 \<le> unat (memory vm ! unat (pc vm)) \<longrightarrow> cpu_step env vm = Exit_failure)"
proof -
  let ?p = "unat (pc vm)"
  have len: "length (memory vm) = 2048" using assms by (rule wf_vmD)
  have r: "\<not> DATA_BASE \<le> pc vm \<and> unat (DATA_BASE - pc vm - 1) = 1023 - ?p" if "?p < 1024"
  proof -
    have a: "pc vm \<le> DATA_BASE" "\<not> DATA_BASE \<le> pc vm"
      using that by (simp_all add: DATA_BASE_def word_le_nat_alt)
    then have "unat (DATA_BASE - pc vm) = 1024 - ?p" by (simp add: unat_sub DATA_BASE_def)
    with that a show ?thesis by (simp add: unat_sub word_le_nat_alt)
  qed
  have "cpu_step env vm = Done (VM_INVALID_EXECUTION_ADDRESS, vm)" if "1024 \<le> ?p"
    using that by (simp add: cpu_step_def DATA_BASE_def word_le_nat_alt)
  moreover have "cpu_step env vm =
      (if mode (junk_instr env) = MODE_COUNT then Undefined else Done (VM_TRUNCATED_INSTR, vm))"
    if "?p \<in> {1022, 1023}"
  proof -
    have "?p < 1024" using that by auto
    with r that have "\<not> DATA_BASE \<le> pc vm" "DATA_BASE - pc vm - 1 < 2"
      by (auto simp: word_less_nat_alt)
    moreover have "m \<noteq> MODE_COUNT \<Longrightarrow> mode_size m \<noteq> 0" for m by (cases m) simp_all
    ultimately show ?thesis by (auto simp: cpu_step_def instructionDecode_def dest: sym)
  qed
  moreover have "cpu_step env vm = Exit_failure" if "?p < 1022" "31 \<le> unat (memory vm ! ?p)"
  proof -
    have "\<not> DATA_BASE \<le> pc vm" "\<not> DATA_BASE - pc vm - 1 < 2"
      using r that(1) by (auto simp: word_less_nat_alt)
    moreover have "op_of_byte (memory vm ! ?p) = OP_COUNT"
      using that(2) by (simp add: op_of_byte_def all_ops_def)
    ultimately show ?thesis
      using that(1) len by (simp add: cpu_step_def instructionDecode_def peek_def)
  qed
  ultimately show ?thesis by blast
qed

theorem fetch_failures_witness:
  "cpu_step idle_env (with_code [0xFF]) = Exit_failure \<and>
    cpu_step idle_env (with_code []\<lparr>pc := 1022\<rparr>) = Done (VM_TRUNCATED_INSTR, with_code []\<lparr>pc := 1022\<rparr>)"
  using fetch_failures [OF wf_with_code, of "[0xFF]" idle_env]
    fetch_failures [of "with_code []\<lparr>pc := 1022\<rparr>" idle_env] wf_with_code [of "[]"]
  by (simp add: idle_env_def)

end
