(* ===== verification/Binary.thy ===== *)
theory Binary
  imports Vm
begin

text \<open>
  The executable file format of \<^verbatim>\<open>src/format/binary.c\<close>: a 28-byte little-endian header, the code
  and the data. A file is the list of its bytes; \<open>read\<close> and \<open>write\<close> on a regular file
  transfer all the bytes there are, \<open>CHK\<close> ends the process when a call fails.
\<close>

unbundle bit_operations_syntax

section \<open>Data\<close>

definition MAGIC_NUMBER :: u32 where "MAGIC_NUMBER = 0x66838677"
definition HDR_SIZE :: nat where "HDR_SIZE = 28"

record BinaryHeader =
  magic_number :: u32
  entry_point :: u64
  code_size :: u64
  data_size :: u64

record Binary =
  headers :: BinaryHeader
  bytecode :: "u8 list"
  data :: "u8 list"

section \<open>Reading\<close>

text \<open>
  \<open>read(fd, buffer, count)\<close>: what the file still holds, up to \<open>count\<close> bytes, goes to the front
  of the buffer, which must be large enough for it.
\<close>

definition read_file :: "u8 list \<Rightarrow> u64 \<Rightarrow> u8 list \<Rightarrow> (u8 list \<times> u8 list) outcome" where
  "read_file rest count buffer =
     (let n = min (unat count) (length rest)
      in if n \<le> length buffer then Done (take n rest @ drop n buffer, drop n rest) else Undefined)"

text \<open>The loop that gathers one little-endian field by or-ing bytes into its old value.\<close>

definition gather :: "u8 list \<Rightarrow> nat \<Rightarrow> nat \<Rightarrow> 'a::len word \<Rightarrow> 'a word" where
  "gather buffer cursor k field = or_bytes 0 (take k (drop cursor buffer)) field"

text \<open>
  The bound of the data check is \<open>(size_t) (DATA_BASE - STACK_BASE)\<close>, a negative number
  converted to an unsigned one.
\<close>

definition readBinaryFile :: "u8 list option \<Rightarrow> Binary \<Rightarrow> Binary outcome" where
  "readBinaryFile file binary =
     (case file of
        None \<Rightarrow> Exit_failure
      | Some content \<Rightarrow>
          obind (read_file content (of_nat HDR_SIZE) (replicate HDR_SIZE 0)) (\<lambda>(buffer, rest).
          let h = headers binary;
              h = h\<lparr>magic_number := gather buffer 0 4 (magic_number h)\<rparr>
          in if magic_number h \<noteq> MAGIC_NUMBER then Exit_failure
          else let h = h\<lparr>entry_point := gather buffer 4 8 (entry_point h)\<rparr>;
                   h = h\<lparr>code_size := gather buffer 12 8 (code_size h)\<rparr>;
                   h = h\<lparr>data_size := gather buffer 20 8 (data_size h)\<rparr>
          in if code_size h \<ge> DATA_BASE then Exit_failure
          else if data_size h \<ge> DATA_BASE - STACK_BASE then Exit_failure
          else obind (read_file rest (code_size h) (bytecode binary)) (\<lambda>(code, rest).
            obind (read_file rest (data_size h) (data binary)) (\<lambda>(data, rest).
              Done \<lparr>headers = h, bytecode = code, data = data\<rparr>))))"

section \<open>Writing\<close>

text \<open>\<open>write(fd, buffer, count)\<close> reads \<open>count\<close> bytes from the buffer.\<close>

definition write_file :: "u8 list \<Rightarrow> u64 \<Rightarrow> u8 list outcome" where
  "write_file buffer count = (if unat count \<le> length buffer then Done (take (unat count) buffer) else Undefined)"

definition header_bytes :: "BinaryHeader \<Rightarrow> u8 list" where
  "header_bytes h =
     map (\<lambda>i. ucast (drop_bit (8 * i) (magic_number h))) [0..<4] @
     map (\<lambda>i. ucast (drop_bit (8 * i) (entry_point h))) [0..<8] @
     map (\<lambda>i. ucast (drop_bit (8 * i) (code_size h))) [0..<8] @
     map (\<lambda>i. ucast (drop_bit (8 * i) (data_size h))) [0..<8]"

text \<open>The content of the file afterwards; \<open>created\<close> says whether \<open>open\<close> succeeded.\<close>

definition writeBinaryFile :: "bool \<Rightarrow> Binary \<Rightarrow> u8 list outcome" where
  "writeBinaryFile created binary =
     (if \<not> created then Exit_failure
      else let buffer = header_bytes (headers binary)
      in obind (write_file buffer (of_nat HDR_SIZE)) (\<lambda>w1.
        obind (write_file (bytecode binary) (code_size (headers binary))) (\<lambda>w2.
        obind (write_file (data binary) (data_size (headers binary))) (\<lambda>w3.
          Done (w1 @ w2 @ w3)))))"

section \<open>Headers\<close>

lemma header_bytes_le:
  "header_bytes h = bytes_le 4 (magic_number h) @ bytes_le 8 (entry_point h) @
     bytes_le 8 (code_size h) @ bytes_le 8 (data_size h)"
  by (simp add: header_bytes_def bytes_le_def)

lemma length_header_bytes [simp]: "length (header_bytes h) = 28"
  by (simp add: header_bytes_le)

lemma gather_field:
  fixes w :: "'a::len word"
  assumes "take k (drop cursor buffer) = bytes_le k w" "LENGTH('a) \<le> 8 * k"
  shows "gather buffer cursor k 0 = w"
  using assms by (simp add: gather_def or_bytes_word_le word_le_bytes_le)

lemma gather_header:
  "gather (header_bytes h) 0 4 0 = magic_number h" "gather (header_bytes h) 4 8 0 = entry_point h"
  "gather (header_bytes h) 12 8 0 = code_size h" "gather (header_bytes h) 20 8 0 = data_size h"
  by (auto intro!: gather_field simp: header_bytes_le)

lemma read_file_exact:
  "unat n = length xs \<Longrightarrow> length xs \<le> length buffer \<Longrightarrow>
    read_file (xs @ rest) n buffer = Done (xs @ drop (length xs) buffer, rest)"
  by (simp add: read_file_def)

lemma writeBinaryFile_Done:
  assumes "writeBinaryFile True b = Done file"
  shows "file = header_bytes (headers b) @ take (unat (code_size (headers b))) (bytecode b) @
      take (unat (data_size (headers b))) (data b)"
    and "unat (code_size (headers b)) \<le> length (bytecode b)"
    and "unat (data_size (headers b)) \<le> length (data b)"
  using assms by (auto simp: writeBinaryFile_def write_file_def HDR_SIZE_def obind_Done_iff split: if_splits)

text \<open>A header without fields, as \<open>main\<close> passes it.\<close>

definition blank_header :: BinaryHeader where
  "blank_header = \<lparr>magic_number = 0, entry_point = 0, code_size = 0, data_size = 0\<rparr>"

lemma read_header:
  assumes "headers b = blank_header" "magic_number h = MAGIC_NUMBER"
  shows "readBinaryFile (Some (header_bytes h @ rest)) b =
    (if code_size h \<ge> DATA_BASE then Exit_failure
     else if data_size h \<ge> DATA_BASE - STACK_BASE then Exit_failure
     else obind (read_file rest (code_size h) (bytecode b)) (\<lambda>(code, rest).
       obind (read_file rest (data_size h) (data b)) (\<lambda>(data, rest).
         Done \<lparr>headers = h, bytecode = code, data = data\<rparr>)))"
  using assms
  by (cases h) (simp add: readBinaryFile_def read_file_exact HDR_SIZE_def blank_header_def gather_header Let_def)

section \<open>Reading back\<close>

lemma read_back:
  assumes "writeBinaryFile True b = Done file" "magic_number (headers b) = MAGIC_NUMBER"
    and "unat (code_size (headers b)) < 1024" "unat (data_size (headers b)) < 2 ^ 64 - 512"
    and "headers dst = blank_header" "unat (code_size (headers b)) \<le> length (bytecode dst)"
    and "unat (data_size (headers b)) \<le> length (data dst)"
  shows "\<exists>b'. readBinaryFile (Some file) dst = Done b' \<and> headers b' = headers b \<and>
    take (unat (code_size (headers b))) (bytecode b') = take (unat (code_size (headers b))) (bytecode b) \<and>
    take (unat (data_size (headers b))) (data b') = take (unat (data_size (headers b))) (data b)"
proof -
  note w = writeBinaryFile_Done [OF assms(1)]
  let ?c = "code_size (headers b)" and ?d = "data_size (headers b)"
  have "\<not> DATA_BASE \<le> ?c" using assms(3) by (simp add: DATA_BASE_def word_le_nat_alt)
  moreover have "\<not> DATA_BASE - STACK_BASE \<le> ?d" using assms(4) by (simp add: memory_map word_le_nat_alt)
  moreover have "read_file (take (unat ?c) (bytecode b) @ take (unat ?d) (data b)) ?c (bytecode dst) =
      Done (take (unat ?c) (bytecode b) @ drop (unat ?c) (bytecode dst), take (unat ?d) (data b))"
    using read_file_exact [of ?c "take (unat ?c) (bytecode b)" "bytecode dst"] w(2) assms(6) by simp
  moreover have "read_file (take (unat ?d) (data b)) ?d (data dst) =
      Done (take (unat ?d) (data b) @ drop (unat ?d) (data dst), [])"
    using read_file_exact [of ?d "take (unat ?d) (data b)" "data dst" "[]"] w(3) assms(7) by simp
  ultimately show ?thesis
    using w by (simp add: w(1) read_header [OF assms(5,2)])
qed

section \<open>Properties\<close>

text \<open>
  C35: reading inverts writing. A binary that is written and whose code fits the code segment is
  read back with the same header, code and data, into buffers that are large enough, whatever
  else they held.
\<close>

theorem binary_roundtrip:
  assumes "writeBinaryFile True b = Done file" "magic_number (headers b) = MAGIC_NUMBER"
    and "unat (code_size (headers b)) < 1024" "unat (data_size (headers b)) < 2 ^ 64 - 512"
    and "headers dst = blank_header" "unat (code_size (headers b)) \<le> length (bytecode dst)"
    and "unat (data_size (headers b)) \<le> length (data dst)"
  shows "\<exists>b'. readBinaryFile (Some file) dst = Done b' \<and> headers b' = headers b \<and>
    take (unat (code_size (headers b))) (bytecode b') = take (unat (code_size (headers b))) (bytecode b) \<and>
    take (unat (data_size (headers b))) (data b') = take (unat (data_size (headers b))) (data b)"
  using assms by (rule read_back)

theorem binary_roundtrip_witness:
  "\<exists>file b'. writeBinaryFile True \<lparr>headers = \<lparr>magic_number = MAGIC_NUMBER, entry_point = 0, code_size = 2, data_size = 1\<rparr>,
      bytecode = [29, 0], data = [7]\<rparr> = Done file \<and>
    readBinaryFile (Some file) \<lparr>headers = blank_header, bytecode = replicate 1024 0, data = replicate 512 0\<rparr> = Done b' \<and>
    take 2 (bytecode b') = [29, 0]"
proof -
  let ?b = "\<lparr>headers = \<lparr>magic_number = MAGIC_NUMBER, entry_point = 0, code_size = 2, data_size = 1\<rparr>,
      bytecode = [29, 0], data = [7 :: u8]\<rparr>"
  obtain img where f: "writeBinaryFile True ?b = Done img"
    by (simp add: writeBinaryFile_def write_file_def HDR_SIZE_def)
  from binary_roundtrip [OF f, of "\<lparr>headers = blank_header, bytecode = replicate 1024 0, data = replicate 512 0\<rparr>"] f
  show ?thesis by auto
qed

text \<open>
  the check of the data size refuses nothing a file can hold: any size below
  \<open>2 ^ 64 - 512\<close> passes, and a file with more data than the caller's buffer overruns it.
\<close>

theorem data_size_unchecked:
  assumes "magic_number h = MAGIC_NUMBER" "unat (code_size h) < 1024" "headers dst = blank_header"
    and "length code = unat (code_size h)" "unat (code_size h) \<le> length (bytecode dst)"
    and "length (data dst) < length payload" "unat (data_size h) = length payload"
    and "length payload < 2 ^ 64 - 512"
  shows "readBinaryFile (Some (header_bytes h @ code @ payload)) dst = Undefined"
proof -
  have "\<not> DATA_BASE \<le> code_size h" using assms(2) by (simp add: DATA_BASE_def word_le_nat_alt)
  moreover have "\<not> DATA_BASE - STACK_BASE \<le> data_size h" using assms(7,8) by (simp add: memory_map word_le_nat_alt)
  moreover have "read_file payload (data_size h) (data dst) = Undefined"
    using assms(6,7) by (simp add: read_file_def)
  ultimately show ?thesis
    using assms read_file_exact [of "code_size h" code "bytecode dst" payload]
    by (simp add: read_header [OF assms(3,1)])
qed

theorem data_size_unchecked_witness:
  "readBinaryFile (Some (header_bytes \<lparr>magic_number = MAGIC_NUMBER, entry_point = 0, code_size = 0, data_size = 513\<rparr> @
      replicate 513 0))
    \<lparr>headers = blank_header, bytecode = replicate 1024 0, data = replicate 512 0\<rparr> = Undefined"
  using data_size_unchecked [of "\<lparr>magic_number = MAGIC_NUMBER, entry_point = 0, code_size = 0, data_size = 513\<rparr>"
      "\<lparr>headers = blank_header, bytecode = replicate 1024 0, data = replicate 512 0\<rparr>" "[]" "replicate 513 0"]
  by simp

end
