(* ===== verification/Loader.thy ===== *)
theory Loader
  imports Machine Binary
begin

text \<open>
  \<^verbatim>\<open>src/runtime/loader.c\<close>: laying out a program as bytes and loading a binary into the machine,
  with the link between the two: what was encoded is what the cycles then fetch.
\<close>

unbundle bit_operations_syntax

section \<open>Operations\<close>

fun totalProgSize :: "instruction list \<Rightarrow> u64 outcome" where
  "totalProgSize [] = Done 0"
| "totalProgSize (i # is) = with_mode_size (mode i) (\<lambda>sz. obind (totalProgSize is) (\<lambda>n. Done (sz + n)))"

text \<open>The loop of \<open>encodeProgram\<close>, at a cursor; the buffer has room for \<open>DATA_BASE\<close> bytes.\<close>

fun encode_loop :: "instruction list \<Rightarrow> u64 \<Rightarrow> u8 list \<Rightarrow> (u8 list \<times> u64) outcome" where
  "encode_loop [] cursor buffer = Done (buffer, cursor)"
| "encode_loop (i # is) cursor buffer =
     obind (instructionEncode i (DATA_BASE - cursor - 1)) (\<lambda>(w, written).
       obind (store_bytes buffer cursor w) (\<lambda>buffer.
         if written = 0 then Done (buffer, cursor)
         else encode_loop is (cursor + written) buffer))"

definition encodeProgram :: "instruction list \<Rightarrow> u8 list \<Rightarrow> (u8 list \<times> u64) outcome" where
  "encodeProgram program buffer = encode_loop program 0 buffer"

text \<open>\<open>memcpy(vm->memory + at, source, n)\<close>\<close>

definition copy_in :: "vm \<Rightarrow> u64 \<Rightarrow> u8 list \<Rightarrow> u64 \<Rightarrow> vm outcome" where
  "copy_in vm at source n =
     (if unat at + unat n \<le> length (memory vm) \<and> unat n \<le> length source
      then Done (vm\<lparr>memory := overlay (unat at) (take (unat n) source) (memory vm)\<rparr>) else Undefined)"

definition loadProgram :: "vm \<Rightarrow> Binary \<Rightarrow> u64 \<Rightarrow> result" where
  "loadProgram vm bin start =
     (let h = headers bin
      in if code_size h + start \<ge> DATA_BASE then Done (VM_CODE_LOAD_OUT_OF_BOUNDS, vm)
      else if data_size h \<ge> HEAP_BASE - DATA_BASE then Done (VM_DATA_LOAD_OUT_OF_BOUNDS, vm)
      else obind (copy_in vm start (bytecode bin) (code_size h)) (\<lambda>vm.
        obind (copy_in vm DATA_BASE (data bin) (data_size h)) (\<lambda>vm.
          Done (VM_OK, vm\<lparr>pc := entry_point h\<rparr>))))"

section \<open>Streams of encodings\<close>

text \<open>
  A contract that an instruction format needs for a program counter to make sense: every
  encoding has the size the table gives.
\<close>

locale sized_format =
  fixes enc :: "'i \<Rightarrow> 'b list"
    and sz :: "'i \<Rightarrow> nat"
    and ok :: "'i \<Rightarrow> bool"
  assumes size_enc: "ok i \<Longrightarrow> length (enc i) = sz i"
begin

definition image :: "'i list \<Rightarrow> 'b list" where
  "image is = concat (map enc is)"

definition offset :: "'i list \<Rightarrow> nat \<Rightarrow> nat" where
  "offset is k = sum_list (map sz (take k is))"

lemma image_simps [simp]: "image [] = []" "image (i # is) = enc i @ image is"
  by (simp_all add: image_def)

lemma offset_simps [simp]: "offset is 0 = 0" "offset (i # is) (Suc k) = sz i + offset is k"
  by (simp_all add: offset_def)

lemma length_image: "list_all ok is \<Longrightarrow> length (image is) = offset is (length is)"
  by (induction "is") (simp_all add: size_enc offset_def)

lemma image_at:
  "list_all ok is \<Longrightarrow> k < length is \<Longrightarrow> take (sz (is ! k)) (drop (offset is k) (image is)) = enc (is ! k)"
proof (induction "is" arbitrary: k)
  case (Cons i "is")
  then show ?case
  proof (cases k)
    case 0
    with Cons.prems show ?thesis by (simp add: size_enc)
  next
    case (Suc j)
    with Cons show ?thesis by (simp add: size_enc)
  qed
qed simp

lemma offset_Suc: "k < length is \<Longrightarrow> offset is (Suc k) = offset is k + sz (is ! k)"
  by (simp add: offset_def take_Suc_conv_app_nth)

lemma offset_mono: "j \<le> k \<Longrightarrow> offset is j \<le> offset is k"
  by (metis le_add1 le_add_diff_inverse map_append offset_def sum_list_append take_add)

lemma offset_end: "k < length is \<Longrightarrow> offset is k + sz (is ! k) \<le> offset is (length is)"
  using offset_mono [of "Suc k" "length is" "is"] by (simp add: offset_Suc)

end

definition encodable :: "instruction \<Rightarrow> bool" where
  "encodable i \<longleftrightarrow> opcode i \<noteq> OP_COUNT \<and> mode i \<noteq> MODE_COUNT"

definition instr_size :: "instruction \<Rightarrow> nat" where
  "instr_size i = unat (mode_size (mode i))"

interpretation bytecode: sized_format encoding instr_size encodable
  by unfold_locales (simp add: length_encoding encodable_def instr_size_def)

section \<open>Encoding a program\<close>

lemma encode_loop_fits:
  assumes "list_all encodable is" "length buffer = 1024"
    and "unat cursor + bytecode.offset is (length is) \<le> 1023"
  shows "encode_loop is cursor buffer =
    Done (overlay (unat cursor) (bytecode.image is) buffer, cursor + of_nat (length (bytecode.image is)))"
  using assms
proof (induction "is" arbitrary: cursor buffer)
  case (Cons i "is")
  let ?n = "instr_size i" and ?b = "overlay (unat cursor) (encoding i) buffer"
  have ok: "opcode i \<noteq> OP_COUNT" "mode i \<noteq> MODE_COUNT" "list_all encodable is"
    using Cons.prems(1) by (simp_all add: encodable_def [of i])
  have c: "unat cursor + ?n + bytecode.offset is (length is) \<le> 1023"
    using Cons.prems(3) by simp
  have len: "length (encoding i) = ?n" using ok by (simp add: length_encoding instr_size_def)
  have "unat (DATA_BASE - cursor) = 1024 - unat cursor"
    using c by (simp add: DATA_BASE_def unat_sub word_le_nat_alt)
  then have "unat (DATA_BASE - cursor - 1) = 1023 - unat cursor"
    using c by (simp add: unat_sub word_le_nat_alt)
  then have "mode_size (mode i) \<le> DATA_BASE - cursor - 1"
    using c by (simp add: word_le_nat_alt instr_size_def)
  then have e: "instructionEncode i (DATA_BASE - cursor - 1) = Done (encoding i, mode_size (mode i))"
    using ok by (intro instructionEncode_room)
  have s: "store_bytes buffer cursor (encoding i) = Done ?b"
    using c len Cons.prems(2) by (intro store_bytes_Done) simp_all
  have nz: "mode_size (mode i) \<noteq> 0" using ok(2) by (cases "mode i") simp_all
  have u: "unat (cursor + mode_size (mode i)) = unat cursor + ?n"
    using c by (simp add: unat_word_ariths instr_size_def)
  have "encode_loop (i # is) cursor buffer = encode_loop is (cursor + mode_size (mode i)) ?b"
    using e s nz by simp
  also have "\<dots> = Done (overlay (unat cursor + ?n) (bytecode.image is) ?b,
      cursor + mode_size (mode i) + of_nat (length (bytecode.image is)))"
    using Cons.IH [OF ok(3), of ?b "cursor + mode_size (mode i)"] c len Cons.prems(2) by (simp add: u)
  also have "overlay (unat cursor + ?n) (bytecode.image is) ?b = overlay (unat cursor) (bytecode.image (i # is)) buffer"
  proof -
    have "length (bytecode.image is) = bytecode.offset is (length is)" using ok(3) by (rule bytecode.length_image)
    with c len Cons.prems(2) show ?thesis by (intro nth_equalityI) (auto simp: nth_overlay nth_append)
  qed
  also have "cursor + mode_size (mode i) + of_nat (length (bytecode.image is)) =
      cursor + of_nat (length (bytecode.image (i # is)))"
    by (simp add: len instr_size_def)
  finally show ?case .
qed simp

lemma totalProgSize_sum:
  "list_all encodable is \<Longrightarrow> totalProgSize is = Done (of_nat (bytecode.offset is (length is)))"
  by (induction "is") (simp_all add: encodable_def instr_size_def bytecode.offset_def)

section \<open>The loaded image\<close>

lemma copy_in_Done:
  "unat at + unat n \<le> length (memory vm) \<Longrightarrow> unat n \<le> length source \<Longrightarrow>
    copy_in vm at source n = Done (vm\<lparr>memory := overlay (unat at) (take (unat n) source) (memory vm)\<rparr>)"
  by (simp add: copy_in_def)

text \<open>The memory after a load at address 0.\<close>

definition loaded :: "Binary \<Rightarrow> u8 list \<Rightarrow> u8 list" where
  "loaded bin mem = overlay 1024 (take (unat (data_size (headers bin))) (data bin))
     (overlay 0 (take (unat (code_size (headers bin))) (bytecode bin)) mem)"

lemma loadProgram_0:
  assumes "wf_vm vm" "unat (code_size (headers bin)) \<le> length (bytecode bin)"
    and "unat (data_size (headers bin)) \<le> length (data bin)"
  shows "loadProgram vm bin 0 =
    (if 1024 \<le> unat (code_size (headers bin)) then Done (VM_CODE_LOAD_OUT_OF_BOUNDS, vm)
     else if 256 \<le> unat (data_size (headers bin)) then Done (VM_DATA_LOAD_OUT_OF_BOUNDS, vm)
     else Done (VM_OK, vm\<lparr>memory := loaded bin (memory vm), pc := entry_point (headers bin)\<rparr>))"
proof -
  have len: "length (memory vm) = 2048" using assms(1) by (rule wf_vmD)
  have c: "DATA_BASE \<le> x \<longleftrightarrow> 1024 \<le> unat x" "HEAP_BASE - DATA_BASE \<le> x \<longleftrightarrow> 256 \<le> unat x" for x
    by (simp_all add: memory_map word_le_nat_alt)
  show ?thesis
  proof (cases "unat (code_size (headers bin)) < 1024 \<and> unat (data_size (headers bin)) < 256")
    case True
    with assms(2,3) len copy_in_Done [of 0 "code_size (headers bin)" vm "bytecode bin"]
      copy_in_Done [of DATA_BASE "data_size (headers bin)" _ "data bin"] show ?thesis
      by (simp add: loadProgram_def c Let_def loaded_def) (simp add: DATA_BASE_def)
  next
    case False
    then show ?thesis by (auto simp: loadProgram_def c Let_def)
  qed
qed

lemma wf_loaded:
  assumes "wf_vm vm" "unat (code_size (headers bin)) < 1024" "unat (data_size (headers bin)) < 256"
    and "unat (code_size (headers bin)) \<le> length (bytecode bin)"
    and "unat (data_size (headers bin)) \<le> length (data bin)"
  shows "wf_vm (vm\<lparr>memory := loaded bin (memory vm), pc := p\<rparr>)"
    and "take (unat (code_size (headers bin))) (loaded bin (memory vm)) =
      take (unat (code_size (headers bin))) (bytecode bin)"
  using assms wf_vmD(2) [OF assms(1)]
  by (simp_all add: wf_vm_def loaded_def take_overlay_below) (simp add: overlay_def)

lemma loaded_data:
  assumes "wf_vm vm" "unat (data_size (headers bin)) < 256" "unat (data_size (headers bin)) \<le> length (data bin)"
    and "unat (code_size (headers bin)) < 1024"
    and "unat (code_size (headers bin)) \<le> length (bytecode bin)"
  shows "take (unat (data_size (headers bin))) (drop 1024 (loaded bin (memory vm))) =
    take (unat (data_size (headers bin))) (data bin)"
  using assms wf_vmD(2) [OF assms(1)]
    take_drop_overlay_same [of 1024 "take (unat (data_size (headers bin))) (data bin)"
      "overlay 0 (take (unat (code_size (headers bin))) (bytecode bin)) (memory vm)"]
  by (simp add: loaded_def min_absorb1)

lemma holds_at_code:
  assumes "code vm2 = code vm1" "p + length bs \<le> 1024" "holds_at vm1 p bs"
  shows "holds_at vm2 p bs"
proof -
  have *: "take (length bs) (drop p (memory v)) = take (length bs) (drop p (code v))" for v
    using assms(2) by (simp add: code_def drop_take)
  show ?thesis using assms(1,3) unfolding holds_at_def * by simp
qed

lemma holds_at_prefix:
  assumes "take n (memory vm) = img" "p + length bs \<le> n" "take (length bs) (drop p img) = bs"
  shows "holds_at vm p bs"
proof -
  have "take (length bs) (drop p (take n (memory vm))) = take (length bs) (drop p (memory vm))"
    using assms(2) by (simp add: drop_take)
  with assms show ?thesis by (simp add: holds_at_def)
qed

section \<open>Running a loaded image\<close>

text \<open>
  \<open>executes prog vm\<close>: in any machine whose code segment is that of \<open>vm\<close>, a cycle at the offset
  of the k-th instruction of \<open>prog\<close> runs the handler of that instruction on its decoding.
\<close>

definition executes :: "instruction list \<Rightarrow> vm \<Rightarrow> bool" where
  "executes prog vm \<longleftrightarrow> (\<forall>k < length prog. \<forall>env vm2 h. wf_vm vm2 \<longrightarrow> code vm2 = code vm \<longrightarrow>
      unat (pc vm2) = bytecode.offset prog k \<longrightarrow> fits_at (unat (pc vm2)) (mode (prog ! k)) \<longrightarrow>
      get_handler env (opcode (prog ! k)) (mode (prog ! k)) = Some h \<longrightarrow>
      cpu_step env vm2 = obind (h vm2 (decoded_over (junk_instr env) (prog ! k)))
        (\<lambda>r. Done (advance (pc vm2) (mode_size (mode (prog ! k))) r)))"

lemma executes_image:
  assumes "list_all encodable prog" "bytecode.offset prog (length prog) \<le> 1023"
    and "take (bytecode.offset prog (length prog)) (memory vm) = bytecode.image prog"
  shows "executes prog vm"
  unfolding executes_def
proof (intro allI impI)
  fix k env vm2 h
  assume k: "k < length prog" and vm2: "wf_vm vm2" "code vm2 = code vm"
    "unat (pc vm2) = bytecode.offset prog k" "fits_at (unat (pc vm2)) (mode (prog ! k))"
    "get_handler env (opcode (prog ! k)) (mode (prog ! k)) = Some h"
  let ?T = "bytecode.offset prog (length prog)"
  have len: "length (encoding (prog ! k)) = instr_size (prog ! k)"
    using assms(1) k by (intro bytecode.size_enc) (simp add: list_all_length)
  have fit: "bytecode.offset prog k + instr_size (prog ! k) \<le> ?T" using k by (rule bytecode.offset_end)
  have "holds_at vm (bytecode.offset prog k) (encoding (prog ! k))"
    by (rule holds_at_prefix [OF assms(3)]) (use fit len bytecode.image_at [OF assms(1) k] in simp_all)
  then have "holds_at vm2 (unat (pc vm2)) (encoding (prog ! k))"
    using holds_at_code [OF vm2(2)] fit len assms(2) vm2(3) by simp
  from cpu_step_handler [OF vm2(1) this vm2(4,5)]
  show "cpu_step env vm2 = obind (h vm2 (decoded_over (junk_instr env) (prog ! k)))
    (\<lambda>r. Done (advance (pc vm2) (mode_size (mode (prog ! k))) r))" .
qed

lemma load_executes:
  assumes "list_all encodable prog" "bytecode.offset prog (length prog) \<le> 1023" "wf_vm vm"
    and "unat (code_size (headers bin)) = bytecode.offset prog (length prog)"
    and "take (unat (code_size (headers bin))) (bytecode bin) = bytecode.image prog"
    and "unat (data_size (headers bin)) < 256" "unat (data_size (headers bin)) \<le> length (data bin)"
  shows "\<exists>vm'. loadProgram vm bin 0 = Done (VM_OK, vm') \<and> wf_vm vm' \<and> pc vm' = entry_point (headers bin) \<and>
    executes prog vm' \<and>
    vm' = vm\<lparr>memory := loaded bin (memory vm), pc := entry_point (headers bin)\<rparr>"
proof -
  let ?vm = "vm\<lparr>memory := loaded bin (memory vm), pc := entry_point (headers bin)\<rparr>"
  have "length (take (unat (code_size (headers bin))) (bytecode bin)) = unat (code_size (headers bin))"
    unfolding assms(5) using bytecode.length_image [OF assms(1)] assms(4) by simp
  then have cs: "unat (code_size (headers bin)) < 1024" "unat (code_size (headers bin)) \<le> length (bytecode bin)"
    using assms(2,4) by simp_all
  note wf = wf_loaded [OF assms(3) cs(1) assms(6) cs(2) assms(7)]
  have "executes prog ?vm"
    by (rule executes_image [OF assms(1,2)]) (use wf(2) assms(4,5) in simp)
  with loadProgram_0 [OF assms(3) cs(2) assms(7)] cs(1) assms(6) wf(1) show ?thesis by simp
qed

section \<open>Properties\<close>



text \<open>
  loading at address 0 is decided by the two sizes of the header. More than 1023 bytes of
  code or 255 of data are refused and nothing changes; otherwise code and data are copied to
  0 and \<open>DATA_BASE\<close>, every other byte keeps its value, and execution starts at the entry
  point.
\<close>

theorem load_classified:
  assumes "wf_vm vm" "unat (code_size (headers bin)) \<le> length (bytecode bin)"
    and "unat (data_size (headers bin)) \<le> length (data bin)"
  shows "if 1024 \<le> unat (code_size (headers bin))
    then loadProgram vm bin 0 = Done (VM_CODE_LOAD_OUT_OF_BOUNDS, vm)
    else if 256 \<le> unat (data_size (headers bin))
    then loadProgram vm bin 0 = Done (VM_DATA_LOAD_OUT_OF_BOUNDS, vm)
    else \<exists>m. loadProgram vm bin 0 = Done (VM_OK, vm\<lparr>memory := m, pc := entry_point (headers bin)\<rparr>) \<and>
      wf_vm (vm\<lparr>memory := m\<rparr>) \<and>
      (\<forall>j < 2048. m ! j =
        (if j < unat (code_size (headers bin)) then bytecode bin ! j
         else if 1024 \<le> j \<and> j < 1024 + unat (data_size (headers bin)) then data bin ! (j - 1024)
         else memory vm ! j))"
proof -
  have len: "length (memory vm) = 2048" using assms(1) by (rule wf_vmD)
  have "loaded bin (memory vm) ! j =
        (if j < unat (code_size (headers bin)) then bytecode bin ! j
         else if 1024 \<le> j \<and> j < 1024 + unat (data_size (headers bin)) then data bin ! (j - 1024)
         else memory vm ! j)"
    if "unat (code_size (headers bin)) < 1024" "unat (data_size (headers bin)) < 256" "j < 2048" for j
    using that len assms(2,3) by (auto simp: loaded_def nth_overlay)
  with loadProgram_0 [OF assms] wf_loaded(1) [OF assms(1) _ _ assms(2,3), of 0] show ?thesis
    by (auto simp: not_le wf_vm_def)
qed

theorem load_classified_witness:
  "loadProgram (initVM raw_vm) \<lparr>headers = \<lparr>magic_number = MAGIC_NUMBER, entry_point = 0, code_size = 0, data_size = 256\<rparr>,
    bytecode = [], data = replicate 256 0\<rparr> 0 = Done (VM_DATA_LOAD_OUT_OF_BOUNDS, initVM raw_vm)"
  using load_classified [OF wf_initVM, of "\<lparr>headers = \<lparr>magic_number = MAGIC_NUMBER, entry_point = 0,
    code_size = 0, data_size = 256\<rparr>, bytecode = [], data = replicate 256 0\<rparr>" raw_vm] by simp

text \<open>
  the encoder and the decoder disagree on the last bytes of the code segment. An instruction
  with operands that ends at address 1022 or 1023 is accepted by \<open>instructionEncode\<close> with the
  room \<open>encodeProgram\<close> offers, but the cycle that reaches it reports \<open>VM_TRUNCATED_INSTR\<close>.
\<close>

theorem encodable_but_truncated:
  assumes "wf_vm vm" "encodable i" "mode i \<noteq> MODE_NONE"
    and "unat (pc vm) + instr_size i \<in> {1022, 1023}" "holds_at vm (unat (pc vm)) (encoding i)"
  shows "instructionEncode i (DATA_BASE - pc vm - 1) = Done (encoding i, mode_size (mode i)) \<and>
    cpu_step env vm = Done (VM_TRUNCATED_INSTR, vm)"
proof -
  have ok: "opcode i \<noteq> OP_COUNT" "mode i \<noteq> MODE_COUNT" using assms(2) by (auto simp: encodable_def)
  have sz: "3 \<le> instr_size i" "instr_size i \<le> 12" "mode_size (mode i) \<noteq> 2"
    using ok(2) assms(3) by (cases "mode i"; simp add: instr_size_def)+
  have p: "unat (pc vm) \<le> 1020" "unat (pc vm) + instr_size i \<le> 1023" using assms(4) sz by auto
  then have base: "\<not> DATA_BASE \<le> pc vm" by (simp add: DATA_BASE_def word_le_nat_alt)
  have "unat (DATA_BASE - pc vm) = 1024 - unat (pc vm)"
    using p by (simp add: DATA_BASE_def unat_sub word_le_nat_alt)
  then have r: "unat (DATA_BASE - pc vm - 1) = 1023 - unat (pc vm)"
    using p by (simp add: unat_sub word_le_nat_alt)
  have enc: "instructionEncode i (DATA_BASE - pc vm - 1) = Done (encoding i, mode_size (mode i))"
    using ok r p by (intro instructionEncode_room) (simp_all add: word_le_nat_alt instr_size_def)
  have need: "unat (decode_need (mode i)) = instr_size i + 2"
    using sz assms(3) by (simp add: decode_need_def instr_size_def unat_word_ariths)
  have "DATA_BASE - pc vm - 1 < decode_need (mode i)" "2 \<le> DATA_BASE - pc vm - 1"
    using assms(4) r p need by (auto simp: word_less_nat_alt word_le_nat_alt)
  from instructionDecode_short [OF ok this]
  have "cpu_step env vm = Done (VM_TRUNCATED_INSTR, vm)"
    using base sz(3) ok(2) holds_at_split [OF assms(5)] by (auto simp: cpu_step_def)
  with enc show ?thesis by blast
qed

theorem encodable_but_truncated_witness:
  "cpu_step idle_env (with_code (zeros 1018 @ encoding (instr OP_LD MODE_REG 0 1 0))\<lparr>pc := 1018\<rparr>) =
    Done (VM_TRUNCATED_INSTR, with_code (zeros 1018 @ encoding (instr OP_LD MODE_REG 0 1 0))\<lparr>pc := 1018\<rparr>)"
proof -
  let ?i = "instr OP_LD MODE_REG 0 1 0"
  let ?vm = "with_code (zeros 1018 @ encoding ?i)\<lparr>pc := 1018\<rparr>"
  have m: "mode ?i = MODE_REG" "encodable ?i" by (simp_all add: instr_def encodable_def)
  have "wf_vm ?vm" using wf_with_code [of "zeros 1018 @ encoding ?i"] by (simp add: length_encoding instr_def)
  moreover have "holds_at ?vm (unat (pc ?vm)) (encoding ?i)" by (simp add: holds_at_def)
  ultimately show ?thesis
    using encodable_but_truncated [of ?vm ?i idle_env] m by (simp add: instr_size_def)
qed

end
