(* ===== verification/IR.thy ===== *)
theory IR
  imports Codec
begin

text \<open>
  The intermediate representation between the parser and the assembler, after
  \<^verbatim>\<open>include/parser.h\<close>: operands, directives and the nodes of a program. A C string is the
  list of its bytes without the terminating NUL; an \<open>OPERAND_STRING\<close> is the list of all the
  \<open>ident.length\<close> bytes it occupies, its NUL included, since that is what the assembler copies.
  Signed 64-bit numbers are \<open>64 word\<close>.
\<close>

datatype DirType =
  DIR_STRING | DIR_ADDR | DIR_ENTRY | DIR_WORD | DIR_BYTE | DIR_TEXT | DIR_DATA | DIR_COUNT

text \<open>Each member of the union \<open>Operand\<close> with the tag that selects it.\<close>

datatype Operand =
    OPERAND_NONE
  | OPERAND_VALUE u64
  | OPERAND_REG u8
  | OPERAND_IDENT "u8 list"
  | OPERAND_STRING "u8 list"
  | OPERAND_MEM_IDENT "u8 list"
  | OPERAND_MEM_VALUE u64
  | OPERAND_MEM_REG u8
  | OPERAND_MEM_IDX u8 u64
  | OPERAND_MEM_IDX_IDENT "u8 list" u64

datatype IR_Node =
    IR_INSTR (node_line: u64) OP_CODE Operand Operand
  | IR_LABEL (node_line: u64) "u8 list"
  | IR_DIR (node_line: u64) DirType Operand

end
