(* ===== verification/Assembler.thy ===== *)
theory Assembler
  imports IR Loader
begin

text \<open>
  The assembler of \<^verbatim>\<open>src/toolchain/assembler.c\<close>: the symbol table, the choice of the addressing
  mode from the operands, and the two passes. The first pass lays out the sections and collects
  the labels, the second fills the code and data buffers. Both report an \<open>AsmError\<close>, or end the
  process where the code does. The host's \<open>malloc\<close> and \<open>realloc\<close> are assumed to succeed.
\<close>

unbundle bit_operations_syntax

section \<open>Data\<close>

datatype AsmError =
    ASM_NOT_A_TEXT_SECTION
  | ASM_NOT_A_DATA_SECTION
  | ASM_SECTION_UNDEFINED
  | ASM_LABEL_REDEFINED
  | ASM_LABEL_UNDEFINED
  | ASM_ENTRY_REDEFINED
  | ASM_WRONG_ARGUMENT_TYPE
  | ASM_TOO_MANY_ARGUMENTS
  | ASM_TOO_FEW_ARGUMENTS
  | ASM_INVALID_ADRESSING_MODE
  | ASM_OK

datatype Section = SECTION_UNDEF | SECTION_TEXT | SECTION_DATA

record Symbol =
  sym_string :: "u8 list"
  sym_addr :: u64

text \<open>
  \<open>sym_table\<close> holds the entries in use, \<open>sym_next\<close> of them; \<open>sym_size\<close> is the capacity the code
  believes in, \<open>sym_bytes\<close> the size in bytes of the block \<open>table\<close> points to.
\<close>

record Symbol_table =
  sym_table :: "Symbol list"
  sym_next :: u64
  sym_size :: u64
  sym_bytes :: u64

record Assembler =
  symtable :: Symbol_table
  bin :: Binary
  error_line :: u64

section \<open>Symbol table\<close>

definition isInSymbolTable :: "Symbol_table \<Rightarrow> u8 list \<Rightarrow> bool" where
  "isInSymbolTable t s \<longleftrightarrow> (\<exists>e \<in> set (take (unat (sym_next t)) (sym_table t)). sym_string e = s)"

text \<open>
  A \<open>struct Symbol\<close> takes 16 bytes. The growth passes \<open>2 * size\<close>, a number of entries, to
  \<open>realloc\<close> as the number of bytes; entries that do not fit in it are lost.
\<close>

definition addToSymbolTable :: "Symbol_table \<Rightarrow> Symbol \<Rightarrow> Symbol_table outcome" where
  "addToSymbolTable t s =
     (let t = (if sym_next t = sym_size t
               then t\<lparr>sym_table := take (unat (2 * sym_size t) div 16) (sym_table t),
                      sym_bytes := 2 * sym_size t, sym_size := sym_size t * 2\<rparr>
               else t)
      in if 16 * unat (sym_next t) + 16 \<le> unat (sym_bytes t)
         then Done (t\<lparr>sym_table := sym_table t @ [s], sym_next := sym_next t + 1\<rparr>)
         else Undefined)"

definition getSymbolAddr :: "Symbol_table \<Rightarrow> u8 list \<Rightarrow> u64 option" where
  "getSymbolAddr t s =
     map_option sym_addr (List.find (\<lambda>e. sym_string e = s) (take (unat (sym_next t)) (sym_table t)))"

section \<open>Addressing modes\<close>

text \<open>The tests of an operand's \<open>type\<close>.\<close>

fun is_reg :: "Operand \<Rightarrow> bool" where
  "is_reg (OPERAND_REG r) = True"
| "is_reg _ = False"

fun is_value :: "Operand \<Rightarrow> bool" where
  "is_value (OPERAND_VALUE v) = True"
| "is_value _ = False"

fun is_ident :: "Operand \<Rightarrow> bool" where
  "is_ident (OPERAND_IDENT s) = True"
| "is_ident _ = False"

text \<open>
  The last argument and the second result are the caller's variable \<open>status\<close>, \<open>None\<close> while it is
  indeterminate: an operation without operands leaves it as it was.
\<close>

definition getModeFromOperands ::
  "Operand \<Rightarrow> Operand \<Rightarrow> nat \<Rightarrow> AsmError option \<Rightarrow> MODE \<times> AsmError option" where
  "getModeFromOperands a b args_count status =
     (if args_count = 0 then
        if a \<noteq> OPERAND_NONE \<or> b \<noteq> OPERAND_NONE then (MODE_NONE, Some ASM_TOO_MANY_ARGUMENTS)
        else (MODE_NONE, status)
      else if args_count = 1 \<and> b \<noteq> OPERAND_NONE then (MODE_NONE, Some ASM_TOO_MANY_ARGUMENTS)
      else if args_count = 1 \<and> is_reg a then (MODE_REGU, Some ASM_OK)
      else let b = (if args_count = 1 then a else b)
      in if args_count \<ge> 1 \<and> a = OPERAND_NONE then (MODE_NONE, Some ASM_TOO_FEW_ARGUMENTS)
      else if args_count = 2 \<and> b = OPERAND_NONE then (MODE_NONE, Some ASM_TOO_FEW_ARGUMENTS)
      else if args_count = 2 \<and> \<not> is_reg a then (MODE_NONE, Some ASM_WRONG_ARGUMENT_TYPE)
      else case b of
          OPERAND_IDENT _ \<Rightarrow> (MODE_IMM, Some ASM_OK)
        | OPERAND_VALUE _ \<Rightarrow> (MODE_IMM, Some ASM_OK)
        | OPERAND_REG _ \<Rightarrow> (MODE_REG, Some ASM_OK)
        | OPERAND_MEM_IDENT _ \<Rightarrow> (MODE_DIR, Some ASM_OK)
        | OPERAND_MEM_IDX_IDENT _ _ \<Rightarrow> (MODE_DIR, Some ASM_OK)
        | OPERAND_MEM_VALUE _ \<Rightarrow> (MODE_DIR, Some ASM_OK)
        | OPERAND_MEM_REG _ \<Rightarrow> (MODE_IND, Some ASM_OK)
        | OPERAND_MEM_IDX _ _ \<Rightarrow> (MODE_IDX, Some ASM_OK)
        | _ \<Rightarrow> (MODE_NONE, Some ASM_WRONG_ARGUMENT_TYPE))"

text \<open>\<open>CHK_ASM_STATUS\<close>: a status other than \<open>ASM_OK\<close> ends the process.\<close>

fun chk_asm_status :: "AsmError option \<Rightarrow> 'a outcome \<Rightarrow> 'a outcome" where
  "chk_asm_status None k = Undefined"
| "chk_asm_status (Some status) k = (if status \<noteq> ASM_OK then Exit_failure else k)"

text \<open>
  Whether the dispatch table has a handler; the environment the handlers of TRAP are given
  plays no role in that.
\<close>

definition supported :: "OP_CODE \<Rightarrow> MODE \<Rightarrow> bool" where
  "supported op m \<longleftrightarrow> get_handler idle_env op m \<noteq> None"

section \<open>First pass\<close>

text \<open>The local variables of the pass, with the fields of \<open>ass\<close> it updates on the way.\<close>

record first_state =
  fs_symtable :: Symbol_table
  fs_line :: u64
  fs_text :: u64
  fs_data :: u64
  fs_section :: Section
  fs_entry_ok :: bool
  fs_status :: "AsmError option"

definition first_label :: "u8 list \<Rightarrow> first_state \<Rightarrow> (AsmError \<times> first_state) outcome" where
  "first_label name s =
     (if \<not> isInSymbolTable (fs_symtable s) name then
        if fs_section s = SECTION_UNDEF then Done (ASM_SECTION_UNDEFINED, s)
        else obind (addToSymbolTable (fs_symtable s)
               \<lparr>sym_string = name,
                sym_addr = (if fs_section s = SECTION_DATA then fs_data s else fs_text s)\<rparr>)
             (\<lambda>t. Done (ASM_OK, s\<lparr>fs_symtable := t\<rparr>))
      else Done (ASM_LABEL_REDEFINED, s))"

fun first_dir :: "DirType \<Rightarrow> Operand \<Rightarrow> first_state \<Rightarrow> (AsmError \<times> first_state) outcome" where
  "first_dir DIR_BYTE v s =
     (if \<not> is_value v then Done (ASM_WRONG_ARGUMENT_TYPE, s)
      else if fs_section s \<noteq> SECTION_DATA then Done (ASM_NOT_A_DATA_SECTION, s)
      else Done (ASM_OK, s\<lparr>fs_data := fs_data s + 1\<rparr>))"
| "first_dir DIR_WORD v s =
     (if \<not> is_value v \<and> \<not> is_ident v then Done (ASM_WRONG_ARGUMENT_TYPE, s)
      else if fs_section s \<noteq> SECTION_DATA then Done (ASM_NOT_A_DATA_SECTION, s)
      else Done (ASM_OK, s\<lparr>fs_data := fs_data s + 8\<rparr>))"
| "first_dir DIR_ADDR v s =
     (if \<not> is_value v \<and> \<not> is_ident v then Done (ASM_WRONG_ARGUMENT_TYPE, s)
      else if fs_section s \<noteq> SECTION_DATA then Done (ASM_NOT_A_DATA_SECTION, s)
      else Done (ASM_OK, s\<lparr>fs_data := fs_data s + 8\<rparr>))"
| "first_dir DIR_STRING v s =
     (case v of
        OPERAND_STRING str \<Rightarrow>
          let s = s\<lparr>fs_data := fs_data s + word_of_nat (length str)\<rparr>
          in if fs_section s \<noteq> SECTION_DATA then Done (ASM_NOT_A_DATA_SECTION, s) else Done (ASM_OK, s)
      | _ \<Rightarrow> Done (ASM_WRONG_ARGUMENT_TYPE, s))"
| "first_dir DIR_ENTRY v s =
     (if \<not> is_ident v then Done (ASM_WRONG_ARGUMENT_TYPE, s)
      else if fs_entry_ok s then Done (ASM_ENTRY_REDEFINED, s)
      else Done (ASM_OK, s\<lparr>fs_entry_ok := True\<rparr>))"
| "first_dir DIR_DATA v s =
     (if v \<noteq> OPERAND_NONE then Done (ASM_TOO_MANY_ARGUMENTS, s)
      else Done (ASM_OK, s\<lparr>fs_section := SECTION_DATA\<rparr>))"
| "first_dir DIR_TEXT v s =
     (if v \<noteq> OPERAND_NONE then Done (ASM_TOO_MANY_ARGUMENTS, s)
      else Done (ASM_OK, s\<lparr>fs_section := SECTION_TEXT\<rparr>))"
| "first_dir DIR_COUNT v s = Exit_failure"

definition first_instr :: "OP_CODE \<Rightarrow> Operand \<Rightarrow> Operand \<Rightarrow> first_state \<Rightarrow> (AsmError \<times> first_state) outcome" where
  "first_instr op a b s =
     (if fs_section s \<noteq> SECTION_TEXT then Done (ASM_NOT_A_TEXT_SECTION, s)
      else case getModeFromOperands a b (getArgsCount op) (fs_status s) of (m, status) \<Rightarrow>
        chk_asm_status status
          (if \<not> supported op m then Done (ASM_INVALID_ADRESSING_MODE, s\<lparr>fs_status := status\<rparr>)
           else with_mode_size m (\<lambda>sz.
             Done (ASM_OK, s\<lparr>fs_status := status, fs_text := fs_text s + sz\<rparr>))))"

fun first_node :: "IR_Node \<Rightarrow> first_state \<Rightarrow> (AsmError \<times> first_state) outcome" where
  "first_node (IR_LABEL line name) s = first_label name (s\<lparr>fs_line := line\<rparr>)"
| "first_node (IR_DIR line d v) s = first_dir d v (s\<lparr>fs_line := line\<rparr>)"
| "first_node (IR_INSTR line op a b) s = first_instr op a b (s\<lparr>fs_line := line\<rparr>)"

fun first_loop :: "IR_Node list \<Rightarrow> first_state \<Rightarrow> (AsmError \<times> first_state) outcome" where
  "first_loop [] s = Done (ASM_OK, s)"
| "first_loop (n # ns) s =
     obind (first_node n s) (\<lambda>(e, s). if e = ASM_OK then first_loop ns s else Done (e, s))"

definition empty_table :: Symbol_table where
  "empty_table = \<lparr>sym_table = [], sym_next = 0, sym_size = 16, sym_bytes = 16 * 16\<rparr>"

definition first_start :: "u64 \<Rightarrow> first_state" where
  "first_start line = \<lparr>fs_symtable = empty_table, fs_line = line, fs_text = 0, fs_data = DATA_BASE,
     fs_section = SECTION_UNDEF, fs_entry_ok = False, fs_status = None\<rparr>"

definition with_sizes :: "u64 \<Rightarrow> u64 \<Rightarrow> Binary \<Rightarrow> Binary" where
  "with_sizes c d b = b\<lparr>headers := (headers b)\<lparr>code_size := c, data_size := d\<rparr>\<rparr>"

definition assemblerFirstPass :: "Assembler \<Rightarrow> IR_Node list \<Rightarrow> (AsmError \<times> Assembler) outcome" where
  "assemblerFirstPass ass nodes =
     obind (first_loop nodes (first_start (error_line ass))) (\<lambda>(e, s).
       let ass = ass\<lparr>symtable := fs_symtable s, error_line := fs_line s\<rparr>
       in if e \<noteq> ASM_OK then Done (e, ass)
       else Done (ASM_OK, ass\<lparr>bin := with_sizes (fs_text s) (fs_data s - DATA_BASE) (bin ass)\<rparr>))"

section \<open>Second pass\<close>

text \<open>
  What the pass reads that it has not written: the bytes of its two blocks from \<open>malloc\<close>, and the
  first eight bytes of an operand's union when it holds something else than a number (a pointer
  for an identifier).
\<close>

record host =
  code_junk :: "nat \<Rightarrow> u8"
  data_junk :: "nat \<Rightarrow> u8"
  union_word :: "Operand \<Rightarrow> u64"

definition malloc_block :: "(nat \<Rightarrow> u8) \<Rightarrow> u64 \<Rightarrow> u8 list" where
  "malloc_block junk n = map junk [0..<unat n]"

fun operand_word :: "host \<Rightarrow> Operand \<Rightarrow> u64" where
  "operand_word h (OPERAND_VALUE v) = v"
| "operand_word h v = union_word h v"

fun operand_reg :: "host \<Rightarrow> Operand \<Rightarrow> u8" where
  "operand_reg h (OPERAND_REG r) = r"
| "operand_reg h v = ucast (union_word h v)"

text \<open>The bytes the two loops over \<open>j\<close> store, of an unsigned address and of a signed value.\<close>

definition addr_bytes :: "u64 \<Rightarrow> u8 list" where
  "addr_bytes addr = map (\<lambda>j. ucast (drop_bit (8 * j) addr)) [0..<8]"

definition word_bytes :: "u64 \<Rightarrow> u8 list" where
  "word_bytes v = map (\<lambda>j. ucast (signed_drop_bit (8 * j) v)) [0..<8]"

record second_state =
  ss_bin :: Binary
  ss_line :: u64
  ss_text :: u64
  ss_data :: u64
  ss_section :: Section
  ss_status :: "AsmError option"

definition emit_data :: "u8 list \<Rightarrow> second_state \<Rightarrow> (AsmError \<times> second_state) outcome" where
  "emit_data bs s =
     obind (store_bytes (data (ss_bin s)) (ss_data s) bs) (\<lambda>d.
       Done (ASM_OK, s\<lparr>ss_bin := (ss_bin s)\<lparr>data := d\<rparr>, ss_data := ss_data s + word_of_nat (length bs)\<rparr>))"

text \<open>
  A directive whose operand is no string where the code takes \<open>ident.str\<close> follows a wild pointer:
  \<open>Undefined\<close>. The first pass refuses those.
\<close>

fun second_dir :: "host \<Rightarrow> Symbol_table \<Rightarrow> DirType \<Rightarrow> Operand \<Rightarrow> second_state \<Rightarrow>
    (AsmError \<times> second_state) outcome" where
  "second_dir h t DIR_BYTE v s =
     (if ss_section s \<noteq> SECTION_DATA then Done (ASM_NOT_A_DATA_SECTION, s)
      else emit_data [ucast (operand_word h v)] s)"
| "second_dir h t DIR_ADDR v s =
     (if ss_section s \<noteq> SECTION_DATA then Done (ASM_NOT_A_DATA_SECTION, s)
      else case v of
          OPERAND_IDENT str \<Rightarrow>
            (case getSymbolAddr t str of
               Some addr \<Rightarrow> emit_data (addr_bytes addr) s
             | None \<Rightarrow> Done (ASM_LABEL_UNDEFINED, s))
        | _ \<Rightarrow> emit_data (word_bytes (operand_word h v)) s)"
| "second_dir h t DIR_WORD v s =
     (if ss_section s \<noteq> SECTION_DATA then Done (ASM_NOT_A_DATA_SECTION, s)
      else emit_data (word_bytes (operand_word h v)) s)"
| "second_dir h t DIR_DATA v s = Done (ASM_OK, s\<lparr>ss_section := SECTION_DATA\<rparr>)"
| "second_dir h t DIR_TEXT v s = Done (ASM_OK, s\<lparr>ss_section := SECTION_TEXT\<rparr>)"
| "second_dir h t DIR_ENTRY v s =
     (case v of
        OPERAND_IDENT str \<Rightarrow>
          (case getSymbolAddr t str of
             Some addr \<Rightarrow>
               Done (ASM_OK, s\<lparr>ss_bin := (ss_bin s)\<lparr>headers := (headers (ss_bin s))\<lparr>entry_point := addr\<rparr>\<rparr>\<rparr>)
           | None \<Rightarrow> Done (ASM_LABEL_UNDEFINED, s))
      | _ \<Rightarrow> Undefined)"
| "second_dir h t DIR_STRING v s =
     (if ss_section s \<noteq> SECTION_DATA then Done (ASM_NOT_A_DATA_SECTION, s)
      else case v of OPERAND_STRING str \<Rightarrow> emit_data str s | _ \<Rightarrow> Undefined)"
| "second_dir h t DIR_COUNT v s = Exit_failure"

text \<open>\<open>*base_reg = r\<close>: the first register of an operation with one argument, else the second.\<close>

definition set_base :: "nat \<Rightarrow> u8 \<Rightarrow> instruction \<Rightarrow> instruction" where
  "set_base args_count r i = (if args_count \<le> 1 then i\<lparr>ins_a := r\<rparr> else i\<lparr>ins_b := r\<rparr>)"

fun fill_operand :: "Symbol_table \<Rightarrow> nat \<Rightarrow> Operand \<Rightarrow> instruction \<Rightarrow> (AsmError \<times> instruction) outcome" where
  "fill_operand t n OPERAND_NONE i = Done (ASM_OK, i)"
| "fill_operand t n (OPERAND_VALUE v) i = Done (ASM_OK, i\<lparr>args := v\<rparr>)"
| "fill_operand t n (OPERAND_MEM_VALUE v) i = Done (ASM_OK, i\<lparr>args := v\<rparr>)"
| "fill_operand t n (OPERAND_REG r) i = Done (ASM_OK, set_base n r i)"
| "fill_operand t n (OPERAND_MEM_REG r) i = Done (ASM_OK, set_base n r i)"
| "fill_operand t n (OPERAND_MEM_IDX r off) i = Done (ASM_OK, (set_base n r i)\<lparr>args := off\<rparr>)"
| "fill_operand t n (OPERAND_IDENT str) i =
     (case getSymbolAddr t str of
        Some addr \<Rightarrow> Done (ASM_OK, i\<lparr>args := addr\<rparr>)
      | None \<Rightarrow> Done (ASM_LABEL_UNDEFINED, i))"
| "fill_operand t n (OPERAND_MEM_IDENT str) i =
     (case getSymbolAddr t str of
        Some addr \<Rightarrow> Done (ASM_OK, i\<lparr>args := addr\<rparr>)
      | None \<Rightarrow> Done (ASM_LABEL_UNDEFINED, i))"
| "fill_operand t n (OPERAND_MEM_IDX_IDENT str off) i =
     (case getSymbolAddr t str of
        Some addr \<Rightarrow> Done (ASM_OK, i\<lparr>args := addr + off\<rparr>)
      | None \<Rightarrow> Done (ASM_LABEL_UNDEFINED, i))"
| "fill_operand t n (OPERAND_STRING str) i = Exit_failure"

definition zero_instr :: instruction where
  "zero_instr = \<lparr>opcode = OP_ADD, mode = MODE_NONE, ins_a = 0, ins_b = 0, args = 0\<rparr>"

definition second_instr :: "host \<Rightarrow> Symbol_table \<Rightarrow> OP_CODE \<Rightarrow> Operand \<Rightarrow> Operand \<Rightarrow> second_state \<Rightarrow>
    (AsmError \<times> second_state) outcome" where
  "second_instr h t op a b s =
     (if ss_section s \<noteq> SECTION_TEXT then Done (ASM_NOT_A_TEXT_SECTION, s)
      else let n = getArgsCount op in
        case getModeFromOperands a b n (ss_status s) of (m, status) \<Rightarrow>
        chk_asm_status status
          (let s = s\<lparr>ss_status := status\<rparr>;
               i = zero_instr\<lparr>opcode := op, mode := m\<rparr>;
               i = (if n = 2 then i\<lparr>ins_a := operand_reg h a\<rparr> else i)
           in obind (fill_operand t n (if n \<le> 1 then a else b) i) (\<lambda>(e, i).
             if e \<noteq> ASM_OK then Done (e, s)
             else obind (instructionEncode i (code_size (headers (ss_bin s)) - ss_text s)) (\<lambda>(w, written).
               obind (store_bytes (bytecode (ss_bin s)) (ss_text s) w) (\<lambda>c.
                 with_mode_size m (\<lambda>sz.
                   Done (ASM_OK, s\<lparr>ss_bin := (ss_bin s)\<lparr>bytecode := c\<rparr>, ss_text := ss_text s + sz\<rparr>)))))))"

fun second_node :: "host \<Rightarrow> Symbol_table \<Rightarrow> IR_Node \<Rightarrow> second_state \<Rightarrow> (AsmError \<times> second_state) outcome" where
  "second_node h t (IR_LABEL line name) s = Done (ASM_OK, s\<lparr>ss_line := line\<rparr>)"
| "second_node h t (IR_DIR line d v) s = second_dir h t d v (s\<lparr>ss_line := line\<rparr>)"
| "second_node h t (IR_INSTR line op a b) s = second_instr h t op a b (s\<lparr>ss_line := line\<rparr>)"

fun second_loop :: "host \<Rightarrow> Symbol_table \<Rightarrow> IR_Node list \<Rightarrow> second_state \<Rightarrow> (AsmError \<times> second_state) outcome" where
  "second_loop h t [] s = Done (ASM_OK, s)"
| "second_loop h t (n # ns) s =
     obind (second_node h t n s) (\<lambda>(e, s). if e = ASM_OK then second_loop h t ns s else Done (e, s))"

definition second_start :: "host \<Rightarrow> Assembler \<Rightarrow> second_state" where
  "second_start h ass =
     (let hd = headers (bin ass)
      in \<lparr>ss_bin = \<lparr>headers = hd\<lparr>magic_number := MAGIC_NUMBER\<rparr>,
           bytecode = malloc_block (code_junk h) (code_size hd),
           data = malloc_block (data_junk h) (data_size hd)\<rparr>,
         ss_line = error_line ass, ss_text = 0, ss_data = 0, ss_section = SECTION_UNDEF,
         ss_status = None\<rparr>)"

definition assemblerSecondPass :: "host \<Rightarrow> Assembler \<Rightarrow> IR_Node list \<Rightarrow> (AsmError \<times> Assembler) outcome" where
  "assemblerSecondPass h ass nodes =
     obind (second_loop h (symtable ass) nodes (second_start h ass)) (\<lambda>(e, s).
       Done (e, ass\<lparr>bin := ss_bin s, error_line := ss_line s\<rparr>))"

end
