(* ===== verification/Assembled.thy ===== *)
theory Assembled
  imports Assembler
begin

text \<open>
  What the assembler promises: which programs the first pass accepts and the addresses it gives
  their labels, the image the second pass writes, and what the machine then runs.
\<close>

unbundle bit_operations_syntax

section \<open>Layout of a program\<close>

definition node_mode :: "OP_CODE \<Rightarrow> Operand \<Rightarrow> Operand \<Rightarrow> MODE" where
  "node_mode op a b = fst (getModeFromOperands a b (getArgsCount op) None)"

fun text_size :: "IR_Node \<Rightarrow> nat" where
  "text_size (IR_INSTR line op a b) = unat (mode_size (node_mode op a b))"
| "text_size _ = 0"

fun dir_size :: "DirType \<Rightarrow> Operand \<Rightarrow> nat" where
  "dir_size DIR_BYTE v = 1"
| "dir_size DIR_WORD v = 8"
| "dir_size DIR_ADDR v = 8"
| "dir_size DIR_STRING (OPERAND_STRING str) = length str"
| "dir_size _ v = 0"

fun data_bytes :: "IR_Node \<Rightarrow> nat" where
  "data_bytes (IR_DIR line d v) = dir_size d v"
| "data_bytes _ = 0"

definition text_total :: "IR_Node list \<Rightarrow> nat" where
  "text_total ns = sum_list (map text_size ns)"

definition data_total :: "IR_Node list \<Rightarrow> nat" where
  "data_total ns = sum_list (map data_bytes ns)"

fun switch :: "Section \<Rightarrow> IR_Node \<Rightarrow> Section" where
  "switch s (IR_DIR line DIR_TEXT v) = SECTION_TEXT"
| "switch s (IR_DIR line DIR_DATA v) = SECTION_DATA"
| "switch s _ = s"

text \<open>The section a program ends in.\<close>

definition section_of :: "IR_Node list \<Rightarrow> Section" where
  "section_of ns = foldl switch SECTION_UNDEF ns"

fun is_entry :: "IR_Node \<Rightarrow> bool" where
  "is_entry (IR_DIR line DIR_ENTRY v) = True"
| "is_entry _ = False"

fun is_instr :: "IR_Node \<Rightarrow> bool" where
  "is_instr (IR_INSTR line op a b) = True"
| "is_instr _ = False"

text \<open>The address a label gets at the end of a program: that of the next byte of its section.\<close>

definition address_of :: "IR_Node list \<Rightarrow> u64" where
  "address_of ns = (if section_of ns = SECTION_DATA then DATA_BASE + of_nat (data_total ns)
     else of_nat (text_total ns))"

fun label_names :: "IR_Node list \<Rightarrow> u8 list list" where
  "label_names [] = []"
| "label_names (IR_LABEL line name # ns) = name # label_names ns"
| "label_names (n # ns) = label_names ns"

text \<open>The labels of \<open>ns\<close> with their addresses, when \<open>ns\<close> follows \<open>before\<close>.\<close>

fun symbols_after :: "IR_Node list \<Rightarrow> IR_Node list \<Rightarrow> Symbol list" where
  "symbols_after before [] = []"
| "symbols_after before (n # ns) =
     (case n of IR_LABEL line name \<Rightarrow> [\<lparr>sym_string = name, sym_addr = address_of before\<rparr>] | _ \<Rightarrow> []) @
     symbols_after (before @ [n]) ns"

abbreviation symbols :: "IR_Node list \<Rightarrow> Symbol list" where
  "symbols ns \<equiv> symbols_after [] ns"

fun is_string :: "Operand \<Rightarrow> bool" where
  "is_string (OPERAND_STRING str) = True"
| "is_string _ = False"

text \<open>What the first pass asks of a node that follows the program \<open>before\<close>.\<close>

fun dir_ok :: "IR_Node list \<Rightarrow> DirType \<Rightarrow> Operand \<Rightarrow> bool" where
  "dir_ok before DIR_BYTE v = (is_value v \<and> section_of before = SECTION_DATA)"
| "dir_ok before DIR_WORD v = ((is_value v \<or> is_ident v) \<and> section_of before = SECTION_DATA)"
| "dir_ok before DIR_ADDR v = ((is_value v \<or> is_ident v) \<and> section_of before = SECTION_DATA)"
| "dir_ok before DIR_STRING v = (is_string v \<and> section_of before = SECTION_DATA)"
| "dir_ok before DIR_ENTRY v = (is_ident v \<and> \<not> list_ex is_entry before)"
| "dir_ok before DIR_DATA v = (v = OPERAND_NONE)"
| "dir_ok before DIR_TEXT v = (v = OPERAND_NONE)"
| "dir_ok before DIR_COUNT v = False"

text \<open>
  An operation without operands leaves the status as it was, so an instruction with operands has
  to come before it.
\<close>

fun node_ok :: "IR_Node list \<Rightarrow> IR_Node \<Rightarrow> bool" where
  "node_ok before (IR_LABEL line name) \<longleftrightarrow>
     section_of before \<noteq> SECTION_UNDEF \<and> name \<notin> set (label_names before) \<and>
     length (label_names before) < 16"
| "node_ok before (IR_DIR line d v) \<longleftrightarrow> dir_ok before d v"
| "node_ok before (IR_INSTR line op a b) \<longleftrightarrow>
     section_of before = SECTION_TEXT \<and>
     snd (getModeFromOperands a b (getArgsCount op) (Some ASM_OK)) = Some ASM_OK \<and>
     supported op (node_mode op a b) \<and> (getArgsCount op = 0 \<longrightarrow> list_ex is_instr before)"

fun accepted_after :: "IR_Node list \<Rightarrow> IR_Node list \<Rightarrow> bool" where
  "accepted_after before [] \<longleftrightarrow> True"
| "accepted_after before (n # ns) \<longleftrightarrow> node_ok before n \<and> accepted_after (before @ [n]) ns"

abbreviation accepted :: "IR_Node list \<Rightarrow> bool" where
  "accepted ns \<equiv> accepted_after [] ns"

section \<open>Prefixes\<close>

lemma totals_append [simp]:
  "text_total (xs @ ys) = text_total xs + text_total ys"
  "data_total (xs @ ys) = data_total xs + data_total ys"
  "text_total [] = 0" "data_total [] = 0"
  "text_total (n # ys) = text_size n + text_total ys"
  "data_total (n # ys) = data_bytes n + data_total ys"
  by (simp_all add: text_total_def data_total_def)

lemma section_of_snoc [simp]: "section_of (xs @ [n]) = switch (section_of xs) n" "section_of [] = SECTION_UNDEF"
  by (simp_all add: section_of_def)

lemma label_names_append [simp]: "label_names (xs @ ys) = label_names xs @ label_names ys"
  by (induction xs rule: label_names.induct) simp_all

lemma symbols_after_append:
  "symbols_after before (xs @ ys) = symbols_after before xs @ symbols_after (before @ xs) ys"
  by (induction xs arbitrary: before) simp_all

lemma symbol_names: "map sym_string (symbols_after before ns) = label_names ns"
proof (induction ns arbitrary: before)
  case (Cons n ns)
  then show ?case by (cases n) simp_all
qed simp

lemma accepted_append:
  "accepted_after before (xs @ ys) \<longleftrightarrow> accepted_after before xs \<and> accepted_after (before @ xs) ys"
  by (induction xs arbitrary: before) simp_all

lemma accepted_snoc: "accepted (ns @ [n]) \<longleftrightarrow> accepted ns \<and> node_ok ns n"
  by (simp add: accepted_append)

lemma symbols_snoc: "symbols (ns @ [n]) =
    symbols ns @ (case n of IR_LABEL line name \<Rightarrow> [\<lparr>sym_string = name, sym_addr = address_of ns\<rparr>] | _ \<Rightarrow> [])"
  by (cases n) (simp_all add: symbols_after_append)

lemma accepted_labels: "accepted ns \<Longrightarrow> distinct (label_names ns) \<and> length (label_names ns) \<le> 16"
proof (induction ns rule: rev_induct)
  case (snoc n ns)
  then show ?case by (cases n) (auto simp: accepted_snoc)
qed simp

lemma getMode_status:
  "getArgsCount op \<noteq> 0 \<Longrightarrow> getModeFromOperands a b (getArgsCount op) s = getModeFromOperands a b (getArgsCount op) s'"
  by (simp add: getModeFromOperands_def)

lemma getMode_fst: "fst (getModeFromOperands a b n s) = fst (getModeFromOperands a b n s')"
  by (simp add: getModeFromOperands_def Let_def split: Operand.splits)

lemma getMode_not_COUNT: "fst (getModeFromOperands a b n s) \<noteq> MODE_COUNT"
  by (simp add: getModeFromOperands_def Let_def split: Operand.splits)

lemma getMode_not_None: "n \<noteq> 0 \<Longrightarrow> snd (getModeFromOperands a b n s) \<noteq> None"
  by (simp add: getModeFromOperands_def Let_def split: Operand.splits)

lemma node_mode_not_COUNT [simp]: "node_mode op a b \<noteq> MODE_COUNT"
  by (simp add: node_mode_def getMode_not_COUNT)

text \<open>The status the code holds after the instructions of an accepted program.\<close>

definition status_after :: "IR_Node list \<Rightarrow> AsmError option" where
  "status_after ns = (if list_ex is_instr ns then Some ASM_OK else None)"

text \<open>What the getter returns after an accepted program: the outcome of the status check.\<close>

lemma getMode_after:
  "getModeFromOperands a b (getArgsCount op) (status_after ns) =
    (node_mode op a b, snd (getModeFromOperands a b (getArgsCount op) (status_after ns)))"
  by (simp add: node_mode_def prod_eq_iff getMode_fst)

lemma getMode_ok_iff:
  "snd (getModeFromOperands a b (getArgsCount op) (status_after ns)) = Some ASM_OK \<longleftrightarrow>
    snd (getModeFromOperands a b (getArgsCount op) (Some ASM_OK)) = Some ASM_OK \<and>
    (getArgsCount op = 0 \<longrightarrow> list_ex is_instr ns)"
proof (cases "getArgsCount op = 0")
  case True
  then show ?thesis by (auto simp: getModeFromOperands_def status_after_def)
next
  case False
  then show ?thesis by (simp add: getMode_status [of op a b "Some ASM_OK" "status_after ns"])
qed

section \<open>The symbol table\<close>

text \<open>
  What the passes rely on: up to its capacity, a store of symbols behaves as the list of the symbols
  added to it.
\<close>

locale symbol_store =
  fixes store :: "Symbol list \<Rightarrow> 't"
    and member :: "'t \<Rightarrow> u8 list \<Rightarrow> bool"
    and add :: "'t \<Rightarrow> Symbol \<Rightarrow> 't outcome"
    and lookup :: "'t \<Rightarrow> u8 list \<Rightarrow> u64 option"
    and capacity :: nat
  assumes member_iff: "length es \<le> capacity \<Longrightarrow> member (store es) s \<longleftrightarrow> s \<in> set (map sym_string es)"
    and add_fits: "length es < capacity \<Longrightarrow> add (store es) e = Done (store (es @ [e]))"
    and lookup_first: "length es \<le> capacity \<Longrightarrow>
      lookup (store es) s = map_option sym_addr (List.find (\<lambda>e. sym_string e = s) es)"
begin

lemma lookup_iff:
  assumes "length es \<le> capacity" "distinct (map sym_string es)"
  shows "lookup (store es) s = Some a \<longleftrightarrow> (\<exists>e \<in> set es. sym_string e = s \<and> sym_addr e = a)"
  using assms(2) unfolding lookup_first [OF assms(1)] by (induction es) (auto simp: rev_image_eqI)

lemma lookup_None:
  assumes "length es \<le> capacity"
  shows "lookup (store es) s = None \<longleftrightarrow> \<not> member (store es) s"
  unfolding lookup_first [OF assms] member_iff [OF assms] by (induction es) auto

text \<open>A symbol that is added is found, and hides none before it.\<close>

lemma lookup_added:
  assumes "length es < capacity" "\<not> member (store es) (sym_string e)" "add (store es) e = Done t"
  shows "lookup t s = (if s = sym_string e then Some (sym_addr e) else lookup (store es) s)"
proof -
  have t: "t = store (es @ [e])" using assms(1,3) by (simp add: add_fits)
  have "sym_string e \<notin> set (map sym_string es)" using assms(1,2) by (simp add: member_iff)
  then have "List.find (\<lambda>e. sym_string e = s) (es @ [e]) =
      (if s = sym_string e then Some e else List.find (\<lambda>e. sym_string e = s) es)"
    by (induction es) auto
  then show ?thesis using assms(1) by (simp add: t lookup_first)
qed

end

definition table_of :: "Symbol list \<Rightarrow> Symbol_table" where
  "table_of es = \<lparr>sym_table = es, sym_next = of_nat (length es), sym_size = 16, sym_bytes = 256\<rparr>"

interpretation symtab: symbol_store table_of isInSymbolTable addToSymbolTable getSymbolAddr 16
proof
  fix es :: "Symbol list" and s :: "u8 list"
  assume "length es \<le> 16"
  then show "isInSymbolTable (table_of es) s \<longleftrightarrow> s \<in> set (map sym_string es)"
    "getSymbolAddr (table_of es) s = map_option sym_addr (List.find (\<lambda>e. sym_string e = s) es)"
    by (auto simp: isInSymbolTable_def getSymbolAddr_def table_of_def unat_of_nat)
next
  fix es :: "Symbol list" and e :: Symbol
  assume es: "length es < 16"
  then have "unat (word_of_nat (length es) :: u64) \<noteq> unat (16 :: u64)" by (simp add: unat_of_nat)
  then have "(word_of_nat (length es) :: u64) \<noteq> 16" by metis
  with es show "addToSymbolTable (table_of es) e = Done (table_of (es @ [e]))"
    by (simp add: addToSymbolTable_def table_of_def Let_def unat_of_nat)
qed

lemma addToSymbolTable_full:
  "length es = 16 \<Longrightarrow> addToSymbolTable (table_of es) e = Undefined"
  by (simp add: addToSymbolTable_def table_of_def Let_def)

section \<open>The first pass\<close>

text \<open>The state of the pass after an accepted program.\<close>

definition first_after :: "u64 \<Rightarrow> IR_Node list \<Rightarrow> first_state" where
  "first_after line ns = \<lparr>fs_symtable = table_of (symbols ns),
     fs_line = (if ns = [] then line else node_line (last ns)),
     fs_text = of_nat (text_total ns), fs_data = DATA_BASE + of_nat (data_total ns),
     fs_section = section_of ns, fs_entry_ok = list_ex is_entry ns, fs_status = status_after ns\<rparr>"

lemma first_start_after: "first_start line = first_after line []"
  by (simp add: first_start_def first_after_def empty_table_def table_of_def status_after_def)

lemma first_instr_after:
  "accepted ns \<Longrightarrow> (if node_ok ns (IR_INSTR l op a b)
    then first_node (IR_INSTR l op a b) (first_after line ns) = Done (ASM_OK, first_after line (ns @ [IR_INSTR l op a b]))
    else \<forall>s. first_node (IR_INSTR l op a b) (first_after line ns) \<noteq> Done (ASM_OK, s))"
  using getMode_ok_iff [of a b op ns] getMode_after [of a b op ns]
  by (cases "snd (getModeFromOperands a b (getArgsCount op) (status_after ns))")
    (auto simp: first_instr_def first_after_def symbols_snoc status_after_def split: prod.splits)

lemma first_label_after:
  assumes "accepted ns"
  shows "if node_ok ns (IR_LABEL l nm)
    then first_node (IR_LABEL l nm) (first_after line ns) = Done (ASM_OK, first_after line (ns @ [IR_LABEL l nm]))
    else \<forall>s. first_node (IR_LABEL l nm) (first_after line ns) \<noteq> Done (ASM_OK, s)"
proof -
  let ?es = "symbols ns"
  have len: "length ?es = length (label_names ns)" "set (map sym_string ?es) = set (label_names ns)"
    using symbol_names [of "[]" ns] by (metis length_map, simp)
  have le: "length ?es \<le> 16" using accepted_labels [OF assms] len by simp
  show ?thesis
  proof (cases "length ?es = 16")
    case True
    then show ?thesis using len symtab.member_iff [OF le]
      by (auto simp: first_label_def first_after_def addToSymbolTable_full)
  next
    case False
    with le have "length ?es < 16" by simp
    then show ?thesis using len symtab.member_iff [OF le]
      by (auto simp: first_label_def first_after_def symtab.add_fits symbols_snoc address_of_def
          status_after_def)
  qed
qed

lemma first_dir_after:
  "if node_ok ns (IR_DIR l d v)
    then first_node (IR_DIR l d v) (first_after line ns) = Done (ASM_OK, first_after line (ns @ [IR_DIR l d v]))
    else \<forall>s. first_node (IR_DIR l d v) (first_after line ns) \<noteq> Done (ASM_OK, s)"
  by (cases d; cases v) (auto simp: first_after_def symbols_snoc status_after_def)

lemma first_node_after:
  assumes "accepted ns"
  shows "if node_ok ns n then first_node n (first_after line ns) = Done (ASM_OK, first_after line (ns @ [n]))
    else \<forall>s. first_node n (first_after line ns) \<noteq> Done (ASM_OK, s)"
  using first_instr_after [OF assms] first_label_after [OF assms] first_dir_after by (cases n) metis+

lemma first_loop_after:
  "accepted before \<Longrightarrow> first_loop ns (first_after line before) = Done (ASM_OK, s) \<longleftrightarrow>
    accepted_after before ns \<and> s = first_after line (before @ ns)"
proof (induction ns arbitrary: before)
  case (Cons n ns)
  show ?case
  proof (cases "node_ok before n")
    case True
    with Cons first_node_after [OF Cons.prems, of n line] accepted_snoc [of before n] show ?thesis by simp
  next
    case False
    with first_node_after [OF Cons.prems, of n line] show ?thesis
      by (auto simp: obind_Done_iff split: if_splits)
  qed
qed auto

lemma first_loop_append:
  "first_loop (xs @ ys) s =
    obind (first_loop xs s) (\<lambda>(e, s). if e = ASM_OK then first_loop ys s else Done (e, s))"
proof (induction xs arbitrary: s)
  case (Cons x xs)
  then show ?case by (cases "first_node x s") auto
qed simp

text \<open>What the first pass leaves in the assembler.\<close>

definition laid_out :: "Assembler \<Rightarrow> IR_Node list \<Rightarrow> Assembler" where
  "laid_out ass ns = ass\<lparr>symtable := table_of (symbols ns),
     error_line := (if ns = [] then error_line ass else node_line (last ns)),
     bin := with_sizes (of_nat (text_total ns)) (of_nat (data_total ns)) (bin ass)\<rparr>"

lemma assemblerFirstPass_iff:
  "assemblerFirstPass ass ns = Done (ASM_OK, ass') \<longleftrightarrow> accepted ns \<and> ass' = laid_out ass ns"
proof -
  have "assemblerFirstPass ass ns = Done (ASM_OK, ass') \<longleftrightarrow>
      (\<exists>s. first_loop ns (first_after (error_line ass) []) = Done (ASM_OK, s) \<and>
        ass' = ass\<lparr>symtable := fs_symtable s, error_line := fs_line s,
          bin := with_sizes (fs_text s) (fs_data s - DATA_BASE) (bin ass)\<rparr>)"
    by (auto simp: assemblerFirstPass_def first_start_after [symmetric] obind_Done_iff Let_def split: if_splits)
  then show ?thesis by (simp add: first_loop_after) (auto simp: first_after_def laid_out_def)
qed

lemma symbols_at:
  "e \<in> set (symbols ns) \<longleftrightarrow> (\<exists>k < length ns. \<exists>line. ns ! k = IR_LABEL line (sym_string e) \<and>
    sym_addr e = address_of (take k ns))"
proof (induction ns rule: rev_induct)
  case (snoc n ns)
  have "(\<exists>k < length (ns @ [n]). \<exists>line. (ns @ [n]) ! k = IR_LABEL line (sym_string e) \<and>
      sym_addr e = address_of (take k (ns @ [n]))) \<longleftrightarrow>
    (\<exists>k < length ns. \<exists>line. ns ! k = IR_LABEL line (sym_string e) \<and> sym_addr e = address_of (take k ns)) \<or>
    (\<exists>line. n = IR_LABEL line (sym_string e) \<and> sym_addr e = address_of ns)"
    by (auto simp: less_Suc_eq nth_append)
  moreover have "e \<in> set (symbols (ns @ [n])) \<longleftrightarrow> e \<in> set (symbols ns) \<or>
    (\<exists>line. n = IR_LABEL line (sym_string e) \<and> sym_addr e = address_of ns)"
    by (cases n; cases e) (auto simp: symbols_snoc)
  ultimately show ?case using snoc by simp
qed simp

section \<open>The image of a program\<close>

fun base_of :: "Operand \<Rightarrow> u8" where
  "base_of (OPERAND_REG r) = r"
| "base_of (OPERAND_MEM_REG r) = r"
| "base_of (OPERAND_MEM_IDX r off) = r"
| "base_of _ = 0"

text \<open>The word an operand stands for, \<open>None\<close> when it names an undefined label.\<close>

fun resolve :: "Symbol_table \<Rightarrow> Operand \<Rightarrow> u64 option" where
  "resolve t (OPERAND_VALUE v) = Some v"
| "resolve t (OPERAND_MEM_VALUE v) = Some v"
| "resolve t (OPERAND_MEM_IDX r off) = Some off"
| "resolve t (OPERAND_IDENT s) = getSymbolAddr t s"
| "resolve t (OPERAND_MEM_IDENT s) = getSymbolAddr t s"
| "resolve t (OPERAND_MEM_IDX_IDENT s off) = map_option (\<lambda>addr. addr + off) (getSymbolAddr t s)"
| "resolve t _ = Some 0"

text \<open>The operand that carries the argument of an instruction.\<close>

definition last_operand :: "OP_CODE \<Rightarrow> Operand \<Rightarrow> Operand \<Rightarrow> Operand" where
  "last_operand op a b = (if getArgsCount op \<le> 1 then a else b)"

definition node_instruction :: "Symbol_table \<Rightarrow> OP_CODE \<Rightarrow> Operand \<Rightarrow> Operand \<Rightarrow> instruction" where
  "node_instruction t op a b = \<lparr>opcode = op, mode = node_mode op a b, ins_a = base_of a,
     ins_b = base_of b, args = the (resolve t (last_operand op a b))\<rparr>"

fun instructions :: "Symbol_table \<Rightarrow> IR_Node list \<Rightarrow> instruction list" where
  "instructions t [] = []"
| "instructions t (IR_INSTR line op a b # ns) = node_instruction t op a b # instructions t ns"
| "instructions t (n # ns) = instructions t ns"

fun dir_data :: "host \<Rightarrow> Symbol_table \<Rightarrow> DirType \<Rightarrow> Operand \<Rightarrow> u8 list" where
  "dir_data h t DIR_BYTE (OPERAND_VALUE v) = [ucast v]"
| "dir_data h t DIR_WORD v = bytes_le 8 (operand_word h v)"
| "dir_data h t DIR_ADDR (OPERAND_IDENT s) = bytes_le 8 (the (getSymbolAddr t s))"
| "dir_data h t DIR_ADDR v = bytes_le 8 (operand_word h v)"
| "dir_data h t DIR_STRING (OPERAND_STRING s) = s"
| "dir_data h t d v = []"

fun data_image :: "host \<Rightarrow> Symbol_table \<Rightarrow> IR_Node list \<Rightarrow> u8 list" where
  "data_image h t [] = []"
| "data_image h t (IR_DIR line d v # ns) = dir_data h t d v @ data_image h t ns"
| "data_image h t (n # ns) = data_image h t ns"

fun entry_step :: "Symbol_table \<Rightarrow> u64 \<Rightarrow> IR_Node \<Rightarrow> u64" where
  "entry_step t e (IR_DIR line DIR_ENTRY (OPERAND_IDENT s)) = the (getSymbolAddr t s)"
| "entry_step t e n = e"

text \<open>The entry point after a program, \<open>e\<close> when it has no \<open>.entry\<close>.\<close>

definition entry_of :: "Symbol_table \<Rightarrow> u64 \<Rightarrow> IR_Node list \<Rightarrow> u64" where
  "entry_of t e ns = foldl (entry_step t) e ns"

text \<open>Every label a node refers to is defined.\<close>

fun refs_ok :: "Symbol_table \<Rightarrow> IR_Node \<Rightarrow> bool" where
  "refs_ok t (IR_INSTR line op a b) \<longleftrightarrow> resolve t (last_operand op a b) \<noteq> None"
| "refs_ok t (IR_DIR line DIR_ADDR (OPERAND_IDENT s)) \<longleftrightarrow> getSymbolAddr t s \<noteq> None"
| "refs_ok t (IR_DIR line DIR_ENTRY (OPERAND_IDENT s)) \<longleftrightarrow> getSymbolAddr t s \<noteq> None"
| "refs_ok t n \<longleftrightarrow> True"

lemma instructions_append [simp]: "instructions t (xs @ ys) = instructions t xs @ instructions t ys"
  by (induction t xs rule: instructions.induct) simp_all

lemma data_image_append [simp]: "data_image h t (xs @ ys) = data_image h t xs @ data_image h t ys"
  by (induction h t xs rule: data_image.induct) simp_all

lemma entry_of_snoc [simp]: "entry_of t e (ns @ [n]) = entry_step t (entry_of t e ns) n" "entry_of t e [] = e"
  by (simp_all add: entry_of_def)

lemma length_dir_data: "dir_ok ns d v \<Longrightarrow> length (dir_data h t d v) = dir_size d v"
  by (cases d; cases v) simp_all

lemma length_data_image: "accepted ns \<Longrightarrow> length (data_image h t ns) = data_total ns"
proof (induction ns rule: rev_induct)
  case (snoc n ns)
  then show ?case by (cases n) (auto simp: accepted_snoc length_dir_data)
qed simp

lemma supported_not_COUNT: "supported op m \<Longrightarrow> op \<noteq> OP_COUNT"
  by (auto simp: supported_def get_handler_def)

lemma instructions_encodable: "accepted ns \<Longrightarrow> list_all encodable (instructions t ns)"
proof (induction ns rule: rev_induct)
  case (snoc n ns)
  then show ?case
    by (cases n) (auto simp: accepted_snoc encodable_def node_instruction_def dest: supported_not_COUNT)
qed simp

lemma instr_size_node: "instr_size (node_instruction t op a b) = unat (mode_size (node_mode op a b))"
  by (simp add: instr_size_def node_instruction_def)

lemma instructions_size:
  "bytecode.offset (instructions t ns) (length (instructions t ns)) = text_total ns"
  by (induction t ns rule: instructions.induct) (simp_all add: instr_size_node)

lemma length_code_image:
  "accepted ns \<Longrightarrow> length (bytecode.image (instructions t ns)) = text_total ns"
  by (simp add: bytecode.length_image [OF instructions_encodable] instructions_size)

lemma image_append [simp]: "bytecode.image (xs @ ys) = bytecode.image xs @ bytecode.image ys"
  by (simp add: bytecode.image_def)

section \<open>The second pass\<close>

lemma store_bytes_extend:
  assumes "length img + length bs \<le> length blk" "length blk < 2 ^ 64"
  shows "store_bytes (overlay 0 img blk) (of_nat (length img)) bs = Done (overlay 0 (img @ bs) blk)"
proof -
  have "unat (of_nat (length img) :: u64) = length img" using assms by (simp add: unat_of_nat)
  then have "store_bytes (overlay 0 img blk) (of_nat (length img)) bs =
      Done (overlay (length img) bs (overlay 0 img blk))"
    using assms by (simp add: store_bytes_Done)
  then show ?thesis using assms(1) by (simp add: overlay_def ac_simps)
qed

definition second_after :: "host \<Rightarrow> Assembler \<Rightarrow> IR_Node list \<Rightarrow> second_state" where
  "second_after h ass ns = (let b = ss_bin (second_start h ass); t = symtable ass in
     \<lparr>ss_bin = \<lparr>headers = (headers b)\<lparr>entry_point := entry_of t (entry_point (headers b)) ns\<rparr>,
        bytecode = overlay 0 (bytecode.image (instructions t ns)) (bytecode b),
        data = overlay 0 (data_image h t ns) (data b)\<rparr>,
      ss_line = (if ns = [] then error_line ass else node_line (last ns)),
      ss_text = of_nat (text_total ns), ss_data = of_nat (data_total ns),
      ss_section = section_of ns, ss_status = status_after ns\<rparr>)"

lemma second_start_after: "second_start h ass = second_after h ass []"
  by (simp add: second_start_def second_after_def Let_def status_after_def)

lemma byte_loops: "addr_bytes v = bytes_le 8 v" "word_bytes v = bytes_le 8 v"
  by (auto simp: addr_bytes_def word_bytes_def bytes_le_def intro!: ucast_signed_drop_bit)

text \<open>The buffers have room for a program.\<close>

definition room_for :: "Assembler \<Rightarrow> IR_Node list \<Rightarrow> bool" where
  "room_for ass ns \<longleftrightarrow> text_total ns \<le> unat (code_size (headers (bin ass))) \<and>
     data_total ns \<le> unat (data_size (headers (bin ass)))"

lemma emit_data_after:
  assumes "accepted ns" "room_for ass ns" "length bs = k"
    and "data_total ns + k \<le> unat (data_size (headers (bin ass)))"
  shows "emit_data bs (second_after h ass ns\<lparr>ss_line := l\<rparr>) =
    Done (ASM_OK, (second_after h ass ns)\<lparr>ss_line := l,
      ss_bin := (ss_bin (second_after h ass ns))\<lparr>
        data := overlay 0 (data_image h (symtable ass) ns @ bs) (data (ss_bin (second_start h ass)))\<rparr>,
      ss_data := of_nat (data_total ns) + of_nat k\<rparr>)"
proof -
  let ?img = "data_image h (symtable ass) ns" and ?blk = "data (ss_bin (second_start h ass))"
  have len: "length ?img = data_total ns" using assms(1) by (rule length_data_image)
  have "length ?blk = unat (data_size (headers (bin ass)))"
    by (simp add: second_start_def Let_def malloc_block_def)
  then have "store_bytes (overlay 0 ?img ?blk) (of_nat (length ?img)) bs = Done (overlay 0 (?img @ bs) ?blk)"
    using assms len unsigned_less [of "data_size (headers (bin ass))"] by (intro store_bytes_extend) simp_all
  then show ?thesis using len assms(3) by (simp add: emit_data_def second_after_def Let_def)
qed

lemma second_dir_after:
  assumes "accepted (ns @ [IR_DIR l d v])" "room_for ass (ns @ [IR_DIR l d v])"
  shows "if refs_ok (symtable ass) (IR_DIR l d v)
    then second_node h (symtable ass) (IR_DIR l d v) (second_after h ass ns) =
      Done (ASM_OK, second_after h ass (ns @ [IR_DIR l d v]))
    else \<exists>s. second_node h (symtable ass) (IR_DIR l d v) (second_after h ass ns) = Done (ASM_LABEL_UNDEFINED, s)"
proof -
  have ok: "accepted ns" "dir_ok ns d v" using assms(1) by (simp_all add: accepted_snoc)
  have room: "room_for ass ns" "data_total ns + dir_size d v \<le> unat (data_size (headers (bin ass)))"
    using assms(2) by (simp_all add: room_for_def)
  have emit: "emit_data bs (second_after h ass ns\<lparr>ss_line := l\<rparr>) =
      Done (ASM_OK, second_after h ass (ns @ [IR_DIR l d v]))"
    if "bs = dir_data h (symtable ass) d v" "d \<in> {DIR_BYTE, DIR_WORD, DIR_ADDR, DIR_STRING}" for bs
  proof -
    have len: "length bs = dir_size d v" using that(1) length_dir_data [OF ok(2)] by simp
    have keep: "switch (section_of ns) (IR_DIR l d v) = section_of ns"
      "entry_step t e (IR_DIR l d v) = e" for t e
      using that(2) by auto
    show ?thesis
      unfolding emit_data_after [OF ok(1) room(1) len room(2)]
      using that(1) keep by (simp add: second_after_def Let_def status_after_def)
  qed
  have sec: "ss_section (second_after h ass ns\<lparr>ss_line := l\<rparr>) = section_of ns"
    by (simp add: second_after_def Let_def)
  show ?thesis
  proof (cases "d \<in> {DIR_BYTE, DIR_WORD, DIR_ADDR, DIR_STRING}")
    case True
    with ok(2) show ?thesis by (cases d; cases v) (auto simp: sec emit byte_loops split: option.splits)
  next
    case False
    with ok(2) show ?thesis
      by (cases d; cases v) (auto simp: second_after_def Let_def status_after_def split: option.splits)
  qed
qed

lemma getArgsCount_cases: "getArgsCount op = 0 \<or> getArgsCount op = 1 \<or> getArgsCount op = 2"
  by (cases op) (simp_all add: getArgsCount_def)

text \<open>The operands of an accepted instruction, by the number of arguments.\<close>

lemma operands_cases:
  assumes "snd (getModeFromOperands a b (getArgsCount op) (Some ASM_OK)) = Some ASM_OK"
  obtains "getArgsCount op = 0" "a = OPERAND_NONE" "b = OPERAND_NONE"
  | "getArgsCount op = 1" "a \<noteq> OPERAND_NONE" "b = OPERAND_NONE" "\<not> is_string a"
  | r where "getArgsCount op = 2" "a = OPERAND_REG r" "b \<noteq> OPERAND_NONE" "\<not> is_string b"
proof -
  consider "getArgsCount op = 0" | "getArgsCount op = 1" | "getArgsCount op = 2"
    using getArgsCount_cases [of op] by (elim disjE) simp_all
  then show thesis
  proof cases
    case 1
    with assms that(1) show thesis by (auto simp: getModeFromOperands_def split: if_splits)
  next
    case 2
    with assms that(2) show thesis
      by (cases a) (auto simp: getModeFromOperands_def split: if_splits)
  next
    case 3
    with assms that(3) show thesis
      by (cases a; cases b) (auto simp: getModeFromOperands_def Let_def split: if_splits)
  qed
qed

lemma fill_operand_node:
  assumes "snd (getModeFromOperands a b (getArgsCount op) (Some ASM_OK)) = Some ASM_OK"
    and "i = (let i = zero_instr\<lparr>opcode := op, mode := node_mode op a b\<rparr>
              in if getArgsCount op = 2 then i\<lparr>ins_a := operand_reg h a\<rparr> else i)"
  shows "fill_operand t (getArgsCount op) (last_operand op a b) i =
    Done (if resolve t (last_operand op a b) = None then (ASM_LABEL_UNDEFINED, i)
      else (ASM_OK, node_instruction t op a b))"
  using assms(1)
proof (cases rule: operands_cases)
  case 1
  with assms(2) show ?thesis
    by (simp add: last_operand_def node_instruction_def zero_instr_def)
next
  case 2
  with assms(2) show ?thesis
    by (cases a)
      (auto simp: last_operand_def node_instruction_def zero_instr_def set_base_def split: option.splits)
next
  case (3 r)
  with assms(2) show ?thesis
    by (cases b)
      (auto simp: last_operand_def node_instruction_def zero_instr_def set_base_def split: option.splits)
qed

lemma second_instr_after:
  assumes "accepted (ns @ [IR_INSTR l op a b])" "room_for ass (ns @ [IR_INSTR l op a b])"
  shows "if refs_ok (symtable ass) (IR_INSTR l op a b)
    then second_node h (symtable ass) (IR_INSTR l op a b) (second_after h ass ns) =
      Done (ASM_OK, second_after h ass (ns @ [IR_INSTR l op a b]))
    else \<exists>s. second_node h (symtable ass) (IR_INSTR l op a b) (second_after h ass ns) = Done (ASM_LABEL_UNDEFINED, s)"
proof -
  let ?t = "symtable ass" and ?s = "(second_after h ass ns)\<lparr>ss_line := l\<rparr>"
  let ?i = "node_instruction ?t op a b" and ?m = "node_mode op a b"
  let ?img = "bytecode.image (instructions ?t ns)" and ?blk = "bytecode (ss_bin (second_start h ass))"
  have ok: "accepted ns" "section_of ns = SECTION_TEXT" "supported op ?m"
    "snd (getModeFromOperands a b (getArgsCount op) (Some ASM_OK)) = Some ASM_OK"
    "getArgsCount op = 0 \<longrightarrow> list_ex is_instr ns"
    using assms(1) by (simp_all add: accepted_snoc)
  have mode: "getModeFromOperands a b (getArgsCount op) (status_after ns) = (?m, Some ASM_OK)"
    using getMode_after [of a b op ns] getMode_ok_iff [of a b op ns] ok(4,5) by simp
  note fill = fill_operand_node [OF ok(4) refl, of ?t h, folded last_operand_def]
  have len: "length ?img = text_total ns" using ok(1) by (rule length_code_image)
  have room: "text_total ns + unat (mode_size ?m) \<le> unat (code_size (headers (bin ass)))"
    using assms(2) by (simp add: room_for_def)
  have blk: "length ?blk = unat (code_size (headers (bin ass)))"
    by (simp add: second_start_def Let_def malloc_block_def)
  have enc: "opcode ?i \<noteq> OP_COUNT" "mode ?i = ?m" using ok(3) by (auto simp: node_instruction_def dest: supported_not_COUNT)
  have "mode_size ?m \<le> code_size (headers (bin ass)) - of_nat (text_total ns)"
    using room unsigned_less [of "code_size (headers (bin ass))"]
    by (intro word_sub_ge) (simp add: unat_of_nat)
  then have e: "instructionEncode ?i (code_size (headers (bin ass)) - of_nat (text_total ns)) =
      Done (encoding ?i, mode_size ?m)"
    using instructionEncode_room [OF enc(1)] enc(2) by simp
  have elen: "length (encoding ?i) = unat (mode_size ?m)" using enc by (simp add: length_encoding)
  have st: "store_bytes (overlay 0 ?img ?blk) (of_nat (text_total ns)) (encoding ?i) =
      Done (overlay 0 (?img @ encoding ?i) ?blk)"
    using store_bytes_extend [of ?img "encoding ?i" ?blk] len room blk elen
      unsigned_less [of "code_size (headers (bin ass))"] by simp
  have s: "ss_section (second_after h ass ns) = SECTION_TEXT"
    "ss_status (second_after h ass ns) = status_after ns"
    "ss_text (second_after h ass ns) = of_nat (text_total ns)"
    "bytecode (ss_bin (second_after h ass ns)) = overlay 0 ?img ?blk"
    "code_size (headers (ss_bin (second_after h ass ns))) = code_size (headers (bin ass))"
    by (simp_all add: second_after_def Let_def ok(2) second_start_def)
  show ?thesis
  proof (cases "resolve ?t (last_operand op a b)")
    case None
    with fill show ?thesis by (simp add: second_instr_def s mode Let_def last_operand_def)
  next
    case (Some y)
    have "second_instr h ?t op a b ?s = Done (ASM_OK, ?s\<lparr>ss_status := Some ASM_OK,
        ss_bin := (ss_bin (second_after h ass ns))\<lparr>bytecode := overlay 0 (?img @ encoding ?i) ?blk\<rparr>,
        ss_text := of_nat (text_total ns) + mode_size ?m\<rparr>)"
      using fill Some by (simp add: second_instr_def s mode Let_def last_operand_def e st)
    then show ?thesis
      using Some by (simp add: second_after_def Let_def ok(2) status_after_def)
  qed
qed

lemma second_node_after:
  assumes "accepted (ns @ [n])" "room_for ass (ns @ [n])"
  shows "if refs_ok (symtable ass) n
    then second_node h (symtable ass) n (second_after h ass ns) = Done (ASM_OK, second_after h ass (ns @ [n]))
    else \<exists>s. second_node h (symtable ass) n (second_after h ass ns) = Done (ASM_LABEL_UNDEFINED, s)"
proof (cases n)
  case (IR_LABEL l name)
  then show ?thesis by (simp add: second_after_def Let_def status_after_def)
qed (use assms second_instr_after second_dir_after in \<open>metis+\<close>)

lemma room_for_prefix: "room_for ass (xs @ ys) \<Longrightarrow> room_for ass xs"
  by (simp add: room_for_def)

lemma second_loop_after:
  "accepted (before @ ns) \<Longrightarrow> room_for ass (before @ ns) \<Longrightarrow>
    (if \<forall>n \<in> set ns. refs_ok (symtable ass) n
     then second_loop h (symtable ass) ns (second_after h ass before) = Done (ASM_OK, second_after h ass (before @ ns))
     else \<exists>s. second_loop h (symtable ass) ns (second_after h ass before) = Done (ASM_LABEL_UNDEFINED, s))"
proof (induction ns arbitrary: before)
  case (Cons n ns)
  have "accepted (before @ [n])" "room_for ass (before @ [n])"
    using Cons.prems accepted_append [of "[]" "before @ [n]" ns] room_for_prefix [of ass "before @ [n]" ns]
    by simp_all
  note node = second_node_after [OF this, of h]
  have "accepted ((before @ [n]) @ ns)" "room_for ass ((before @ [n]) @ ns)"
    using Cons.prems by simp_all
  note rest = Cons.IH [OF this]
  show ?case
  proof (cases "refs_ok (symtable ass) n")
    case True
    with node rest show ?thesis by simp
  next
    case False
    with node obtain s where
      "second_node h (symtable ass) n (second_after h ass before) = Done (ASM_LABEL_UNDEFINED, s)" by auto
    with False show ?thesis by auto
  qed
qed simp

text \<open>What the second pass leaves in the assembler after a program without undefined labels.\<close>

definition assembled :: "host \<Rightarrow> Assembler \<Rightarrow> IR_Node list \<Rightarrow> Assembler" where
  "assembled h ass ns = (let t = symtable ass; hd = headers (bin ass) in
     ass\<lparr>error_line := (if ns = [] then error_line ass else node_line (last ns)),
       bin := \<lparr>headers = hd\<lparr>magic_number := MAGIC_NUMBER, entry_point := entry_of t (entry_point hd) ns\<rparr>,
         bytecode = bytecode.image (instructions t ns), data = data_image h t ns\<rparr>\<rparr>)"

lemma overlay_all: "length img = length blk \<Longrightarrow> overlay 0 img blk = img"
  by (simp add: overlay_def)

lemma assemblerSecondPass_laid_out:
  assumes "accepted ns" "text_total ns < 2 ^ 64" "data_total ns < 2 ^ 64"
  shows "if \<forall>n \<in> set ns. refs_ok (table_of (symbols ns)) n
    then assemblerSecondPass h (laid_out ass ns) ns = Done (ASM_OK, assembled h (laid_out ass ns) ns)
    else \<exists>ass'. assemblerSecondPass h (laid_out ass ns) ns = Done (ASM_LABEL_UNDEFINED, ass')"
proof -
  let ?a = "laid_out ass ns"
  have t: "symtable ?a = table_of (symbols ns)" by (simp add: laid_out_def)
  have sz: "unat (code_size (headers (bin ?a))) = text_total ns" "unat (data_size (headers (bin ?a))) = data_total ns"
    using assms by (simp_all add: laid_out_def with_sizes_def unat_of_nat)
  then have room: "room_for ?a ([] @ ns)" by (simp add: room_for_def)
  have "assembled h ?a ns = ?a\<lparr>bin := ss_bin (second_after h ?a ns), error_line := ss_line (second_after h ?a ns)\<rparr>"
    using assms(1) sz
    by (simp add: assembled_def second_after_def second_start_def Let_def malloc_block_def overlay_all
        length_code_image length_data_image)
  with second_loop_after [of "[]" ns ?a h, OF _ room] assms(1) show ?thesis
    by (auto simp: assemblerSecondPass_def second_start_after t split: if_splits)
qed

lemma first_pass_Undefined:
  assumes "accepted before" "first_node n (first_after (error_line ass) before) = Undefined"
  shows "assemblerFirstPass ass (before @ n # rest) = Undefined"
proof -
  have "first_loop before (first_after (error_line ass) []) = Done (ASM_OK, first_after (error_line ass) before)"
    using first_loop_after [of "[]" before] assms(1) by simp
  with assms(2) show ?thesis
    by (simp add: assemblerFirstPass_def first_start_after first_loop_append)
qed

section \<open>A program\<close>

text \<open>\<open>.text\<close>, \<open>s:\<close>, \<open>LD R0, 7\<close>, \<open>JMP s\<close>, \<open>.entry s\<close>, \<open>.data\<close>, \<open>.byte 5\<close>, \<open>.addr s\<close>\<close>

definition demo :: "IR_Node list" where
  "demo = [IR_DIR 1 DIR_TEXT OPERAND_NONE, IR_LABEL 2 [115],
     IR_INSTR 3 OP_LD (OPERAND_REG 0) (OPERAND_VALUE 7),
     IR_INSTR 4 OP_JMP (OPERAND_IDENT [115]) OPERAND_NONE, IR_DIR 5 DIR_ENTRY (OPERAND_IDENT [115]),
     IR_DIR 6 DIR_DATA OPERAND_NONE, IR_DIR 7 DIR_BYTE (OPERAND_VALUE 5),
     IR_DIR 8 DIR_ADDR (OPERAND_IDENT [115])]"

lemma supported_demo: "supported OP_LD MODE_IMM" "supported OP_JMP MODE_IMM"
  by (simp_all add: supported_def get_handler_def dispatchLD_def dispatchJMP_def)

lemma node_mode_demo:
  "node_mode OP_LD (OPERAND_REG 0) (OPERAND_VALUE 7) = MODE_IMM"
  "node_mode OP_JMP (OPERAND_IDENT [115]) OPERAND_NONE = MODE_IMM"
  by (simp_all add: node_mode_def getModeFromOperands_def getArgsCount_def)

lemma accepted_demo: "accepted demo"
  by (simp add: demo_def node_mode_demo supported_demo section_of_def getModeFromOperands_def getArgsCount_def)

lemma symbols_demo: "symbols demo = [\<lparr>sym_string = [115], sym_addr = 0\<rparr>]"
  by (simp add: demo_def address_of_def section_of_def)

lemma totals_demo: "text_total demo = 22" "data_total demo = 9"
  by (simp_all add: demo_def node_mode_demo)

lemma refs_demo: "\<forall>n \<in> set demo. refs_ok (table_of (symbols demo)) n"
  unfolding symbols_demo
  by (simp add: demo_def getSymbolAddr_def table_of_def last_operand_def getArgsCount_def)

definition blank_assembler :: Assembler where
  "blank_assembler = \<lparr>symtable = table_of [], bin = \<lparr>headers = blank_header, bytecode = [], data = []\<rparr>,
     error_line = 0\<rparr>"

definition blank_host :: host where
  "blank_host = \<lparr>code_junk = (\<lambda>_. 170), data_junk = (\<lambda>_. 170), union_word = (\<lambda>_. 0)\<rparr>"

lemma second_pass_done:
  assumes "assemblerFirstPass ass ns = Done (ASM_OK, ass1)"
    and "text_total ns < 2 ^ 64" "data_total ns < 2 ^ 64"
    and "\<forall>n \<in> set ns. refs_ok (symtable ass1) n"
  shows "\<exists>ass2. assemblerSecondPass h ass1 ns = Done (ASM_OK, ass2) \<and>
    bytecode (bin ass2) = bytecode.image (instructions (symtable ass1) ns) \<and>
    data (bin ass2) = data_image h (symtable ass1) ns \<and>
    magic_number (headers (bin ass2)) = MAGIC_NUMBER \<and>
    unat (code_size (headers (bin ass2))) = length (bytecode (bin ass2)) \<and>
    unat (data_size (headers (bin ass2))) = length (data (bin ass2)) \<and>
    entry_point (headers (bin ass2)) = entry_of (symtable ass1) (entry_point (headers (bin ass))) ns"
proof -
  have acc: "accepted ns" and a: "ass1 = laid_out ass ns"
    using assms(1) by (simp_all add: assemblerFirstPass_iff)
  have t: "symtable ass1 = table_of (symbols ns)" by (simp add: a laid_out_def)
  have "assemblerSecondPass h ass1 ns = Done (ASM_OK, assembled h ass1 ns)"
    using assemblerSecondPass_laid_out [OF acc assms(2,3), of h ass] assms(4) by (simp add: t) (simp add: a)
  with assms(2,3) acc show ?thesis
    by (simp add: assembled_def Let_def length_code_image length_data_image)
      (simp add: a laid_out_def with_sizes_def unat_of_nat)
qed

text \<open>The binary of an accepted program, once written, is read back and loaded.\<close>

lemma binary_executes:
  assumes "accepted ns" "text_total ns \<le> 1023" "data_total ns < 256" "wf_vm vm"
    and "headers dst = blank_header" "1024 \<le> length (bytecode dst)" "256 \<le> length (data dst)"
    and b0: "bytecode b0 = bytecode.image (instructions t ns)" "data b0 = data_image h t ns"
      "magic_number (headers b0) = MAGIC_NUMBER" "unat (code_size (headers b0)) = length (bytecode b0)"
      "unat (data_size (headers b0)) = length (data b0)"
    and w: "writeBinaryFile True b0 = Done content"
  shows "\<exists>b vm'. readBinaryFile (Some content) dst = Done b \<and> loadProgram vm b 0 = Done (VM_OK, vm') \<and>
    wf_vm vm' \<and> pc vm' = entry_point (headers b0) \<and>
    take (data_total ns) (drop 1024 (memory vm')) = data_image h t ns \<and>
    executes (instructions t ns) vm' \<and> vm' = vm\<lparr>memory := memory vm', pc := pc vm'\<rparr>"
proof -
  have len: "length (bytecode b0) = text_total ns" "length (data b0) = data_total ns"
    using assms(1) by (simp_all add: b0(1,2) length_code_image length_data_image)
  obtain b where r: "readBinaryFile (Some content) dst = Done b" "headers b = headers b0"
    "take (text_total ns) (bytecode b) = bytecode b0" "take (data_total ns) (data b) = data b0"
    using read_back [OF w b0(3) _ _ assms(5)] b0(4,5) len assms(2,3,6,7) by auto
  have "length (take (data_total ns) (data b)) = data_total ns" using r(4) len by simp
  then have db: "data_total ns \<le> length (data b)" by simp
  have "length (take (text_total ns) (bytecode b)) = text_total ns" using r(3) len by simp
  then have cb: "text_total ns \<le> length (bytecode b)" by simp
  obtain vm' where load: "loadProgram vm b 0 = Done (VM_OK, vm')" "wf_vm vm'"
    "pc vm' = entry_point (headers b)" "executes (instructions t ns) vm'"
    "vm' = vm\<lparr>memory := loaded b (memory vm), pc := entry_point (headers b)\<rparr>"
    using load_executes [OF instructions_encodable [OF assms(1)] _ assms(4), of t b]
      b0(1,4,5) len r(2-4) assms(2,3) db by (auto simp: instructions_size)
  have "take (data_total ns) (drop 1024 (memory vm')) = take (data_total ns) (data b)"
    using loaded_data [OF assms(4), of b] b0(4,5) len r(2,3) assms(2,3) db cb by (simp add: load(5))
  moreover have "vm' = vm\<lparr>memory := memory vm', pc := pc vm'\<rparr>" by (simp add: load(5))
  ultimately show ?thesis using r(1,2,4) load(1-4) b0(2) by auto
qed

section \<open>Properties\<close>

text \<open>
  C16: the first pass succeeds exactly on the accepted programs: every node stands in the section
  it belongs to, operands fit the operation and its mode has a handler, labels are new and at
  most 16, there is one entry point, and an instruction with operands precedes those without. It
  then leaves the labels in the table and the sizes of the two sections in the header.
\<close>

theorem first_pass_accepts:
  "assemblerFirstPass ass ns = Done (ASM_OK, ass') \<longleftrightarrow> accepted ns \<and>
    ass' = ass\<lparr>symtable := table_of (symbols ns),
      error_line := (if ns = [] then error_line ass else node_line (last ns)),
      bin := with_sizes (of_nat (text_total ns)) (of_nat (data_total ns)) (bin ass)\<rparr>"
  using assemblerFirstPass_iff [of ass ns ass'] by (simp add: laid_out_def)

text \<open>
  C15: after the first pass a lookup finds exactly the labels of the program, each with the
  address of what follows it: the number of code bytes before it in a code section, in a data
  section \<open>DATA_BASE\<close> plus the number of data bytes before it.
\<close>

theorem label_addresses:
  assumes "assemblerFirstPass ass ns = Done (ASM_OK, ass')"
  shows "getSymbolAddr (symtable ass') s = Some a \<longleftrightarrow>
    (\<exists>k line. k < length ns \<and> ns ! k = IR_LABEL line s \<and>
      a = (if section_of (take k ns) = SECTION_DATA then DATA_BASE + of_nat (data_total (take k ns))
           else of_nat (text_total (take k ns))))"
proof -
  have acc: "accepted ns" and t: "symtable ass' = table_of (symbols ns)"
    using assms by (simp_all add: assemblerFirstPass_iff laid_out_def)
  have "map sym_string (symbols ns) = label_names ns" by (rule symbol_names)
  moreover from this have "length (symbols ns) \<le> 16"
    using accepted_labels [OF acc] by (metis length_map)
  ultimately have "getSymbolAddr (symtable ass') s = Some a \<longleftrightarrow>
      (\<exists>e \<in> set (symbols ns). sym_string e = s \<and> sym_addr e = a)"
    using accepted_labels [OF acc] by (simp add: t symtab.lookup_iff)
  also have "\<dots> \<longleftrightarrow> \<lparr>sym_string = s, sym_addr = a\<rparr> \<in> set (symbols ns)"
  proof -
    have "\<lparr>sym_string = sym_string e, sym_addr = sym_addr e\<rparr> = e" for e :: Symbol by (cases e) simp
    then show ?thesis by (metis Symbol.select_convs)
  qed
  also have "\<dots> \<longleftrightarrow> (\<exists>k < length ns. \<exists>line. ns ! k = IR_LABEL line s \<and> a = address_of (take k ns))"
    by (simp add: symbols_at)
  finally show ?thesis by (auto simp: address_of_def)
qed

theorem label_addresses_witness:
  "\<exists>ass'. assemblerFirstPass blank_assembler demo = Done (ASM_OK, ass') \<and>
    getSymbolAddr (symtable ass') [115] = Some 0"
proof -
  have f: "assemblerFirstPass blank_assembler demo = Done (ASM_OK, laid_out blank_assembler demo)"
    by (simp add: assemblerFirstPass_iff accepted_demo)
  have "1 < length demo \<and> demo ! 1 = IR_LABEL 2 [115] \<and> (0 :: u64) =
      (if section_of (take 1 demo) = SECTION_DATA then DATA_BASE + of_nat (data_total (take 1 demo))
       else of_nat (text_total (take 1 demo)))"
    by (simp add: demo_def section_of_def)
  with label_addresses [OF f, of "[115]" 0] f show ?thesis by blast
qed

text \<open>
  C14: after a successful first pass the second pass fails only on an undefined label. Otherwise
  it never leaves its buffers and fills them completely: the code is the concatenation of the
  encodings of the instructions with their labels resolved, the data that of the directives,
  and the sizes of the header are their lengths.
\<close>

theorem second_pass_image:
  assumes "assemblerFirstPass ass ns = Done (ASM_OK, ass1)"
    and "text_total ns < 2 ^ 64" "data_total ns < 2 ^ 64"
  shows "if \<forall>n \<in> set ns. refs_ok (symtable ass1) n
    then \<exists>ass2. assemblerSecondPass h ass1 ns = Done (ASM_OK, ass2) \<and>
      bytecode (bin ass2) = concat (map encoding (instructions (symtable ass1) ns)) \<and>
      data (bin ass2) = data_image h (symtable ass1) ns \<and>
      magic_number (headers (bin ass2)) = MAGIC_NUMBER \<and>
      unat (code_size (headers (bin ass2))) = length (bytecode (bin ass2)) \<and>
      unat (data_size (headers (bin ass2))) = length (data (bin ass2)) \<and>
      entry_point (headers (bin ass2)) = entry_of (symtable ass1) (entry_point (headers (bin ass))) ns
    else \<exists>ass2. assemblerSecondPass h ass1 ns = Done (ASM_LABEL_UNDEFINED, ass2)"
proof (cases "\<forall>n \<in> set ns. refs_ok (symtable ass1) n")
  case True
  from second_pass_done [OF assms this] True show ?thesis by (auto simp: bytecode.image_def)
next
  case False
  with assms(1) assemblerSecondPass_laid_out [of ns h ass, OF _ assms(2,3)] show ?thesis
    by (auto simp: assemblerFirstPass_iff laid_out_def split: if_splits)
qed

theorem second_pass_image_witness:
  "\<exists>ass1 ass2. assemblerFirstPass blank_assembler demo = Done (ASM_OK, ass1) \<and>
    assemblerSecondPass blank_host ass1 demo = Done (ASM_OK, ass2) \<and>
    bytecode (bin ass2) = [13, 1, 0, 7, 0, 0, 0, 0, 0, 0, 0, 22, 1, 0, 0, 0, 0, 0, 0, 0, 0, 0] \<and>
    data (bin ass2) = [5, 0, 0, 0, 0, 0, 0, 0, 0]"
proof -
  let ?a = "laid_out blank_assembler demo"
  have f: "assemblerFirstPass blank_assembler demo = Done (ASM_OK, ?a)"
    by (simp add: assemblerFirstPass_iff accepted_demo)
  have t: "symtable ?a = table_of [\<lparr>sym_string = [115], sym_addr = 0\<rparr>]"
    by (simp add: laid_out_def symbols_demo)
  have g: "getSymbolAddr (table_of [\<lparr>sym_string = [115], sym_addr = 0\<rparr>]) [115] = Some 0"
    by (simp add: getSymbolAddr_def table_of_def)
  have c: "concat (map encoding (instructions (symtable ?a) demo)) =
      [13, 1, 0, 7, 0, 0, 0, 0, 0, 0, 0, 22, 1, 0, 0, 0, 0, 0, 0, 0, 0, 0]"
    unfolding t by (simp add: demo_def node_instruction_def last_operand_def getArgsCount_def
        node_mode_demo g encoding_def codecB_def codecARGS_def bytes_le_def upt_rec)
  have d: "data_image h (symtable ?a) demo = [5, 0, 0, 0, 0, 0, 0, 0, 0]" for h
    unfolding t by (simp add: demo_def g bytes_le_def upt_rec)
  have "\<forall>n \<in> set demo. refs_ok (symtable ?a) n" using refs_demo by (simp add: t symbols_demo)
  with second_pass_image [OF f, of blank_host] f show ?thesis by (auto simp: totals_demo c d)
qed



text \<open>
  the symbol table does not grow. After sixteen labels the next new one asks \<open>realloc\<close> for
  32 bytes instead of 32 entries and is stored outside of the block.
\<close>

theorem seventeenth_label:
  assumes "accepted before" "length (label_names before) = 16"
    and "section_of before \<noteq> SECTION_UNDEF" "name \<notin> set (label_names before)"
  shows "assemblerFirstPass ass (before @ IR_LABEL line name # rest) = Undefined"
proof -
  have "map sym_string (symbols before) = label_names before" by (rule symbol_names)
  then have "length (symbols before) = 16" "set (map sym_string (symbols before)) = set (label_names before)"
    using assms(2) by (metis length_map, simp)
  then show ?thesis
    using assms symtab.member_iff [of "symbols before" name]
    by (intro first_pass_Undefined)
      (auto simp: first_label_def first_after_def addToSymbolTable_full)
qed

theorem seventeenth_label_witness:
  "assemblerFirstPass blank_assembler
    ((IR_DIR 1 DIR_TEXT OPERAND_NONE # map (\<lambda>k. IR_LABEL 2 [word_of_nat k]) [0..<16]) @ [IR_LABEL 3 [16]]) = Undefined"
  by (rule seventeenth_label) (simp_all add: section_of_def upt_rec)

text \<open>
  an operation without operands leaves the local variable \<open>status\<close> as it was, and the check
  that follows reads it: as the first instruction of a program it makes the assembler branch on
  an indeterminate value.
\<close>

theorem first_operation_without_operands:
  assumes "accepted before" "\<not> list_ex is_instr before" "section_of before = SECTION_TEXT"
    and "getArgsCount op = 0"
  shows "assemblerFirstPass ass (before @ IR_INSTR line op OPERAND_NONE OPERAND_NONE # rest) = Undefined"
  using assms
  by (intro first_pass_Undefined)
    (simp_all add: first_instr_def first_after_def status_after_def getModeFromOperands_def)

theorem first_operation_without_operands_witness:
  "assemblerFirstPass blank_assembler
    ([IR_DIR 1 DIR_TEXT OPERAND_NONE] @ [IR_INSTR 2 OP_HALT OPERAND_NONE OPERAND_NONE]) = Undefined"
  by (rule first_operation_without_operands) (simp_all add: section_of_def getArgsCount_def)

text \<open>
  the addressing mode is a function of the operands alone. An operation with one or two
  operands is accepted exactly when it has that many, the first of two is a register and none is
  a string; a lone register is REGU, and the mode of any other last operand is that of its form.
\<close>

theorem mode_from_operands:
  assumes "n = 1 \<or> n = 2"
  shows "getModeFromOperands a b n status =
    (let x = (if n = 1 then a else b) in
     if n = 1 \<and> b \<noteq> OPERAND_NONE then (MODE_NONE, Some ASM_TOO_MANY_ARGUMENTS)
     else if a = OPERAND_NONE \<or> x = OPERAND_NONE then (MODE_NONE, Some ASM_TOO_FEW_ARGUMENTS)
     else if n = 2 \<and> \<not> is_reg a \<or> is_string x then (MODE_NONE, Some ASM_WRONG_ARGUMENT_TYPE)
     else (if is_reg x then (if n = 1 then MODE_REGU else MODE_REG)
           else if is_ident x \<or> is_value x then MODE_IMM
           else case x of OPERAND_MEM_REG r \<Rightarrow> MODE_IND | OPERAND_MEM_IDX r off \<Rightarrow> MODE_IDX | _ \<Rightarrow> MODE_DIR,
           Some ASM_OK))"
  using assms by (cases a; cases b) (auto simp: getModeFromOperands_def Let_def)

theorem mode_from_operands_witness:
  "getModeFromOperands (OPERAND_REG 0) (OPERAND_MEM_IDX 1 8) 2 None = (MODE_IDX, Some ASM_OK)"
  using mode_from_operands [of 2 "OPERAND_REG 0" "OPERAND_MEM_IDX 1 8" None] by simp

end
