(* ===== verification/Lexer.thy ===== *)
theory Lexer
  imports Prelude
begin

text \<open>
  The lexer of \<^verbatim>\<open>src/toolchain/lexer.c\<close>. A \<open>char *\<close> into a buffer is the list of the bytes from
  there to the end of the buffer: the text up to its NUL and whatever the buffer holds behind
  it. Reading at the end of the buffer is \<open>Undefined\<close>. The character classes are those of the C
  locale. \<open>char\<close> is signed, so a \<open>char\<close> that holds 0xFF equals \<open>EOF\<close>; the host's \<open>malloc\<close> and
  \<open>realloc\<close> are assumed to succeed.
\<close>

unbundle bit_operations_syntax

abbreviation ch :: "char \<Rightarrow> u8" where
  "ch c \<equiv> of_char c"

section \<open>Data\<close>

text \<open>A token type with the member of the token's union that goes with it.\<close>

datatype TokenType =
    TOKEN_OPEN_BRACKET
  | TOKEN_CLOSE_BRACKET
  | TOKEN_COMMA
  | TOKEN_DOT
  | TOKEN_COLON
  | TOKEN_STRING "u8 list"
  | TOKEN_NUMBER u64
  | TOKEN_IDENT "u8 list"
  | TOKEN_REGISTER u64
  | TOKEN_MNEMONIC "u8 list"
  | TOKEN_PLUS
  | TOKEN_MINUS
  | TOKEN_NEWLINE
  | TOKEN_EOF

record Token =
  tok_type :: TokenType
  tok_line :: u64
  tok_column :: u64

datatype LexerError =
  LEXER_ERROR_MISSING_QUOTE | LEXER_INVALID_TOKEN | LEXER_UNKNOWN_ESCAPE_SEQUENCE | LEXER_OK

record Lexer =
  lx_cursor :: "u8 list"
  lx_line :: u64
  lx_column :: u64

type_synonym lexed = "(Token \<times> LexerError \<times> Lexer) outcome"

section \<open>Characters\<close>

definition isdigit :: "u8 \<Rightarrow> bool" where
  "isdigit c \<longleftrightarrow> ch CHR ''0'' \<le> c \<and> c \<le> ch CHR ''9''"

definition islower :: "u8 \<Rightarrow> bool" where
  "islower c \<longleftrightarrow> ch CHR ''a'' \<le> c \<and> c \<le> ch CHR ''z''"

definition isupper :: "u8 \<Rightarrow> bool" where
  "isupper c \<longleftrightarrow> ch CHR ''A'' \<le> c \<and> c \<le> ch CHR ''Z''"

definition isalnum :: "u8 \<Rightarrow> bool" where
  "isalnum c \<longleftrightarrow> isdigit c \<or> islower c \<or> isupper c"

lemmas char_classes = isdigit_def islower_def isupper_def isalnum_def

definition EOF :: u8 where "EOF = 0xFF"

definition escape_sequence :: "u8 \<Rightarrow> u8" where
  "escape_sequence c =
     (if c = ch CHR ''n'' then 10
      else if c = ch CHR ''t'' then 9
      else if c = ch CHR ''r'' then 13
      else if c = ch CHR 0x22 then 9
      else if c = ch CHR 0x5C then ch CHR 0x5C
      else if c = ch CHR ''0'' then 0
      else EOF)"

section \<open>Scanning loops\<close>

fun skip_blanks :: "u8 list \<Rightarrow> u64 \<Rightarrow> (u8 list \<times> u64) outcome" where
  "skip_blanks [] col = Undefined"
| "skip_blanks (c # s) col =
     (if c = ch CHR '' '' \<or> c = 9 then skip_blanks s (col + 1) else Done (c # s, col))"

fun skip_comment :: "u8 list \<Rightarrow> u64 \<Rightarrow> (u8 list \<times> u64) outcome" where
  "skip_comment [] col = Undefined"
| "skip_comment (c # s) col =
     (if c \<noteq> 10 \<and> c \<noteq> 0 then skip_comment s (col + 1) else Done (c # s, col))"

text \<open>
  The digits after \<open>R\<close>, with the value so far and its number of digits. The flag says that the
  check of the size has not failed.
\<close>

fun register_digits :: "u8 list \<Rightarrow> u64 \<Rightarrow> u64 \<Rightarrow> (bool \<times> u8 list \<times> u64 \<times> u64) outcome" where
  "register_digits [] reg len = Undefined"
| "register_digits (c # s) reg len =
     (if c \<noteq> 0 \<and> isdigit c then
        if int (unat reg) * 10 > 2 ^ 63 - 1 then Done (False, c # s, reg, len)
        else register_digits s (reg * 10 + ucast (c - ch CHR ''0'')) (len + 1)
      else Done (True, c # s, reg, len))"

text \<open>The digits of a number after the first; \<open>value\<close> is an \<open>int64_t\<close>.\<close>

fun number_digits :: "u8 list \<Rightarrow> u64 \<Rightarrow> u64 \<Rightarrow> (bool \<times> u8 list \<times> u64 \<times> u64) outcome" where
  "number_digits [] v len = Undefined"
| "number_digits (c # s) v len =
     (if c \<noteq> 0 \<and> isdigit c then
        if sint v * 10 > 2 ^ 63 - 1 then Done (False, c # s, v, len)
        else number_digits s (v * 10 + ucast (c - ch CHR ''0'')) (len + 1)
      else Done (True, c # s, v, len))"

text \<open>
  The characters of a string: the flag says that no unknown escape sequence was met. The cursor
  stops behind the last character, or at the character of the unknown escape.
\<close>

fun string_chars :: "u8 list \<Rightarrow> u8 list \<Rightarrow> u64 \<Rightarrow> (bool \<times> u8 list \<times> u8 list \<times> u64) outcome" where
  "string_chars [] str col = Undefined"
| "string_chars (c # s) str col =
     (if c \<noteq> 0 \<and> c \<noteq> ch CHR 0x22 then
        if c = ch CHR 0x5C then
          (case s of
             [] \<Rightarrow> Undefined
           | e # s' \<Rightarrow>
               if escape_sequence e = EOF then Done (False, e # s', str, col + 1)
               else string_chars s' (str @ [escape_sequence e]) (col + 1))
        else string_chars s (str @ [c]) col
      else Done (True, c # s, str, col))"

text \<open>The run of characters of a class, with its length.\<close>

fun span_class :: "(u8 \<Rightarrow> bool) \<Rightarrow> u8 list \<Rightarrow> (u8 list \<times> u8 list) outcome" where
  "span_class P [] = Undefined"
| "span_class P (c # s) =
     (if c \<noteq> 0 \<and> P c then obind (span_class P s) (\<lambda>(w, s). Done (c # w, s)) else Done ([], c # s))"

section \<open>Tokens\<close>

definition token :: "TokenType \<Rightarrow> Lexer \<Rightarrow> u64 \<Rightarrow> Token" where
  "token t lx col = \<lparr>tok_type = t, tok_line = lx_line lx, tok_column = col\<rparr>"

definition punctuation :: "u8 \<Rightarrow> TokenType option" where
  "punctuation c =
     (if c = ch CHR ''.'' then Some TOKEN_DOT
      else if c = ch CHR '','' then Some TOKEN_COMMA
      else if c = ch CHR ''['' then Some TOKEN_OPEN_BRACKET
      else if c = ch CHR '']'' then Some TOKEN_CLOSE_BRACKET
      else if c = ch CHR '':'' then Some TOKEN_COLON
      else if c = ch CHR ''+'' then Some TOKEN_PLUS
      else if c = ch CHR ''-'' then Some TOKEN_MINUS
      else if c = 10 then Some TOKEN_NEWLINE
      else if c = 0 then Some TOKEN_EOF
      else None)"

text \<open>The cursor stands behind the two slashes; their columns are not counted.\<close>

definition lex_comment :: "Lexer \<Rightarrow> lexed" where
  "lex_comment lx =
     obind (skip_comment (lx_cursor lx) (lx_column lx)) (\<lambda>(s, col).
       let lx = lx\<lparr>lx_cursor := s, lx_column := col\<rparr>
       in Done (token (if hd s = 10 then TOKEN_NEWLINE else TOKEN_EOF) lx col, LEXER_OK, lx))"

definition lex_number :: "u8 \<Rightarrow> Lexer \<Rightarrow> lexed" where
  "lex_number c lx =
     obind (number_digits (lx_cursor lx) (ucast (c - ch CHR ''0'')) 0) (\<lambda>(ok, s, v, len).
       if ok then Done (token (TOKEN_NUMBER v) lx (lx_column lx), LEXER_OK,
         lx\<lparr>lx_cursor := s, lx_column := lx_column lx + (len + 1)\<rparr>)
       else let lx = lx\<lparr>lx_cursor := s, lx_column := lx_column lx + (len + 2)\<rparr>
         in Done (token (TOKEN_NUMBER 0) lx (lx_column lx), LEXER_INVALID_TOKEN, lx))"

text \<open>The token of a string that fails carries no text.\<close>

definition lex_string :: "Lexer \<Rightarrow> lexed" where
  "lex_string lx =
     obind (string_chars (lx_cursor lx) [] (lx_column lx)) (\<lambda>(ok, s, str, col).
       let lx = lx\<lparr>lx_cursor := s, lx_column := col\<rparr>; len = word_of_nat (length str)
       in if \<not> ok then Done (token (TOKEN_STRING []) lx 0, LEXER_UNKNOWN_ESCAPE_SEQUENCE, lx)
       else if hd s \<noteq> ch CHR 0x22 then
         let lx = lx\<lparr>lx_column := col + len\<rparr>
         in Done (token (TOKEN_STRING []) lx (lx_column lx), LEXER_ERROR_MISSING_QUOTE, lx)
       else Done (token (TOKEN_STRING str) lx col, LEXER_OK,
         lx\<lparr>lx_cursor := tl s, lx_column := col + (len + 2)\<rparr>))"

definition lex_word :: "(u8 \<Rightarrow> bool) \<Rightarrow> (u8 list \<Rightarrow> TokenType) \<Rightarrow> u8 \<Rightarrow> Lexer \<Rightarrow> lexed" where
  "lex_word P mk c lx =
     obind (span_class P (lx_cursor lx)) (\<lambda>(w, s).
       Done (token (mk (c # w)) lx (lx_column lx), LEXER_OK,
         lx\<lparr>lx_cursor := s, lx_column := lx_column lx + word_of_nat (length (c # w))\<rparr>))"

text \<open>What the code tries when the character is no register: \<open>c\<close>, with the cursor behind it.\<close>

definition lex_rest :: "u8 \<Rightarrow> Lexer \<Rightarrow> lexed" where
  "lex_rest c lx =
     (if isdigit c then lex_number c lx
      else if c = ch CHR 0x22 then lex_string lx
      else if islower c then lex_word (\<lambda>c. isalnum c \<or> c = ch CHR ''_'') TOKEN_IDENT c lx
      else if isupper c then lex_word isupper TOKEN_MNEMONIC c lx
      else Done (token TOKEN_EOF lx (lx_column lx), LEXER_INVALID_TOKEN,
             lx\<lparr>lx_cursor := c # lx_cursor lx\<rparr>))"

text \<open>An \<open>R\<close> without digits is looked at again as the start of a mnemonic.\<close>

definition lex_register :: "Lexer \<Rightarrow> lexed" where
  "lex_register lx =
     obind (register_digits (lx_cursor lx) 0 0) (\<lambda>(ok, s, reg, len).
       if \<not> ok then
         let lx = lx\<lparr>lx_cursor := s, lx_column := lx_column lx + (len + 2)\<rparr>
         in Done (token (TOKEN_REGISTER 0) lx (lx_column lx), LEXER_INVALID_TOKEN, lx)
       else if len > 0 then
         Done (token (TOKEN_REGISTER reg) lx (lx_column lx), LEXER_OK,
           lx\<lparr>lx_cursor := s, lx_column := lx_column lx + (len + 1)\<rparr>)
       else lex_rest (ch CHR ''R'') lx)"

text \<open>The scan from the first character that is no blank, with the cursor behind it.\<close>

definition lex_at :: "u8 \<Rightarrow> Lexer \<Rightarrow> lexed" where
  "lex_at c lx =
     (case punctuation c of
        Some t \<Rightarrow> Done (token t lx (lx_column lx), LEXER_OK, lx\<lparr>lx_column := lx_column lx + 1\<rparr>)
      | None \<Rightarrow>
          if c = ch CHR ''/'' then
            (case lx_cursor lx of
               [] \<Rightarrow> Undefined
             | d # s \<Rightarrow> if d = ch CHR ''/'' then lex_comment (lx\<lparr>lx_cursor := s\<rparr>) else lex_rest c lx)
          else if c = ch CHR ''R'' then lex_register lx
          else lex_rest c lx)"

definition lexer_next_token :: "Lexer \<Rightarrow> lexed" where
  "lexer_next_token lx =
     obind (skip_blanks (lx_cursor lx) (lx_column lx)) (\<lambda>(s, col).
       lex_at (hd s) (lx\<lparr>lx_cursor := tl s, lx_column := col\<rparr>))"

end
