(* ===== verification/Parser.thy ===== *)
theory Parser
  imports Lexer IR
begin

text \<open>
  The parser of \<^verbatim>\<open>src/toolchain/parser.c\<close>: one line of source becomes one node of the intermediate
  representation. A parsing function returns the error it reports (\<open>Inl\<close>) or what it has parsed
  (\<open>Inr\<close>), with the last token read and the lexer. On an error the code leaves a half-written node,
  but its callers end the process then. Strings are lists of bytes as in \<open>IR\<close>; the host's
  \<open>malloc\<close> and \<open>fclose\<close> are assumed to succeed.
\<close>

unbundle bit_operations_syntax

section \<open>Data\<close>

datatype ParserError =
    PARSER_INVALID_ARGS
  | PARSER_INVALID_REGISTER
  | PARSER_UNKNOWN_DIR
  | PARSER_UNKNOWN_OP
  | PARSER_UNKNOWN_INSTR
  | PARSER_SYNTAX_ERROR
  | PARSER_TOO_MANY_OPE
  | PARSER_TOO_FEW_OPE
  | PARSER_EMPTY
  | PARSER_OK

abbreviation bytes_of :: "string \<Rightarrow> u8 list" where
  "bytes_of s \<equiv> map of_char s"

section \<open>Names\<close>

definition op_map :: "(u8 list \<times> OP_CODE) list" where
  "op_map =
    [(bytes_of ''ADD'', OP_ADD), (bytes_of ''SUB'', OP_SUB), (bytes_of ''MUL'', OP_MUL),
     (bytes_of ''DIV'', OP_DIV), (bytes_of ''CMP'', OP_CMP), (bytes_of ''NEG'', OP_NEG),
     (bytes_of ''AND'', OP_AND), (bytes_of ''OR'', OP_OR), (bytes_of ''XOR'', OP_XOR),
     (bytes_of ''NOT'', OP_NOT), (bytes_of ''SHL'', OP_SHL), (bytes_of ''SHR'', OP_SHR),
     (bytes_of ''ST'', OP_ST), (bytes_of ''LD'', OP_LD), (bytes_of ''SWP'', OP_SWP),
     (bytes_of ''PUSH'', OP_PUSH), (bytes_of ''POP'', OP_POP), (bytes_of ''FAS'', OP_FAS),
     (bytes_of ''CALL'', OP_CALL), (bytes_of ''RTN'', OP_RTN), (bytes_of ''NOP'', OP_NOP),
     (bytes_of ''RST'', OP_RST), (bytes_of ''JMP'', OP_JMP), (bytes_of ''JEQ'', OP_JEQ),
     (bytes_of ''JNE'', OP_JNE), (bytes_of ''JLE'', OP_JLE), (bytes_of ''JLT'', OP_JLT),
     (bytes_of ''JGE'', OP_JGE), (bytes_of ''JGT'', OP_JGT), (bytes_of ''HALT'', OP_HALT),
     (bytes_of ''TRAP'', OP_TRAP)]"

definition dir_map :: "(u8 list \<times> DirType) list" where
  "dir_map =
    [(bytes_of ''string'', DIR_STRING), (bytes_of ''addr'', DIR_ADDR), (bytes_of ''entry'', DIR_ENTRY),
     (bytes_of ''word'', DIR_WORD), (bytes_of ''byte'', DIR_BYTE), (bytes_of ''text'', DIR_TEXT),
     (bytes_of ''data'', DIR_DATA)]"

definition getDirStr :: "DirType \<Rightarrow> u8 list option" where
  "getDirStr dir = map_option fst (List.find (\<lambda>(m, d). dir = d) dir_map)"

definition getOpStr :: "OP_CODE \<Rightarrow> u8 list option" where
  "getOpStr op = map_option fst (List.find (\<lambda>(m, d). op = d) op_map)"

text \<open>
  \<open>!strncmp(m, str, len)\<close>, where \<open>str\<close> stands for the \<open>len\<close> bytes of a token, none of them NUL: the
  name \<open>m\<close> starts with the token.
\<close>

definition strncmp_equal :: "u8 list \<Rightarrow> u8 list \<Rightarrow> bool" where
  "strncmp_equal m str \<longleftrightarrow> take (length str) m = str"

definition op_lookup :: "u8 list \<Rightarrow> OP_CODE" where
  "op_lookup str =
     (case List.find (\<lambda>(m, op). strncmp_equal m str) op_map of Some (m, op) \<Rightarrow> op | None \<Rightarrow> OP_COUNT)"

definition dir_lookup :: "u8 list \<Rightarrow> DirType" where
  "dir_lookup str =
     (case List.find (\<lambda>(m, d). strncmp_equal m str) dir_map of Some (m, d) \<Rightarrow> d | None \<Rightarrow> DIR_COUNT)"

section \<open>Tokens\<close>

fun isSyntaxElement :: "TokenType \<Rightarrow> bool" where
  "isSyntaxElement TOKEN_COMMA = True"
| "isSyntaxElement TOKEN_DOT = True"
| "isSyntaxElement TOKEN_OPEN_BRACKET = True"
| "isSyntaxElement TOKEN_CLOSE_BRACKET = True"
| "isSyntaxElement TOKEN_COLON = True"
| "isSyntaxElement _ = False"

definition isEndOfInstr :: "TokenType \<Rightarrow> bool" where
  "isEndOfInstr t \<longleftrightarrow> t = TOKEN_EOF \<or> t = TOKEN_NEWLINE"

text \<open>\<open>lexer_next_token\<close> followed by \<open>CHK_LEXER_STATUS\<close>, and without the check.\<close>

definition next_token :: "Lexer \<Rightarrow> (Token \<Rightarrow> Lexer \<Rightarrow> 'a outcome) \<Rightarrow> 'a outcome" where
  "next_token lx k = obind (lexer_next_token lx) (\<lambda>(tok, st, lx).
     if st \<noteq> LEXER_OK then Exit_failure else k tok lx)"

definition next_unchecked :: "Lexer \<Rightarrow> (Token \<Rightarrow> Lexer \<Rightarrow> 'a outcome) \<Rightarrow> 'a outcome" where
  "next_unchecked lx k = obind (lexer_next_token lx) (\<lambda>(tok, st, lx). k tok lx)"

type_synonym 'a parsed = "((ParserError + 'a) \<times> Token \<times> Lexer) outcome"

text \<open>The check at the end of a line: nothing may follow.\<close>

definition at_end :: "'a \<Rightarrow> Token \<Rightarrow> Lexer \<Rightarrow> 'a parsed" where
  "at_end x tok lx =
     (if \<not> isEndOfInstr (tok_type tok) \<and> isSyntaxElement (tok_type tok) then Done (Inl PARSER_SYNTAX_ERROR, tok, lx)
      else if \<not> isEndOfInstr (tok_type tok) then Done (Inl PARSER_TOO_MANY_OPE, tok, lx)
      else Done (Inr x, tok, lx))"

section \<open>Directives and labels\<close>

definition parse_dir_arg :: "DirType \<Rightarrow> Token \<Rightarrow> Lexer \<Rightarrow> (DirType \<times> Operand) parsed" where
  "parse_dir_arg d tok lx =
     (case tok_type tok of
        TOKEN_NUMBER v \<Rightarrow> next_token lx (at_end (d, OPERAND_VALUE v))
      | TOKEN_MINUS \<Rightarrow> next_token lx (\<lambda>tok lx.
          case tok_type tok of
            TOKEN_NUMBER v \<Rightarrow> next_token lx (at_end (d, OPERAND_VALUE (- v)))
          | _ \<Rightarrow> Done (Inl PARSER_SYNTAX_ERROR, tok, lx))
      | TOKEN_IDENT w \<Rightarrow> next_token lx (at_end (d, OPERAND_IDENT w))
      | TOKEN_STRING str \<Rightarrow> next_token lx (at_end (d, OPERAND_STRING (str @ [0])))
      | _ \<Rightarrow>
          if isEndOfInstr (tok_type tok) then Done (Inr (d, OPERAND_NONE), tok, lx)
          else if isSyntaxElement (tok_type tok) then Done (Inl PARSER_SYNTAX_ERROR, tok, lx)
          else Done (Inl PARSER_INVALID_ARGS, tok, lx))"

definition parse_dir :: "Lexer \<Rightarrow> (DirType \<times> Operand) parsed" where
  "parse_dir lx = next_token lx (\<lambda>tok lx.
     case tok_type tok of
       TOKEN_IDENT w \<Rightarrow>
         let d = dir_lookup w
         in if d = DIR_COUNT then Done (Inl PARSER_UNKNOWN_DIR, tok, lx)
         else next_token lx (parse_dir_arg d)
     | _ \<Rightarrow> Done (Inl PARSER_SYNTAX_ERROR, tok, lx))"

definition parse_label :: "u8 list \<Rightarrow> Lexer \<Rightarrow> u8 list parsed" where
  "parse_label name lx = next_token lx (\<lambda>tok lx.
     if tok_type tok \<noteq> TOKEN_COLON then
       if isEndOfInstr (tok_type tok) then Done (Inl PARSER_SYNTAX_ERROR, tok, lx)
       else Done (Inl PARSER_TOO_MANY_OPE, tok, lx)
     else next_token lx (at_end name))"

section \<open>Operands\<close>

text \<open>
  The assignment \<open>ope->mem.offset = off\<close> on an operand: only the two indexed forms have the field,
  in the others no member in use overlaps it.
\<close>

fun set_offset :: "u64 \<Rightarrow> Operand \<Rightarrow> Operand" where
  "set_offset off (OPERAND_MEM_IDX r old) = OPERAND_MEM_IDX r off"
| "set_offset off (OPERAND_MEM_IDX_IDENT w old) = OPERAND_MEM_IDX_IDENT w off"
| "set_offset off ope = ope"

text \<open>The number and the closing bracket after \<open>[r +\<close>; the lexer's status is not looked at.\<close>

definition parse_offset :: "bool \<Rightarrow> Operand \<Rightarrow> Lexer \<Rightarrow> Operand parsed" where
  "parse_offset neg ope lx = next_unchecked lx (\<lambda>tok lx.
     case tok_type tok of
       TOKEN_NUMBER v \<Rightarrow> next_unchecked lx (\<lambda>tok lx.
         if tok_type tok \<noteq> TOKEN_CLOSE_BRACKET then Done (Inl PARSER_SYNTAX_ERROR, tok, lx)
         else Done (Inr (set_offset (if neg then - v else v) ope), tok, lx))
     | _ \<Rightarrow> Done (Inl PARSER_SYNTAX_ERROR, tok, lx))"

text \<open>
  What follows an open bracket: the next two tokens \<open>tok\<close> and \<open>suiv\<close>. The union of a \<open>TOKEN_MINUS\<close> holds
  the number 0. A first token that is neither number, identifier nor register leaves the operand
  \<open>old\<close> as it was found.
\<close>

definition parse_bracket :: "Operand \<Rightarrow> Token \<Rightarrow> Token \<Rightarrow> Lexer \<Rightarrow> Operand parsed" where
  "parse_bracket old tok suiv lx =
     (let sign = tok_type suiv = TOKEN_MINUS \<or> tok_type suiv = TOKEN_PLUS;
          neg = (tok_type suiv = TOKEN_MINUS);
          syntax_error = Done (Inl PARSER_SYNTAX_ERROR, suiv, lx)
      in if isEndOfInstr (tok_type tok) \<or> isSyntaxElement (tok_type tok) \<or> isEndOfInstr (tok_type suiv)
      then Done (Inl PARSER_SYNTAX_ERROR, tok, lx)
      else case tok_type tok of
          TOKEN_MINUS \<Rightarrow>
            (case tok_type suiv of
               TOKEN_NUMBER v \<Rightarrow>
                 if tok_type suiv \<noteq> TOKEN_CLOSE_BRACKET then syntax_error
                 else Done (Inr (OPERAND_MEM_VALUE (- 0)), tok, lx)
             | _ \<Rightarrow> syntax_error)
        | TOKEN_NUMBER v \<Rightarrow>
            if tok_type suiv \<noteq> TOKEN_CLOSE_BRACKET then syntax_error
            else Done (Inr (OPERAND_MEM_VALUE v), tok, lx)
        | TOKEN_IDENT w \<Rightarrow>
            if sign then parse_offset neg (OPERAND_MEM_IDX_IDENT w 0) lx
            else if tok_type suiv \<noteq> TOKEN_CLOSE_BRACKET then syntax_error
            else next_token lx (at_end (OPERAND_MEM_IDENT w))
        | TOKEN_REGISTER r \<Rightarrow>
            if sign then parse_offset neg (OPERAND_MEM_IDX (ucast r) 0) lx
            else if tok_type suiv \<noteq> TOKEN_CLOSE_BRACKET then syntax_error
            else Done (Inr (OPERAND_MEM_REG (ucast r)), suiv, lx)
        | _ \<Rightarrow> parse_offset False old lx)"

definition parse_instrOPE :: "Operand \<Rightarrow> Token \<Rightarrow> Lexer \<Rightarrow> Operand parsed" where
  "parse_instrOPE old tok lx =
     (case tok_type tok of
        TOKEN_IDENT w \<Rightarrow> Done (Inr (OPERAND_IDENT w), tok, lx)
      | TOKEN_MINUS \<Rightarrow> next_token lx (\<lambda>tok lx.
          case tok_type tok of
            TOKEN_NUMBER v \<Rightarrow> Done (Inr (OPERAND_VALUE (- v)), tok, lx)
          | _ \<Rightarrow> Done (Inl PARSER_SYNTAX_ERROR, tok, lx))
      | TOKEN_NUMBER v \<Rightarrow> Done (Inr (OPERAND_VALUE v), tok, lx)
      | TOKEN_REGISTER r \<Rightarrow>
          if r > 255 then Done (Inl PARSER_INVALID_REGISTER, tok, lx)
          else Done (Inr (OPERAND_REG (ucast r)), tok, lx)
      | TOKEN_OPEN_BRACKET \<Rightarrow> next_token lx (\<lambda>tok lx. next_token lx (\<lambda>suiv lx. parse_bracket old tok suiv lx))
      | _ \<Rightarrow> Done (Inl PARSER_INVALID_ARGS, tok, lx))"

section \<open>Instructions\<close>

text \<open>\<open>CHK_PARSER_STATUS\<close>: an error ends the process.\<close>

definition chk_parser :: "'a parsed \<Rightarrow> ('a \<Rightarrow> Token \<Rightarrow> Lexer \<Rightarrow> 'b outcome) \<Rightarrow> 'b outcome" where
  "chk_parser p k = obind p (\<lambda>(r, tok, lx). case r of Inl e \<Rightarrow> Exit_failure | Inr x \<Rightarrow> k x tok lx)"

text \<open>The two old operands are what the node holds before.\<close>

definition parse_instr :: "u8 list \<Rightarrow> Operand \<Rightarrow> Operand \<Rightarrow> Token \<Rightarrow> Lexer \<Rightarrow> (OP_CODE \<times> Operand \<times> Operand) parsed" where
  "parse_instr w old_a old_b tok lx =
     (let op = op_lookup w
      in if op = OP_COUNT then Done (Inl PARSER_UNKNOWN_INSTR, tok, lx)
      else next_token lx (\<lambda>tok lx.
        if isEndOfInstr (tok_type tok) then Done (Inr (op, OPERAND_NONE, OPERAND_NONE), tok, lx)
        else chk_parser (parse_instrOPE old_a tok lx) (\<lambda>a tok lx.
          next_token lx (\<lambda>tok lx.
            if \<not> isEndOfInstr (tok_type tok) \<and> tok_type tok \<noteq> TOKEN_COMMA then
              if isSyntaxElement (tok_type tok) then Done (Inl PARSER_SYNTAX_ERROR, tok, lx)
              else Done (Inl PARSER_TOO_MANY_OPE, tok, lx)
            else if isEndOfInstr (tok_type tok) then Done (Inr (op, a, OPERAND_NONE), tok, lx)
            else next_token lx (\<lambda>tok lx.
              chk_parser (parse_instrOPE old_b tok lx) (\<lambda>b tok lx.
                next_token lx (at_end (op, a, b))))))))"

section \<open>Lines\<close>

text \<open>
  An element of the array of nodes before it is written: the node its bytes make, and the two
  operands they make where an instruction has its operands.
\<close>

record slot =
  slot_node :: IR_Node
  slot_a :: Operand
  slot_b :: Operand

text \<open>A zeroed element.\<close>

definition zero_slot :: slot where
  "zero_slot = \<lparr>slot_node = IR_INSTR 0 OP_ADD OPERAND_NONE OPERAND_NONE,
     slot_a = OPERAND_NONE, slot_b = OPERAND_NONE\<rparr>"

text \<open>
  The status and the node afterwards. Only errors of the first token are returned: the element
  then keeps what it held.
\<close>

definition parse_line :: "slot \<Rightarrow> Lexer \<Rightarrow> (ParserError \<times> IR_Node \<times> Lexer) outcome" where
  "parse_line old lx = next_token lx (\<lambda>tok lx.
     if isEndOfInstr (tok_type tok) then Done (PARSER_EMPTY, slot_node old, lx)
     else if tok_type tok \<noteq> TOKEN_DOT \<and> isSyntaxElement (tok_type tok) then
       Done (PARSER_SYNTAX_ERROR, slot_node old, lx)
     else case tok_type tok of
         TOKEN_DOT \<Rightarrow> chk_parser (parse_dir lx) (\<lambda>(d, v) tok lx.
           Done (PARSER_OK, IR_DIR (tok_line tok + 1) d v, lx))
       | TOKEN_IDENT w \<Rightarrow> chk_parser (parse_label w lx) (\<lambda>name tok lx.
           Done (PARSER_OK, IR_LABEL (tok_line tok + 1) name, lx))
       | TOKEN_MNEMONIC w \<Rightarrow> chk_parser (parse_instr w (slot_a old) (slot_b old) tok lx) (\<lambda>(op, a, b) tok lx.
           Done (PARSER_OK, IR_INSTR (tok_line tok + 1) op a b, lx))
       | _ \<Rightarrow> Done (PARSER_UNKNOWN_INSTR, slot_node old, lx))"

section \<open>Files\<close>

definition INSTR_LEN :: nat where "INSTR_LEN = 255"

text \<open>
  \<open>fgets(str, INSTR_LEN, file)\<close> on the rest of a file and the buffer: at most 254 bytes, up to the end
  of a line, with a NUL behind them; the buffer keeps its other bytes.
\<close>

definition line_length :: "u8 list \<Rightarrow> nat" where
  "line_length content = min (INSTR_LEN - 1) (length (takeWhile (\<lambda>c. c \<noteq> 10) content) +
     (if 10 \<in> set content then 1 else 0))"

definition fgets :: "u8 list \<Rightarrow> u8 list \<Rightarrow> (u8 list \<times> u8 list) option" where
  "fgets content str =
     (if content = [] then None
      else let n = line_length content
      in Some (take n content @ [0] @ drop (n + 1) str, drop n content))"

lemma fgets_shorter [termination_simp]: "fgets content str = Some (str', content') \<Longrightarrow> length content' < length content"
  by (cases content) (auto simp: fgets_def line_length_def INSTR_LEN_def Let_def split: if_splits)

text \<open>
  The loop of \<open>parser\<close>: \<open>junk i\<close> is what the i-th element held when it was allocated, \<open>cur\<close> the element
  the next node goes to, \<open>nodes\<close> those before it. When the 128 elements are used up, the code
  passes \<open>2 * prog_size\<close>, a number of elements, to \<open>realloc\<close> as the number of bytes, and drops the
  pointer it returns. The next thing it does is to form \<open>&IRList[i]\<close> from the pointer that was
  passed, which is no longer valid: undefined before the line is parsed.
\<close>

definition NODES :: nat where "NODES = 128"

function parse_loop :: "(nat \<Rightarrow> slot) \<Rightarrow> u8 list \<Rightarrow> u8 list \<Rightarrow> u64 \<Rightarrow> IR_Node list \<Rightarrow> slot \<Rightarrow> IR_Node list outcome" where
  "parse_loop junk content str line nodes cur =
     (case fgets content str of
        None \<Rightarrow> Done nodes
      | Some (str, content) \<Rightarrow>
          if length nodes = NODES then Undefined
          else (case parse_line cur \<lparr>lx_cursor = str, lx_line = line, lx_column = 0\<rparr> of
              Done (status, node, lx) \<Rightarrow>
                if status \<noteq> PARSER_EMPTY
                then parse_loop junk content str (line + 1) (nodes @ [node]) (junk (length nodes + 1))
                else parse_loop junk content str (line + 1) nodes zero_slot
            | Exit_failure \<Rightarrow> Exit_failure
            | Undefined \<Rightarrow> Undefined))"
  by pat_completeness auto

termination
  by (relation "measure (\<lambda>(junk, content, str, line, nodes, cur). length content)")
    (auto dest: fgets_shorter)

declare parse_loop.simps [simp del]

definition parser :: "(nat \<Rightarrow> slot) \<Rightarrow> u8 list option \<Rightarrow> IR_Node list outcome" where
  "parser junk file =
     (case file of
        None \<Rightarrow> Exit_failure
      | Some content \<Rightarrow> parse_loop junk content (replicate (INSTR_LEN + 1) 0) 0 [] (junk 0))"

end
