(* ===== verification/Tokens.thy ===== *)
theory Tokens
  imports Lexer "HOL-Library.Sublist"
begin

text \<open>
  What the lexer promises: it stays inside the text it is given, and a token that is written out
  and followed by a separator is read back.
\<close>

unbundle bit_operations_syntax

section \<open>The scanning loops\<close>

definition blank :: "u8 \<Rightarrow> bool" where
  "blank c \<longleftrightarrow> c = ch CHR '' '' \<or> c = 9"

lemma skip_blanks_Done:
  "0 \<in> set s \<Longrightarrow> skip_blanks s col =
    Done (dropWhile blank s, col + word_of_nat (length (takeWhile blank s)))"
  by (induction s arbitrary: col) (auto simp: blank_def)

lemma skip_comment_Done:
  "0 \<in> set s \<Longrightarrow> skip_comment s col =
    Done (dropWhile (\<lambda>c. c \<noteq> 10 \<and> c \<noteq> 0) s, col + word_of_nat (length (takeWhile (\<lambda>c. c \<noteq> 10 \<and> c \<noteq> 0) s)))"
  by (induction s arbitrary: col) auto

lemma span_class_Done:
  "0 \<in> set s \<Longrightarrow> span_class P s =
    Done (takeWhile (\<lambda>c. c \<noteq> 0 \<and> P c) s, dropWhile (\<lambda>c. c \<noteq> 0 \<and> P c) s)"
  by (induction s) auto

text \<open>A position in the text that is followed by a NUL.\<close>

definition within :: "u8 list \<Rightarrow> u8 list \<Rightarrow> bool" where
  "within s s' \<longleftrightarrow> suffix s' s \<and> 0 \<in> set s'"

lemma within_refl: "0 \<in> set s \<Longrightarrow> within s s"
  by (simp add: within_def)

lemma within_Cons: "within s s' \<Longrightarrow> within (c # s) s'"
  by (simp add: within_def suffix_Cons)

lemma within_trans: "within s s' \<Longrightarrow> within s' s'' \<Longrightarrow> within s s''"
  by (auto simp: within_def)

lemma within_dropWhile: "0 \<in> set s \<Longrightarrow> \<not> P 0 \<Longrightarrow> within s (dropWhile P s)"
  by (induction s) (auto simp: within_refl intro: within_Cons)

lemma register_digits_stops:
  "0 \<in> set s \<Longrightarrow> returns (\<lambda>(ok, s', v, n). within s s') (register_digits s reg len)"
proof (induction s reg len rule: register_digits.induct)
  case (2 c s reg len)
  then show ?case by (auto simp: within_refl elim!: returns_mono intro: within_Cons)
qed simp

lemma number_digits_stops:
  "0 \<in> set s \<Longrightarrow> returns (\<lambda>(ok, s', v, n). within s s') (number_digits s v0 len)"
proof (induction s v0 len rule: number_digits.induct)
  case (2 c s v len)
  then show ?case by (auto simp: within_refl elim!: returns_mono intro: within_Cons)
qed simp

lemma string_chars_stops:
  "0 \<in> set s \<Longrightarrow> returns (\<lambda>(ok, s', str', col'). within s s' \<and> (ok \<longrightarrow> hd s' = 0 \<or> hd s' = ch CHR 0x22))
    (string_chars s str col)"
proof (induction s str col rule: string_chars.induct)
  case (2 c s str col)
  show ?case
  proof (cases "c \<noteq> 0 \<and> c \<noteq> ch CHR 0x22")
    case nq: True
    show ?thesis
    proof (cases "c = ch CHR 0x5C")
      case True
      with 2 nq show ?thesis
        by (cases s)
          (auto simp: escape_sequence_def EOF_def within_refl elim!: returns_mono
            intro: within_Cons within_Cons [OF within_Cons])
    next
      case False
      with 2 nq show ?thesis by (auto elim!: returns_mono intro: within_Cons)
    qed
  next
    case False
    with 2 show ?thesis by (auto simp: within_refl)
  qed
qed simp

section \<open>Staying inside the text\<close>

text \<open>
  What a call leaves: a position within the text, unless the token is the end of the text, and a
  shorter text after every valid token.
\<close>

definition stays :: "u8 list \<Rightarrow> Token \<times> LexerError \<times> Lexer \<Rightarrow> bool" where
  "stays s r = (case r of (tok, st, lx) \<Rightarrow> suffix (lx_cursor lx) s \<and>
     (st = LEXER_OK \<longrightarrow> length (lx_cursor lx) < length s) \<and>
     (st = LEXER_OK \<longrightarrow> tok_type tok = TOKEN_EOF \<or> 0 \<in> set (lx_cursor lx)))"

lemma stays_Cons: "within s (lx_cursor lx) \<Longrightarrow> stays (c # s) (tok, st, lx)"
  by (auto simp: stays_def within_def suffix_Cons dest: suffix_length_le)

lemma stays_suffix: "stays s r \<Longrightarrow> suffix s s' \<Longrightarrow> stays s' r"
  by (auto simp: stays_def dest: suffix_length_le suffix_order.trans)

lemma lex_number_stays:
  "0 \<in> set (lx_cursor lx) \<Longrightarrow> returns (stays (c # lx_cursor lx)) (lex_number c lx)"
  unfolding lex_number_def
  by (rule returns_obind [OF number_digits_stops])
    (auto simp: Let_def intro!: stays_Cons split: prod.splits)

lemma within_tl: "within t s \<Longrightarrow> hd s = 34 \<Longrightarrow> within t (tl s)"
  by (cases s) (auto simp: within_def dest: suffix_ConsD)

lemma lex_string_stays:
  "0 \<in> set (lx_cursor lx) \<Longrightarrow> returns (stays (c # lx_cursor lx)) (lex_string lx)"
  unfolding lex_string_def
  by (rule returns_obind [OF string_chars_stops])
    (auto simp: Let_def intro!: stays_Cons intro: within_tl split: prod.splits)

lemma lex_word_stays:
  "0 \<in> set (lx_cursor lx) \<Longrightarrow> returns (stays (c # lx_cursor lx)) (lex_word P mk c lx)"
  by (simp add: lex_word_def span_class_Done stays_Cons within_dropWhile)

lemma lex_rest_stays:
  "0 \<in> set (lx_cursor lx) \<Longrightarrow> returns (stays (c # lx_cursor lx)) (lex_rest c lx)"
  using lex_number_stays lex_string_stays lex_word_stays
  by (simp add: lex_rest_def) (simp add: stays_def)

lemma lex_register_stays:
  "0 \<in> set (lx_cursor lx) \<Longrightarrow> returns (stays (ch CHR ''R'' # lx_cursor lx)) (lex_register lx)"
  unfolding lex_register_def
  by (rule returns_obind [OF register_digits_stops])
    (use lex_rest_stays in \<open>auto simp: Let_def intro!: stays_Cons split: prod.splits\<close>)

lemma lex_comment_stays:
  assumes "0 \<in> set (lx_cursor lx)"
  shows "returns (stays (c # lx_cursor lx)) (lex_comment lx)"
  using assms within_dropWhile [OF assms, of "\<lambda>c. c \<noteq> 10 \<and> c \<noteq> 0"]
  by (simp add: lex_comment_def skip_comment_Done Let_def stays_Cons)

lemma punctuation_0: "punctuation c = None \<Longrightarrow> c \<noteq> 0"
  "punctuation 0 = Some t \<Longrightarrow> t = TOKEN_EOF"
  by (auto simp: punctuation_def)

lemma lex_at_stays:
  assumes "0 \<in> set (c # lx_cursor lx)"
  shows "returns (stays (c # lx_cursor lx)) (lex_at c lx)"
proof (cases "punctuation c")
  case (Some t)
  with assms punctuation_0(2) [of t] show ?thesis
    by (auto simp: lex_at_def stays_def token_def suffix_Cons)
next
  case None
  with assms have z: "0 \<in> set (lx_cursor lx)" using punctuation_0(1) [OF None] by auto
  show ?thesis
  proof (cases "c = ch CHR ''/''")
    case True
    show ?thesis
    proof (cases "lx_cursor lx")
      case Nil
      with z show ?thesis by simp
    next
      case (Cons d s)
      show ?thesis
      proof (cases "d = ch CHR ''/''")
        case slash: True
        with z Cons have "returns (stays (d # s)) (lex_comment (lx\<lparr>lx_cursor := s\<rparr>))"
          using lex_comment_stays [of "lx\<lparr>lx_cursor := s\<rparr>" d] by auto
        then have "returns (stays (c # d # s)) (lex_comment (lx\<lparr>lx_cursor := s\<rparr>))"
          by (rule returns_mono) (auto intro: stays_suffix simp: suffix_Cons)
        with None True Cons slash show ?thesis by (simp add: lex_at_def)
      next
        case False
        with None True Cons z lex_rest_stays [of lx c] show ?thesis by (simp add: lex_at_def)
      qed
    qed
  next
    case False
    with None z lex_rest_stays [of lx c] lex_register_stays [of lx] show ?thesis by (simp add: lex_at_def)
  qed
qed

lemma lexer_next_token_stays:
  assumes "0 \<in> set (lx_cursor lx)"
  shows "returns (stays (lx_cursor lx)) (lexer_next_token lx)"
proof -
  let ?s = "dropWhile blank (lx_cursor lx)"
  let ?col = "lx_column lx + word_of_nat (length (takeWhile blank (lx_cursor lx)))"
  have w: "within (lx_cursor lx) ?s" using assms by (intro within_dropWhile) (simp_all add: blank_def)
  then obtain c s where s: "?s = c # s" by (cases ?s) (auto simp: within_def)
  have "returns (stays (c # s)) (lexer_next_token lx)"
    using lex_at_stays [of c "lx\<lparr>lx_cursor := s, lx_column := ?col\<rparr>"] w s assms
    by (simp add: lexer_next_token_def skip_blanks_Done within_def)
  moreover have "suffix (c # s) (lx_cursor lx)" using w s by (simp add: within_def)
  ultimately show ?thesis by (auto elim!: returns_mono intro: stays_suffix)
qed

section \<open>Numbers\<close>

text \<open>The decimal notation of a number and the value of a run of digits.\<close>

fun decimal :: "nat \<Rightarrow> u8 list" where
  "decimal n = (if n < 10 then [word_of_nat (48 + n)] else decimal (n div 10) @ [word_of_nat (48 + n mod 10)])"

declare decimal.simps [simp del]

definition digit_value :: "u8 \<Rightarrow> nat" where
  "digit_value c = unat (c - 48)"

definition digits_value :: "nat \<Rightarrow> u8 list \<Rightarrow> nat" where
  "digits_value n ds = foldl (\<lambda>n c. n * 10 + digit_value c) n ds"

lemma digits_value_simps [simp]:
  "digits_value n [] = n"
  "digits_value n (c # ds) = digits_value (n * 10 + digit_value c) ds"
  "digits_value n (ds @ ds') = digits_value (digits_value n ds) ds'"
  by (simp_all add: digits_value_def)

lemma digits_value_ge: "n \<le> digits_value n ds"
proof (induction ds arbitrary: n)
  case (Cons c ds)
  have "n \<le> n * 10 + digit_value c" by simp
  also have "\<dots> \<le> digits_value (n * 10 + digit_value c) ds" by (rule Cons)
  finally show ?case by simp
qed simp

lemma digit_of_nat: "n < 10 \<Longrightarrow> isdigit (word_of_nat (48 + n)) \<and> digit_value (word_of_nat (48 + n)) = n"
proof -
  assume "n < 10"
  then have "n \<in> {0, 1, 2, 3, 4, 5, 6, 7, 8, 9}" by auto
  then show ?thesis by (auto simp: isdigit_def digit_value_def)
qed

lemma decimal_digits: "list_all isdigit (decimal n)"
  by (induction n rule: decimal.induct) (subst decimal.simps, use digit_of_nat in auto)

lemma decimal_not_Nil: "decimal n \<noteq> []"
  by (subst decimal.simps) simp

lemma decimal_value: "digits_value 0 (decimal n) = n"
proof (induction n rule: decimal.induct)
  case (1 n)
  then show ?case
    using digit_of_nat [of n] digit_of_nat [of "n mod 10"]
    by (subst decimal.simps) auto
qed

lemma isdigit_not_0 [simp]: "isdigit c \<Longrightarrow> c \<noteq> 0"
  by (auto simp: isdigit_def)

lemma digit_word: "(ucast (c - 48 :: u8) :: u64) = word_of_nat (digit_value c)"
  by (simp add: digit_value_def)

lemma digit_value_less: "digit_value c < 256"
  using unsigned_less [of "c - 48"] by (simp add: digit_value_def)

lemma unat_step:
  assumes "unat (v :: u64) * 10 + digit_value c < 2 ^ 63"
  shows "unat (v * 10 + ucast (c - 48)) = unat v * 10 + digit_value c"
  using assms by (simp add: digit_word unat_word_ariths unat_of_nat)

lemma number_digits_read:
  "list_all isdigit ds \<Longrightarrow> digits_value (unat v) ds < 2 ^ 63 \<Longrightarrow>
    \<exists>v' n. number_digits (ds @ s) v len = number_digits s v' n \<and> unat v' = digits_value (unat v) ds"
proof (induction ds arbitrary: v len)
  case (Cons c ds)
  let ?v = "v * 10 + ucast (c - 48)"
  have lt: "unat v * 10 + digit_value c < 2 ^ 63"
    using Cons.prems(2) digits_value_ge [of "unat v * 10 + digit_value c" ds] by simp
  then have "unat ?v = unat v * 10 + digit_value c" by (rule unat_step)
  moreover have "\<not> sint v * 10 > 2 ^ 63 - 1" using lt by (simp add: sint_small del: of_nat_unat)
  ultimately show ?case
    using Cons.IH [of ?v "len + 1"] Cons.prems by simp
qed auto

lemma register_digits_read:
  "list_all isdigit ds \<Longrightarrow> digits_value (unat v) ds < 2 ^ 63 \<Longrightarrow> unat len + length ds < 2 ^ 64 \<Longrightarrow>
    \<exists>v'. register_digits (ds @ s) v len = register_digits s v' (len + word_of_nat (length ds)) \<and>
      unat v' = digits_value (unat v) ds"
proof (induction ds arbitrary: v len)
  case (Cons c ds)
  let ?v = "v * 10 + ucast (c - 48)"
  have lt: "unat v * 10 + digit_value c < 2 ^ 63"
    using Cons.prems(2) digits_value_ge [of "unat v * 10 + digit_value c" ds] by simp
  then have "unat ?v = unat v * 10 + digit_value c" by (rule unat_step)
  moreover have "\<not> int (unat v) * 10 > 2 ^ 63 - 1" using lt by (simp del: of_nat_unat)
  moreover have "unat (len + 1) + length ds < 2 ^ 64" using Cons.prems(3) by (simp add: unat_word_ariths)
  ultimately show ?case
    using Cons.IH [of ?v "len + 1"] Cons.prems by (simp add: add.assoc)
qed auto

section \<open>Spelling tokens\<close>

text \<open>How a character is written inside a string, and how a token is written.\<close>

definition spell_char :: "u8 \<Rightarrow> u8 list" where
  "spell_char c =
     (if c = ch CHR 0x5C then [ch CHR 0x5C, ch CHR 0x5C]
      else if c = 0 then [ch CHR 0x5C, ch CHR ''0'']
      else if c = 10 then [ch CHR 0x5C, ch CHR ''n'']
      else [c])"

fun spell :: "TokenType \<Rightarrow> u8 list" where
  "spell TOKEN_DOT = [ch CHR ''.'']"
| "spell TOKEN_COMMA = [ch CHR '','']"
| "spell TOKEN_OPEN_BRACKET = [ch CHR ''['']"
| "spell TOKEN_CLOSE_BRACKET = [ch CHR '']'']"
| "spell TOKEN_COLON = [ch CHR '':'']"
| "spell TOKEN_PLUS = [ch CHR ''+'']"
| "spell TOKEN_MINUS = [ch CHR ''-'']"
| "spell TOKEN_NEWLINE = [10]"
| "spell TOKEN_EOF = [0]"
| "spell (TOKEN_NUMBER v) = decimal (unat v)"
| "spell (TOKEN_REGISTER r) = ch CHR ''R'' # decimal (unat r)"
| "spell (TOKEN_IDENT w) = w"
| "spell (TOKEN_MNEMONIC w) = w"
| "spell (TOKEN_STRING str) = ch CHR 0x22 # concat (map spell_char str) @ [ch CHR 0x22]"

definition ident_char :: "u8 \<Rightarrow> bool" where
  "ident_char c \<longleftrightarrow> isalnum c \<or> c = ch CHR ''_''"

text \<open>The tokens that have a spelling: small numbers, proper words, strings without a quote.\<close>

fun spellable :: "TokenType \<Rightarrow> bool" where
  "spellable (TOKEN_NUMBER v) = (unat v < 2 ^ 63)"
| "spellable (TOKEN_REGISTER r) = (unat r < 2 ^ 63)"
| "spellable (TOKEN_IDENT w) = (w \<noteq> [] \<and> islower (hd w) \<and> list_all ident_char (tl w))"
| "spellable (TOKEN_MNEMONIC w) = (w \<noteq> [] \<and> list_all isupper w)"
| "spellable (TOKEN_STRING str) = (ch CHR 0x22 \<notin> set str)"
| "spellable _ = True"

text \<open>A character that ends every word.\<close>

definition separator :: "u8 \<Rightarrow> bool" where
  "separator d \<longleftrightarrow> \<not> ident_char d"

lemma separator_not [simp]:
  "separator d \<Longrightarrow> \<not> isdigit d" "separator d \<Longrightarrow> \<not> isupper d" "separator d \<Longrightarrow> \<not> islower d"
  "separator d \<Longrightarrow> \<not> isalnum d" "separator d \<Longrightarrow> d \<noteq> 95" "separator d \<Longrightarrow> \<not> ident_char d"
  by (auto simp: separator_def ident_char_def isalnum_def)

text \<open>What a valid token leaves: its type, the text behind it, and the line.\<close>

definition lexes :: "lexed \<Rightarrow> TokenType \<Rightarrow> u64 \<Rightarrow> u8 list \<Rightarrow> bool" where
  "lexes r t line s \<longleftrightarrow> (\<exists>tok lx. r = Done (tok, LEXER_OK, lx) \<and> tok_type tok = t \<and> tok_line tok = line \<and>
     lx_line lx = line \<and> lx_cursor lx = s)"

lemma lexes_DoneI:
  "tok_type tok = t \<Longrightarrow> tok_line tok = line \<Longrightarrow> lx_line lx = line \<Longrightarrow> lx_cursor lx = s \<Longrightarrow>
    lexes (Done (tok, LEXER_OK, lx)) t line s"
  by (simp add: lexes_def)

lemma token_simps [simp]:
  "tok_type (token t lx col) = t" "tok_line (token t lx col) = lx_line lx" "tok_column (token t lx col) = col"
  by (simp_all add: token_def)

lemma isdigit_classes: "isdigit c \<Longrightarrow> punctuation c = None \<and> c \<noteq> 47 \<and> c \<noteq> 82 \<and> \<not> blank c"
  by (auto simp: isdigit_def punctuation_def blank_def)

lemma islower_classes: "islower c \<Longrightarrow> punctuation c = None \<and> c \<noteq> 47 \<and> c \<noteq> 82 \<and> \<not> blank c \<and> \<not> isdigit c \<and> c \<noteq> 34"
  by (auto simp: char_classes punctuation_def blank_def word_le_nat_alt)

lemma isupper_classes: "isupper c \<Longrightarrow> punctuation c = None \<and> c \<noteq> 47 \<and> \<not> blank c \<and> \<not> isdigit c \<and> c \<noteq> 34 \<and> \<not> islower c \<and> c \<noteq> 0"
  by (auto simp: char_classes punctuation_def blank_def word_le_nat_alt)

lemma lex_at_number:
  assumes "lx_cursor lx = tl (decimal (unat v)) @ d # s" "unat v < 2 ^ 63" "\<not> isdigit d"
  shows "lexes (lex_at (hd (decimal (unat v))) lx) (TOKEN_NUMBER v) (lx_line lx) (d # s)"
proof -
  obtain c ds where dec: "decimal (unat v) = c # ds" using decimal_not_Nil by (cases "decimal (unat v)") auto
  then have dig: "isdigit c" "list_all isdigit ds" using decimal_digits [of "unat v"] by simp_all
  have val: "digits_value (digit_value c) ds = unat v" using decimal_value [of "unat v"] dec by simp
  have c: "unat (ucast (c - 48) :: u64) = digit_value c"
    using digit_value_less [of c] by (simp add: digit_word unat_of_nat)
  obtain v' n where n: "number_digits (ds @ d # s) (ucast (c - 48)) 0 = number_digits (d # s) v' n"
    "unat v' = unat v"
    using number_digits_read [OF dig(2), of "ucast (c - 48)" "d # s" 0] assms(2) val c by auto
  from n(2) have "v' = v" by (rule unsigned_word_eqI)
  with dec dig(1) n(1) assms(1,3) isdigit_classes [OF dig(1)] show ?thesis
    by (simp add: lexes_def lex_at_def lex_rest_def lex_number_def)
qed

lemma lex_at_register:
  assumes "lx_cursor lx = decimal (unat v) @ d # s" "unat v < 2 ^ 63" "\<not> isdigit d" "length (decimal (unat v)) < 2 ^ 64"
  shows "lexes (lex_at (ch CHR ''R'') lx) (TOKEN_REGISTER v) (lx_line lx) (d # s)"
proof -
  let ?ds = "decimal (unat v)"
  obtain v' where n: "register_digits (?ds @ d # s) 0 0 = register_digits (d # s) v' (word_of_nat (length ?ds))"
    "unat v' = unat v"
    using register_digits_read [OF decimal_digits, of 0 "unat v" 0 "d # s"] assms(2,4)
    by (auto simp: decimal_value)
  from n(2) have "v' = v" by (rule unsigned_word_eqI)
  moreover have "(0 :: u64) < word_of_nat (length ?ds)"
    using assms(4) decimal_not_Nil [of "unat v"] by (simp add: word_less_nat_alt unat_of_nat)
  ultimately show ?thesis using n(1) assms(1,3)
    by (simp add: lexes_def lex_at_def lex_register_def punctuation_def)
qed

lemma takeWhile_class:
  "list_all P w \<Longrightarrow> \<not> P d \<Longrightarrow> takeWhile P (w @ d # s) = w \<and> dropWhile P (w @ d # s) = d # s"
  by (induction w) auto

lemma lex_word_read:
  assumes "lx_cursor lx = w @ d # s" "list_all P w" "\<not> P d" "0 \<notin> set w" "0 \<in> set (d # s)"
  shows "lexes (lex_word P mk c lx) (mk (c # w)) (lx_line lx) (d # s)"
proof -
  have "list_all (\<lambda>c. c \<noteq> 0 \<and> P c) w" using assms(2,4) by (auto simp: list_all_iff)
  then have "span_class P (lx_cursor lx) = Done (w, d # s)"
    using takeWhile_class [of "\<lambda>c. c \<noteq> 0 \<and> P c" w d s] assms(1,3,5) by (auto simp: span_class_Done)
  then show ?thesis by (simp add: lex_word_def lexes_def)
qed

lemma string_chars_spell:
  "ch CHR 0x22 \<notin> set str \<Longrightarrow> \<exists>col'. string_chars (concat (map spell_char str) @ s) acc col =
    string_chars s (acc @ str) col'"
proof (induction str arbitrary: acc col)
  case (Cons c str)
  then have c: "c \<noteq> 34" "34 \<notin> set str" by auto
  obtain col1 where "string_chars (spell_char c @ concat (map spell_char str) @ s) acc col =
      string_chars (concat (map spell_char str) @ s) (acc @ [c]) col1"
    using c(1) by (cases "c \<in> {92, 0, 10}") (auto simp: spell_char_def escape_sequence_def EOF_def)
  with Cons.IH [of "acc @ [c]" col1] c(2) show ?case by auto
qed auto

lemma lex_string_read:
  assumes "lx_cursor lx = concat (map spell_char str) @ ch CHR 0x22 # s" "ch CHR 0x22 \<notin> set str"
  shows "lexes (lex_string lx) (TOKEN_STRING str) (lx_line lx) s"
proof -
  obtain col where "string_chars (lx_cursor lx) [] (lx_column lx) = Done (True, 34 # s, str, col)"
    using string_chars_spell [OF assms(2), of "34 # s" "[]" "lx_column lx"] assms(1) by auto
  then show ?thesis by (simp add: lex_string_def lexes_def Let_def)
qed

lemma spell_punctuation:
  "spell t = [c] \<Longrightarrow> punctuation c = Some t \<Longrightarrow> lx_cursor lx = s \<Longrightarrow> lexes (lex_at c lx) t (lx_line lx) s"
  by (simp add: lex_at_def lexes_def)

lemma length_decimal_bound: "length (decimal n) \<le> Suc n"
proof (induction n rule: decimal.induct)
  case (1 n)
  show ?case
  proof (cases "n < 10")
    case False
    with 1 have "length (decimal (n div 10)) \<le> Suc (n div 10)" by simp
    moreover have "Suc (n div 10) \<le> n" using False by simp
    ultimately show ?thesis using False by (subst decimal.simps) simp
  qed (subst decimal.simps, simp)
qed

lemma lex_at_spell:
  assumes "spellable t" "spell t = c # w" "lx_cursor lx = w @ d # s" "separator d" "0 \<in> set (d # s)"
  shows "lexes (lex_at c lx) t (lx_line lx) (d # s)"
proof (cases t)
  case (TOKEN_NUMBER v)
  with assms lex_at_number [of lx v d s] show ?thesis by simp
next
  case (TOKEN_REGISTER v)
  with assms lex_at_register [of lx v d s] length_decimal_bound [of "unat v"] show ?thesis by simp
next
  case (TOKEN_STRING str)
  with assms lex_string_read [of lx str "d # s"] show ?thesis
    by (simp add: lex_at_def lex_rest_def punctuation_def isdigit_def)
next
  case (TOKEN_IDENT v)
  with assms have w: "islower c" "list_all ident_char w" "t = TOKEN_IDENT (c # w)" by auto
  then have "0 \<notin> set w" by (auto simp: list_all_iff ident_char_def char_classes)
  with w assms lex_word_read [of lx w d s ident_char TOKEN_IDENT c] islower_classes [OF w(1)] show ?thesis
    by (simp add: lex_at_def lex_rest_def ident_char_def [abs_def])
next
  case (TOKEN_MNEMONIC v)
  with assms have w: "isupper c" "list_all isupper w" "t = TOKEN_MNEMONIC (c # w)" by auto
  then have "0 \<notin> set w" using isupper_classes by (auto simp: list_all_iff)
  note read = lex_word_read [OF assms(3) w(2) _ this assms(5), of TOKEN_MNEMONIC c]
  have rest: "lex_rest c lx = lex_word isupper TOKEN_MNEMONIC c lx"
    using w(1) isupper_classes [OF w(1)] by (simp add: lex_rest_def)
  show ?thesis
  proof (cases "c = 82")
    case True
    obtain e u where e: "w @ d # s = e # u" by (cases "w @ d # s") auto
    have "\<not> isdigit e" using e w(2) isupper_classes assms(4) by (cases w) auto
    with True rest read assms(3,4) w(3) e show ?thesis
      by (simp add: lex_at_def lex_register_def punctuation_def)
  next
    case False
    with rest read assms(4) w(3) isupper_classes [OF w(1)] show ?thesis by (simp add: lex_at_def)
  qed
qed (use assms spell_punctuation [of t c lx "d # s"] in \<open>auto simp: punctuation_def\<close>)

lemma spell_start: "spellable t \<Longrightarrow> \<exists>c w. spell t = c # w \<and> \<not> blank c"
proof (cases t)
  case (TOKEN_NUMBER v)
  then show ?thesis using decimal_not_Nil [of "unat v"] decimal_digits [of "unat v"] isdigit_classes
    by (cases "decimal (unat v)") auto
next
  case (TOKEN_IDENT w)
  then show "spellable t \<Longrightarrow> ?thesis" using islower_classes by (cases w) auto
next
  case (TOKEN_MNEMONIC w)
  then show "spellable t \<Longrightarrow> ?thesis" using isupper_classes by (cases w) auto
qed (auto simp: blank_def)

text \<open>The next token after blanks is the one that is written there.\<close>

lemma lexer_next_token_spell:
  assumes "spellable t" "list_all blank bl" "lx_cursor lx = bl @ spell t @ d # s" "separator d" "0 \<in> set (d # s)"
  shows "lexes (lexer_next_token lx) t (lx_line lx) (d # s)"
proof -
  obtain c w where c: "spell t = c # w" "\<not> blank c" using spell_start [OF assms(1)] by blast
  have "takeWhile blank (lx_cursor lx) = bl \<and> dropWhile blank (lx_cursor lx) = c # w @ d # s"
    using takeWhile_class [OF assms(2) c(2), of "w @ d # s"] assms(3) c(1) by simp
  moreover have "0 \<in> set (lx_cursor lx)" using assms(3,5) by auto
  ultimately have "lexer_next_token lx =
      lex_at c (lx\<lparr>lx_cursor := w @ d # s, lx_column := lx_column lx + word_of_nat (length bl)\<rparr>)"
    by (simp add: lexer_next_token_def skip_blanks_Done)
  with lex_at_spell [OF assms(1) c(1), of "lx\<lparr>lx_cursor := w @ d # s,
      lx_column := lx_column lx + word_of_nat (length bl)\<rparr>" d s] assms(4,5)
  show ?thesis by simp
qed

section \<open>Which tokens there are\<close>

text \<open>
  No string token contains a quote, since the escape of a quote stands for a tab; identifiers and
  mnemonics are never empty and made of the characters of their class.
\<close>

fun type_ok :: "TokenType \<Rightarrow> bool" where
  "type_ok (TOKEN_STRING str) \<longleftrightarrow> 34 \<notin> set str"
| "type_ok (TOKEN_IDENT w) \<longleftrightarrow> w \<noteq> [] \<and> islower (hd w) \<and> list_all ident_char (tl w)"
| "type_ok (TOKEN_MNEMONIC w) \<longleftrightarrow> w \<noteq> [] \<and> list_all isupper w"
| "type_ok _ \<longleftrightarrow> True"

definition token_ok :: "Token \<times> LexerError \<times> Lexer \<Rightarrow> bool" where
  "token_ok r \<longleftrightarrow> type_ok (tok_type (fst r))"

lemma span_class_all: "post (\<lambda>(w, s'). list_all P w) (span_class P s)"
  by (induction s) (auto simp: post_iff obind_Done_iff)

lemma string_chars_unquoted:
  "34 \<notin> set str \<Longrightarrow> post (\<lambda>(ok, s', str', col'). 34 \<notin> set str') (string_chars s str col)"
  by (induction s str col rule: string_chars.induct)
    (auto simp: escape_sequence_def EOF_def split: list.splits)

lemma lex_word_ok:
  "(\<And>w. list_all P w \<Longrightarrow> type_ok (mk (c # w))) \<Longrightarrow> post token_ok (lex_word P mk c lx)"
  unfolding lex_word_def
  by (intro post_obind post_mono [OF span_class_all]) (auto simp: token_ok_def token_def)

lemma lex_rest_ok: "post token_ok (lex_rest c lx)"
proof -
  have "post token_ok (lex_string lx)"
    unfolding lex_string_def
    by (intro post_obind post_mono [OF string_chars_unquoted]) (auto simp: token_ok_def Let_def)
  moreover have "post token_ok (lex_number c lx)"
    by (auto simp: lex_number_def post_iff obind_Done_iff token_ok_def Let_def split: if_splits)
  moreover have "islower c \<Longrightarrow> post token_ok (lex_word (\<lambda>c. isalnum c \<or> c = ch CHR ''_'') TOKEN_IDENT c lx)"
    by (rule lex_word_ok) (simp add: ident_char_def [abs_def])
  moreover have "isupper c \<Longrightarrow> post token_ok (lex_word isupper TOKEN_MNEMONIC c lx)"
    by (rule lex_word_ok) simp
  ultimately show ?thesis by (simp add: lex_rest_def) (simp add: token_ok_def)
qed

lemma lex_at_ok: "post token_ok (lex_at c lx)"
proof (cases "punctuation c")
  case (Some t)
  then show ?thesis by (auto simp: lex_at_def punctuation_def token_ok_def split: if_splits)
next
  case None
  have "post token_ok (lex_comment lx')" for lx'
    by (auto simp: lex_comment_def post_iff obind_Done_iff token_ok_def Let_def)
  moreover have "post token_ok (lex_register lx)"
  proof (cases "register_digits (lx_cursor lx) 0 0")
    case (Done r)
    have "token_ok (token (TOKEN_REGISTER v) lx' col, st, lx'')" for v lx' col st lx''
      by (simp add: token_ok_def)
    with Done lex_rest_ok show ?thesis by (cases r) (simp add: lex_register_def Let_def)
  qed (simp_all add: lex_register_def)
  ultimately show ?thesis using None lex_rest_ok by (auto simp: lex_at_def split: list.splits)
qed

lemma lexer_next_token_ok: "post token_ok (lexer_next_token lx)"
  unfolding lexer_next_token_def
  by (intro post_obind) (use lex_at_ok in \<open>auto simp: post_iff\<close>)

section \<open>Numbers at the limit\<close>

lemma number_sign:
  "(n < 2 ^ 63 \<longrightarrow> sint (word_of_nat n :: u64) = int n) \<and>
   (2 ^ 63 \<le> n \<longrightarrow> n < 2 ^ 64 \<longrightarrow> sint (word_of_nat n :: u64) < 0)"
proof (intro conjI impI)
  assume "n < 2 ^ 63"
  then show "sint (word_of_nat n :: u64) = int n"
    by (subst sint_small) (simp_all add: unat_of_nat del: of_nat_unat)
next
  assume n: "2 ^ 63 \<le> n" "n < 2 ^ 64"
  then have u: "uint (word_of_nat n :: u64) = int n" by (simp add: uint_nat unat_of_nat del: of_nat_unat)
  have "int n div 2 ^ 63 = 1" using n by (simp add: int_div_pos_eq [of "int n" "2 ^ 63" 1 "int n - 2 ^ 63"])
  then have "bit (int n) 63" by (simp add: bit_iff_odd)
  then have "signed_take_bit 63 (int n) < 0" by (simp add: signed_take_bit_negative_iff)
  then show "sint (word_of_nat n :: u64) < 0" by (simp only: sint_uint u) simp
qed

lemma decimal_last: "decimal n = (if n < 10 then [] else decimal (n div 10)) @ [word_of_nat (48 + n mod 10)]"
  by (subst decimal.simps) simp

lemma number_digits_decimal:
  assumes "10 \<le> n" "n div 10 < 2 ^ 63" "\<not> isdigit d" "decimal n = c # w"
  shows "if n div 10 * 10 < 2 ^ 63
    then \<exists>len. number_digits (w @ d # s) (ucast (c - 48)) 0 = Done (True, d # s, word_of_nat n, len)
    else \<exists>s' v len. number_digits (w @ d # s) (ucast (c - 48)) 0 = Done (False, s', v, len)"
proof -
  let ?e = "word_of_nat (48 + n mod 10) :: u8"
  obtain ds where dec: "decimal (n div 10) = c # ds" "w = ds @ [?e]"
    using decimal_last [of n] decimal_not_Nil [of "n div 10"] assms(1,4) by (cases "decimal (n div 10)") auto
  have dig: "list_all isdigit ds" using decimal_digits [of "n div 10"] dec by simp
  have val: "digits_value (digit_value c) ds = n div 10" using decimal_value [of "n div 10"] dec by simp
  have c: "unat (ucast (c - 48) :: u64) = digit_value c"
    using digit_value_less [of c] by (simp add: digit_word unat_of_nat)
  obtain v len where n: "number_digits (ds @ ?e # d # s) (ucast (c - 48)) 0 = number_digits (?e # d # s) v len"
    "unat v = n div 10"
    using number_digits_read [OF dig, of "ucast (c - 48)" "?e # d # s" 0] assms(2) val c by auto
  have e: "isdigit ?e" "digit_value ?e = n mod 10" using digit_of_nat [of "n mod 10"] by simp_all
  have "v = word_of_nat (n div 10)" using n(2) by (metis of_nat_unat ucast_id)
  then have "v * 10 + ucast (?e - 48) = word_of_nat (n div 10 * 10 + n mod 10)"
    unfolding digit_word e(2) by (simp only: of_nat_add of_nat_mult of_nat_numeral)
  moreover have "sint v * 10 > 2 ^ 63 - 1 \<longleftrightarrow> \<not> n div 10 * 10 < 2 ^ 63"
  proof -
    have "int m * 10 > 2 ^ 63 - 1 \<longleftrightarrow> \<not> m * 10 < 2 ^ 63" for m :: nat by auto
    moreover have "sint v = int (n div 10)" using n(2) assms(2) by (simp add: sint_small del: of_nat_unat)
    ultimately show ?thesis by metis
  qed
  ultimately show ?thesis using n(1) e(1) assms(3) dec(2) by (simp only: div_mult_mod_eq) simp
qed

lemma number_read:
  assumes "n div 10 < 2 ^ 63" "\<not> isdigit d"
  shows "if n div 10 * 10 < 2 ^ 63
    then lexes (lexer_next_token \<lparr>lx_cursor = decimal n @ d # s, lx_line = line, lx_column = col\<rparr>)
      (TOKEN_NUMBER (word_of_nat n)) line (d # s)
    else \<exists>tok lx'. lexer_next_token \<lparr>lx_cursor = decimal n @ d # s, lx_line = line, lx_column = col\<rparr> =
        Done (tok, LEXER_INVALID_TOKEN, lx')"
proof -
  obtain c w where c: "decimal n = c # w" using decimal_not_Nil by (cases "decimal n") auto
  then have dig: "isdigit c" using decimal_digits [of n] by simp
  have lex: "lexer_next_token \<lparr>lx_cursor = decimal n @ d # s, lx_line = line, lx_column = col\<rparr> =
      lex_number c \<lparr>lx_cursor = w @ d # s, lx_line = line, lx_column = col\<rparr>"
    using isdigit_classes [OF dig] dig
    by (simp add: lexer_next_token_def c lex_at_def lex_rest_def) (simp add: blank_def)
  show ?thesis
  proof (cases "n < 10")
    case True
    then have "c = word_of_nat (48 + n)" "w = []" using c by (simp_all add: decimal.simps [of n])
    moreover from this have "(ucast (c - 48) :: u64) = word_of_nat n"
      using digit_of_nat [OF True] by (simp only: digit_word)
    ultimately have "lexes (lex_number c \<lparr>lx_cursor = w @ d # s, lx_line = line, lx_column = col\<rparr>)
        (TOKEN_NUMBER (word_of_nat n)) line (d # s)"
      using assms(2) by (simp add: lex_number_def lexes_def)
    with True show ?thesis by (simp add: lex)
  next
    case False
    then show ?thesis
      using number_digits_decimal [OF _ assms c, of s] unfolding lex
      by (auto simp: lex_number_def lexes_def Let_def)
  qed
qed

section \<open>Properties\<close>

text \<open>
  C12: on a buffer that holds a NUL the lexer returns and never reads behind the first NUL, and every
  valid token makes what is left shorter; only \<open>TOKEN_EOF\<close> passes the NUL.
\<close>

theorem lexer_stays_in_text:
  assumes "0 \<in> set (lx_cursor lx)"
  shows "\<exists>tok st lx'. lexer_next_token lx = Done (tok, st, lx') \<and> suffix (lx_cursor lx') (lx_cursor lx) \<and>
    (st = LEXER_OK \<longrightarrow> length (lx_cursor lx') < length (lx_cursor lx)) \<and>
    (st = LEXER_OK \<longrightarrow> tok_type tok = TOKEN_EOF \<or> 0 \<in> set (lx_cursor lx'))"
  using lexer_next_token_stays [OF assms] by (auto simp: returns_iff stays_def)

theorem lexer_stays_in_text_witness:
  "\<exists>tok st lx'. lexer_next_token \<lparr>lx_cursor = [34, 97, 92, 0, 65], lx_line = 0, lx_column = 0\<rparr> = Done (tok, st, lx') \<and>
    suffix (lx_cursor lx') [34, 97, 92, 0, 65]"
  using lexer_stays_in_text [of "\<lparr>lx_cursor = [34, 97, 92, 0, 65], lx_line = 0, lx_column = 0\<rparr>"] by auto

text \<open>
  C11: a written token is read back. After any blanks, the spelling of a token that is followed by
  a separator, a character that is neither letter nor digit nor underscore, gives that token, and the
  cursor stands at the separator. Without one a number or a name runs on into what follows it.
\<close>

theorem token_roundtrip:
  assumes "spellable t" "list_all blank bl" "separator d" "0 \<in> set (d # s)"
  shows "\<exists>tok lx'. lexer_next_token \<lparr>lx_cursor = bl @ spell t @ d # s, lx_line = line, lx_column = col\<rparr> =
      Done (tok, LEXER_OK, lx') \<and>
    tok_type tok = t \<and> tok_line tok = line \<and> lx_line lx' = line \<and> lx_cursor lx' = d # s"
  using lexer_next_token_spell [OF assms(1,2) _ assms(3,4),
      of "\<lparr>lx_cursor = bl @ spell t @ d # s, lx_line = line, lx_column = col\<rparr>"]
  by (auto simp: lexes_def)

theorem token_roundtrip_witness:
  "\<exists>tok lx'. lexer_next_token \<lparr>lx_cursor = [32, 34, 97, 92, 48, 34, 10, 0], lx_line = 4, lx_column = 0\<rparr> =
      Done (tok, LEXER_OK, lx') \<and> tok_type tok = TOKEN_STRING [97, 0] \<and> lx_cursor lx' = [10, 0]"
proof -
  have sep: "separator 10" by (simp add: separator_def ident_char_def char_classes)
  show ?thesis
    using token_roundtrip [of "TOKEN_STRING [97, 0]" "[32]" 10 "[0]" 4 0] sep
    by (auto simp: blank_def spell_char_def)
qed

text \<open>
  C36: the value of a number. A number whose leading digits fit is refused when ten times their
  value exceeds \<open>INT64_MAX\<close>; otherwise it is accepted with its last digit added, and the two
  numbers above \<open>INT64_MAX\<close> that pass become negative.
\<close>

theorem numbers_classified:
  assumes "n div 10 < 2 ^ 63" "\<not> isdigit d"
  shows "if n div 10 * 10 < 2 ^ 63
    then \<exists>tok lx'. lexer_next_token \<lparr>lx_cursor = decimal n @ d # 0 # s, lx_line = line, lx_column = col\<rparr> =
        Done (tok, LEXER_OK, lx') \<and> tok_type tok = TOKEN_NUMBER (word_of_nat n) \<and>
      (n < 2 ^ 63 \<longrightarrow> sint (word_of_nat n :: u64) = int n) \<and>
      (2 ^ 63 \<le> n \<longrightarrow> sint (word_of_nat n :: u64) < 0)
    else \<exists>tok lx'. lexer_next_token \<lparr>lx_cursor = decimal n @ d # 0 # s, lx_line = line, lx_column = col\<rparr> =
        Done (tok, LEXER_INVALID_TOKEN, lx')"
  using number_read [OF assms, of "0 # s" line col] number_sign [of n] by (auto simp: lexes_def)

theorem numbers_classified_witness:
  "(\<exists>tok lx'. lexer_next_token \<lparr>lx_cursor = decimal (2 ^ 63) @ [10, 0], lx_line = 0, lx_column = 0\<rparr> =
      Done (tok, LEXER_OK, lx') \<and> tok_type tok = TOKEN_NUMBER (- (2 ^ 63))) \<and>
    (\<exists>tok lx'. lexer_next_token \<lparr>lx_cursor = decimal (2 ^ 63 + 2) @ [10, 0], lx_line = 0, lx_column = 0\<rparr> =
      Done (tok, LEXER_INVALID_TOKEN, lx'))"
proof -
  have d: "\<not> isdigit 10" by (simp add: isdigit_def)
  have "(word_of_nat (2 ^ 63) :: u64) = - (2 ^ 63)" by simp
  then show ?thesis
    using numbers_classified [of "2 ^ 63" 10 "[]" 0 0] numbers_classified [of "2 ^ 63 + 2" 10 "[]" 0 0] d by auto
qed

text \<open>
  C37: the shape of the tokens. No string contains a double quote, since the escape of a quote
  stands for a tab; an identifier is a lower-case letter followed by letters, digits and
  underscores, a mnemonic a word of capitals.
\<close>

theorem token_shapes:
  assumes "lexer_next_token lx = Done (tok, st, lx')"
  shows "case tok_type tok of
      TOKEN_STRING str \<Rightarrow> ch CHR 0x22 \<notin> set str
    | TOKEN_IDENT w \<Rightarrow> w \<noteq> [] \<and> islower (hd w) \<and> list_all (\<lambda>c. isalnum c \<or> c = ch CHR ''_'') (tl w)
    | TOKEN_MNEMONIC w \<Rightarrow> w \<noteq> [] \<and> list_all isupper w
    | _ \<Rightarrow> True"
  using lexer_next_token_ok [of lx] assms
  by (auto simp: token_ok_def ident_char_def [abs_def] split: TokenType.splits)

theorem token_shapes_witness:
  "\<exists>tok lx'. lexer_next_token \<lparr>lx_cursor = [34, 92, 34, 34, 0], lx_line = 0, lx_column = 0\<rparr> = Done (tok, LEXER_OK, lx') \<and>
    tok_type tok = TOKEN_STRING [9] \<and> 34 \<notin> set [9 :: u8]"
proof -
  have l: "\<exists>tok lx'. lexer_next_token \<lparr>lx_cursor = [34, 92, 34, 34, 0], lx_line = 0, lx_column = 0\<rparr> = Done (tok, LEXER_OK, lx') \<and>
      tok_type tok = TOKEN_STRING [9]"
    by (simp add: lexer_next_token_def lex_at_def punctuation_def lex_rest_def isdigit_def lex_string_def
        escape_sequence_def EOF_def Let_def)
  then obtain tok lx' where "lexer_next_token \<lparr>lx_cursor = [34, 92, 34, 34, 0], lx_line = 0, lx_column = 0\<rparr> =
      Done (tok, LEXER_OK, lx')" "tok_type tok = TOKEN_STRING [9]" by blast
  from token_shapes [OF this(1)] this(2) l show ?thesis by simp
qed

end
