(* ===== verification/Source.thy ===== *)
theory Source
  imports Parser Tokens
begin

text \<open>
  What the parser promises: names are found by their prefixes, a line that is written out from a
  node is parsed back to that node, and a file of such lines to its list of nodes.
\<close>

unbundle bit_operations_syntax

section \<open>Names\<close>

lemma find_cases: "(\<exists>x\<in>set xs. P x \<and> List.find P xs = Some x) \<or> (\<forall>x\<in>set xs. \<not> P x) \<and> List.find P xs = None"
  by (induction xs) auto

lemma op_names: "(m, op) \<in> set op_map \<longleftrightarrow> getOpStr op = Some m"
  by (cases op) (auto simp: getOpStr_def op_map_def)

lemma dir_names: "(m, d) \<in> set dir_map \<longleftrightarrow> getDirStr d = Some m"
  by (cases d) (auto simp: getDirStr_def dir_map_def)

lemma no_name_count: "getOpStr OP_COUNT = None" "getDirStr DIR_COUNT = None"
  by (simp_all add: getOpStr_def op_map_def getDirStr_def dir_map_def)

lemma op_lookup_iff: "op_lookup w \<noteq> OP_COUNT \<longleftrightarrow> (\<exists>(m, op)\<in>set op_map. take (length w) m = w)"
  using find_cases [of op_map "\<lambda>(m, op). strncmp_equal m w"]
  by (auto simp: op_lookup_def strncmp_equal_def op_names no_name_count split: prod.splits)

lemma dir_lookup_iff: "dir_lookup w \<noteq> DIR_COUNT \<longleftrightarrow> (\<exists>(m, d)\<in>set dir_map. take (length w) m = w)"
  using find_cases [of dir_map "\<lambda>(m, d). strncmp_equal m w"]
  by (auto simp: dir_lookup_def strncmp_equal_def dir_names no_name_count split: prod.splits)

lemma op_lookup_name: "op \<noteq> OP_COUNT \<Longrightarrow> \<exists>m. getOpStr op = Some m \<and> op_lookup m = op \<and> m \<noteq> [] \<and> list_all isupper m"
  by (cases op)
    (simp_all add: getOpStr_def op_lookup_def op_map_def strncmp_equal_def isupper_def)

lemma dir_lookup_name: "d \<noteq> DIR_COUNT \<Longrightarrow> \<exists>m. getDirStr d = Some m \<and> dir_lookup m = d \<and>
    m \<noteq> [] \<and> islower (hd m) \<and> list_all ident_char m"
  by (cases d)
    (simp_all add: getDirStr_def dir_lookup_def dir_map_def strncmp_equal_def ident_char_def char_classes)

section \<open>Writing nodes\<close>

definition minus_number :: "u64 \<Rightarrow> TokenType list" where
  "minus_number v = (if sint v < 0 then [TOKEN_MINUS, TOKEN_NUMBER (- v)] else [TOKEN_NUMBER v])"

definition plus_number :: "u64 \<Rightarrow> TokenType list" where
  "plus_number v = (if sint v < 0 then [TOKEN_MINUS, TOKEN_NUMBER (- v)] else [TOKEN_PLUS, TOKEN_NUMBER v])"

fun operand_tokens :: "Operand \<Rightarrow> TokenType list" where
  "operand_tokens OPERAND_NONE = []"
| "operand_tokens (OPERAND_VALUE v) = minus_number v"
| "operand_tokens (OPERAND_REG r) = [TOKEN_REGISTER (ucast r)]"
| "operand_tokens (OPERAND_IDENT w) = [TOKEN_IDENT w]"
| "operand_tokens (OPERAND_STRING str) = [TOKEN_STRING (butlast str)]"
| "operand_tokens (OPERAND_MEM_IDENT w) = [TOKEN_OPEN_BRACKET, TOKEN_IDENT w, TOKEN_CLOSE_BRACKET]"
| "operand_tokens (OPERAND_MEM_VALUE v) = [TOKEN_OPEN_BRACKET, TOKEN_NUMBER v, TOKEN_CLOSE_BRACKET]"
| "operand_tokens (OPERAND_MEM_REG r) = [TOKEN_OPEN_BRACKET, TOKEN_REGISTER (ucast r), TOKEN_CLOSE_BRACKET]"
| "operand_tokens (OPERAND_MEM_IDX r off) =
     [TOKEN_OPEN_BRACKET, TOKEN_REGISTER (ucast r)] @ plus_number off @ [TOKEN_CLOSE_BRACKET]"
| "operand_tokens (OPERAND_MEM_IDX_IDENT w off) =
     [TOKEN_OPEN_BRACKET, TOKEN_IDENT w] @ plus_number off @ [TOKEN_CLOSE_BRACKET]"

fun node_tokens :: "IR_Node \<Rightarrow> TokenType list" where
  "node_tokens (IR_LABEL line name) = [TOKEN_IDENT name, TOKEN_COLON]"
| "node_tokens (IR_DIR line d v) = [TOKEN_DOT, TOKEN_IDENT (the (getDirStr d))] @ operand_tokens v"
| "node_tokens (IR_INSTR line op a b) = TOKEN_MNEMONIC (the (getOpStr op)) # operand_tokens a @
     (if b = OPERAND_NONE then [] else TOKEN_COMMA # operand_tokens b)"

text \<open>A line of source: the tokens, each followed by a blank.\<close>

definition tokens_text :: "TokenType list \<Rightarrow> u8 list" where
  "tokens_text ts = concat (map (\<lambda>t. spell t @ [32]) ts) @ [10]"

definition line_text :: "IR_Node \<Rightarrow> u8 list" where
  "line_text n = tokens_text (node_tokens n)"

text \<open>The nodes that have a source line.\<close>

definition name_ok :: "u8 list \<Rightarrow> bool" where
  "name_ok w \<longleftrightarrow> w \<noteq> [] \<and> islower (hd w) \<and> list_all ident_char (tl w)"

text \<open>Every number but the smallest has a spelling.\<close>

definition number_ok :: "u64 \<Rightarrow> bool" where
  "number_ok v \<longleftrightarrow> v \<noteq> 0x8000000000000000"

fun operand_ok :: "Operand \<Rightarrow> bool" where
  "operand_ok OPERAND_NONE = True"
| "operand_ok (OPERAND_VALUE v) = number_ok v"
| "operand_ok (OPERAND_REG r) = True"
| "operand_ok (OPERAND_IDENT w) = name_ok w"
| "operand_ok (OPERAND_STRING str) = False"
| "operand_ok (OPERAND_MEM_IDENT w) = name_ok w"
| "operand_ok (OPERAND_MEM_VALUE v) = (unat v < 2 ^ 63)"
| "operand_ok (OPERAND_MEM_REG r) = True"
| "operand_ok (OPERAND_MEM_IDX r off) = number_ok off"
| "operand_ok (OPERAND_MEM_IDX_IDENT w off) = (name_ok w \<and> number_ok off)"

fun dir_operand_ok :: "Operand \<Rightarrow> bool" where
  "dir_operand_ok OPERAND_NONE = True"
| "dir_operand_ok (OPERAND_VALUE v) = number_ok v"
| "dir_operand_ok (OPERAND_IDENT w) = name_ok w"
| "dir_operand_ok (OPERAND_STRING str) = (str \<noteq> [] \<and> last str = 0 \<and> 34 \<notin> set str)"
| "dir_operand_ok _ = False"

fun is_mem_ident :: "Operand \<Rightarrow> bool" where
  "is_mem_ident (OPERAND_MEM_IDENT w) = True"
| "is_mem_ident _ = False"

text \<open>
  A label in brackets must end its line, so it is no first of two operands.
\<close>

fun writable :: "IR_Node \<Rightarrow> bool" where
  "writable (IR_LABEL line name) = name_ok name"
| "writable (IR_DIR line d v) = (d \<noteq> DIR_COUNT \<and> dir_operand_ok v)"
| "writable (IR_INSTR line op a b) = (op \<noteq> OP_COUNT \<and> operand_ok a \<and> operand_ok b \<and>
     (a = OPERAND_NONE \<longrightarrow> b = OPERAND_NONE) \<and> (b \<noteq> OPERAND_NONE \<longrightarrow> \<not> is_mem_ident a))"

section \<open>Reading tokens\<close>

text \<open>The lexer is before the tokens \<open>ts\<close> of line \<open>line\<close>, possibly after a blank.\<close>

definition before :: "u64 \<Rightarrow> TokenType list \<Rightarrow> u8 list \<Rightarrow> Lexer \<Rightarrow> bool" where
  "before line ts stale lx \<longleftrightarrow> lx_line lx = line \<and>
     (\<exists>bl. list_all blank bl \<and> lx_cursor lx = bl @ tokens_text ts @ 0 # stale)"

text \<open>The lexer is at the NUL.\<close>

definition at_nul :: "u64 \<Rightarrow> u8 list \<Rightarrow> Lexer \<Rightarrow> bool" where
  "at_nul line stale lx \<longleftrightarrow> lx_line lx = line \<and> lx_cursor lx = 0 # stale"

lemma separators: "separator 32" "separator 0" "separator 10"
  by (simp_all add: separator_def ident_char_def char_classes)

lemma next_token_before:
  assumes "before line (t # ts) stale lx" "spellable t"
  shows "\<exists>tok lx'. lexer_next_token lx = Done (tok, LEXER_OK, lx') \<and> tok_type tok = t \<and> tok_line tok = line \<and>
    before line ts stale lx'"
proof -
  obtain bl where bl: "list_all blank bl" "lx_cursor lx = bl @ spell t @ 32 # tokens_text ts @ 0 # stale"
    "lx_line lx = line"
    using assms(1) by (auto simp: before_def tokens_text_def)
  obtain tok lx' where l: "lexer_next_token lx = Done (tok, LEXER_OK, lx')" "tok_type tok = t" "tok_line tok = line"
    "lx_line lx' = line" "lx_cursor lx' = 32 # tokens_text ts @ 0 # stale"
    using lexer_next_token_spell [OF assms(2) bl(1,2) separators(1)] bl(3) by (auto simp: lexes_def)
  have "before line ts stale lx'"
    unfolding before_def using l(4,5) by (auto intro!: exI [of _ "[32]"] simp: blank_def)
  with l show ?thesis by blast
qed

lemma next_token_end:
  assumes "before line [] stale lx"
  shows "\<exists>tok lx'. lexer_next_token lx = Done (tok, LEXER_OK, lx') \<and> tok_type tok = TOKEN_NEWLINE \<and>
    tok_line tok = line \<and> at_nul line stale lx'"
proof -
  obtain bl where bl: "list_all blank bl" "lx_cursor lx = bl @ spell TOKEN_NEWLINE @ 0 # stale" "lx_line lx = line"
    using assms by (auto simp: before_def tokens_text_def)
  then show ?thesis
    using lexer_next_token_spell [of TOKEN_NEWLINE bl lx 0 stale] separators by (auto simp: lexes_def at_nul_def)
qed

lemma next_token_nul:
  "at_nul line stale lx \<Longrightarrow> \<exists>tok lx'. lexer_next_token lx = Done (tok, LEXER_OK, lx') \<and> tok_type tok = TOKEN_EOF \<and>
    tok_line tok = line"
  by (auto simp: at_nul_def lexer_next_token_def lex_at_def punctuation_def)

lemma next_end:
  assumes "before line [] stale lx"
  obtains tok lx' where "lexer_next_token lx = Done (tok, LEXER_OK, lx')" "tok_type tok = TOKEN_NEWLINE"
    "tok_line tok = line" "at_nul line stale lx'"
  using next_token_end [OF assms] by blast

lemma next_tok:
  assumes "before line (t # ts) stale lx" "spellable t"
  obtains tok lx' where "lexer_next_token lx = Done (tok, LEXER_OK, lx')" "tok_type tok = t"
    "tok_line tok = line" "before line ts stale lx'"
  using next_token_before [OF assms] by blast

lemmas stepping = next_token_def next_unchecked_def

text \<open>The result of a parsing function that succeeds, and where it leaves the lexer.\<close>

definition parses :: "'a parsed \<Rightarrow> 'a \<Rightarrow> u64 \<Rightarrow> bool" where
  "parses p x line \<longleftrightarrow> (\<exists>tok lx. p = Done (Inr x, tok, lx) \<and> tok_line tok = line)"

definition reads :: "'a parsed \<Rightarrow> 'a \<Rightarrow> u64 \<Rightarrow> TokenType list \<Rightarrow> u8 list \<Rightarrow> bool" where
  "reads p x line rest stale \<longleftrightarrow>
     (\<exists>tok lx. p = Done (Inr x, tok, lx) \<and> tok_line tok = line \<and> before line rest stale lx)"

lemma readsI: "tok_line tok = line \<Longrightarrow> before line rest stale lx \<Longrightarrow> reads (Done (Inr x, tok, lx)) x line rest stale"
  by (simp add: reads_def)

lemma end_types [simp]:
  "isEndOfInstr TOKEN_NEWLINE" "isEndOfInstr TOKEN_EOF" "\<not> isEndOfInstr TOKEN_COMMA" "\<not> isEndOfInstr TOKEN_DOT"
  "\<not> isEndOfInstr (TOKEN_IDENT w)" "\<not> isEndOfInstr (TOKEN_MNEMONIC w)"
  by (simp_all add: isEndOfInstr_def)

lemma chk_parser_Inr [simp]: "chk_parser (Done (Inr x, tok, lx)) k = k x tok lx"
  by (simp add: chk_parser_def)

lemma end_at_end: "before line [] stale lx \<Longrightarrow> parses (next_token lx (at_end x)) x line"
  by (erule next_end) (simp add: stepping at_end_def parses_def)

lemma nul_at_end: "at_nul line stale lx \<Longrightarrow> parses (next_token lx (at_end x)) x line"
  using next_token_nul [of line stale lx] by (auto simp: stepping at_end_def parses_def)

section \<open>Numbers\<close>

lemma unat64: "unat (v :: u64) < 2 ^ 64"
  using unsigned_less [of v] by simp

lemma unat_minus64: "unat v \<noteq> 0 \<Longrightarrow> unat (- v :: u64) = 2 ^ 64 - unat v"
proof -
  assume v: "unat v \<noteq> 0"
  have "unat (- v + v) = (unat (- v) + unat v) mod 2 ^ 64" by (simp only: unat_word_ariths) simp
  then have "(unat (- v) + unat v) mod 2 ^ 64 = 0" by simp
  then have "2 ^ 64 dvd unat (- v) + unat v" by (rule mod_0_imp_dvd)
  moreover have "0 < unat (- v) + unat v" "unat (- v) + unat v < 2 * 2 ^ 64"
    using v unat64 [of v] unat64 [of "- v"] by linarith+
  ultimately have "unat (- v) + unat v = 2 ^ 64" by (auto elim!: dvdE simp: mult_less_cancel2)
  then show ?thesis by simp
qed

lemma sint_neg: "sint (v :: u64) < 0 \<longleftrightarrow> 2 ^ 63 \<le> unat v"
  using number_sign [of "unat v"] unat64 [of v] by (cases "unat v < 2 ^ 63") auto

lemma unat_minus_number:
  assumes "number_ok v" "sint v < 0"
  shows "unat (- v) < 2 ^ 63"
proof -
  have v: "2 ^ 63 \<le> unat v" "unat v < 2 ^ 64" using assms(2) sint_neg [of v] unat64 [of v] by simp_all
  have "unat v \<noteq> 2 ^ 63"
  proof
    assume "unat v = 2 ^ 63"
    then have "unat v = unat (0x8000000000000000 :: u64)" by simp
    then have "v = 0x8000000000000000" by (rule unsigned_word_eqI)
    with assms(1) show False by (simp add: number_ok_def)
  qed
  moreover have "unat (- v) = 2 ^ 64 - unat v" using v by (intro unat_minus64) simp
  ultimately show ?thesis using v by simp
qed

lemma spellable_numbers:
  "number_ok v \<Longrightarrow> list_all spellable (minus_number v)" "number_ok v \<Longrightarrow> list_all spellable (plus_number v)"
  using unat_minus_number [of v] sint_neg [of v] by (auto simp: minus_number_def plus_number_def)

lemma name_ok_spellable: "name_ok w \<Longrightarrow> spellable (TOKEN_IDENT w)"
  by (simp add: name_ok_def)

lemma ucast_small: "unat (ucast (r :: u8) :: u64) < 256"
proof -
  have "unat r < 256" using unsigned_less [of r] by simp
  then show ?thesis by (simp add: unsigned_ucast_eq take_bit_nat_eq_self)
qed

lemma ucast_back: "ucast (ucast (r :: u8) :: u64) = r"
  by (rule bit_word_eqI) (simp add: bit_unsigned_iff)

lemma spellable_register: "spellable (TOKEN_REGISTER (ucast (r :: u8)))" "\<not> 255 < (ucast (r :: u8) :: u64)"
  using ucast_small [of r] by (simp_all add: word_less_nat_alt)

section \<open>Operands\<close>

lemma parse_offset_reads:
  assumes "before line (TOKEN_NUMBER v # TOKEN_CLOSE_BRACKET # rest) stale lx" "unat v < 2 ^ 63"
  shows "reads (parse_offset neg ope lx) (set_offset (if neg then - v else v) ope) line rest stale"
proof -
  obtain tok lx1 where 1: "lexer_next_token lx = Done (tok, LEXER_OK, lx1)" "tok_type tok = TOKEN_NUMBER v"
    "before line (TOKEN_CLOSE_BRACKET # rest) stale lx1"
    by (rule next_tok [OF assms(1)]) (use assms(2) in auto)
  obtain tok2 lx2 where 2: "lexer_next_token lx1 = Done (tok2, LEXER_OK, lx2)" "tok_type tok2 = TOKEN_CLOSE_BRACKET"
    "tok_line tok2 = line" "before line rest stale lx2"
    by (rule next_tok [OF 1(3)]) auto
  from 1 2 show ?thesis by (simp add: parse_offset_def stepping reads_def)
qed

text \<open>An offset with its sign, after the base of an indexed operand.\<close>

lemma parse_signed_offset:
  assumes "before line (plus_number off @ TOKEN_CLOSE_BRACKET # rest) stale lx" "number_ok off"
  shows "\<exists>suiv lx'. lexer_next_token lx = Done (suiv, LEXER_OK, lx') \<and>
    (tok_type suiv = TOKEN_MINUS \<or> tok_type suiv = TOKEN_PLUS) \<and>
    reads (parse_offset (tok_type suiv = TOKEN_MINUS) ope lx') (set_offset off ope) line rest stale"
proof (cases "sint off < 0")
  case True
  with assms(1) have b: "before line (TOKEN_MINUS # TOKEN_NUMBER (- off) # TOKEN_CLOSE_BRACKET # rest) stale lx"
    by (simp add: plus_number_def)
  obtain suiv lx' where 1: "lexer_next_token lx = Done (suiv, LEXER_OK, lx')" "tok_type suiv = TOKEN_MINUS"
    "before line (TOKEN_NUMBER (- off) # TOKEN_CLOSE_BRACKET # rest) stale lx'"
    by (rule next_tok [OF b]) auto
  with parse_offset_reads [OF 1(3) unat_minus_number [OF assms(2) True], of True ope] show ?thesis by simp
next
  case False
  with assms(1) have b: "before line (TOKEN_PLUS # TOKEN_NUMBER off # TOKEN_CLOSE_BRACKET # rest) stale lx"
    by (simp add: plus_number_def)
  obtain suiv lx' where 1: "lexer_next_token lx = Done (suiv, LEXER_OK, lx')" "tok_type suiv = TOKEN_PLUS"
    "before line (TOKEN_NUMBER off # TOKEN_CLOSE_BRACKET # rest) stale lx'"
    by (rule next_tok [OF b]) auto
  moreover have "unat off < 2 ^ 63" using False sint_neg [of off] by simp
  ultimately show ?thesis using parse_offset_reads [OF 1(3), of False ope] by simp
qed

text \<open>Between brackets: the first token, then the second, then the rest.\<close>

lemma bracket_step:
  assumes "tok_type tok = TOKEN_OPEN_BRACKET" "lexer_next_token lx = Done (t1, LEXER_OK, lx1)"
    "lexer_next_token lx1 = Done (t2, LEXER_OK, lx2)"
  shows "parse_instrOPE old tok lx = parse_bracket old t1 t2 lx2"
  using assms by (simp add: parse_instrOPE_def stepping)

lemma parse_mem_value:
  assumes "tok_type tok = TOKEN_OPEN_BRACKET" "unat v < 2 ^ 63"
    and "before line (TOKEN_NUMBER v # TOKEN_CLOSE_BRACKET # rest) stale lx"
  shows "reads (parse_instrOPE old tok lx) (OPERAND_MEM_VALUE v) line rest stale"
proof -
  obtain t1 lx1 where 1: "lexer_next_token lx = Done (t1, LEXER_OK, lx1)" "tok_type t1 = TOKEN_NUMBER v"
    "tok_line t1 = line" "before line (TOKEN_CLOSE_BRACKET # rest) stale lx1"
    by (rule next_tok [OF assms(3)]) (use assms(2) in auto)
  obtain t2 lx2 where 2: "lexer_next_token lx1 = Done (t2, LEXER_OK, lx2)" "tok_type t2 = TOKEN_CLOSE_BRACKET"
    "before line rest stale lx2"
    by (rule next_tok [OF 1(4)]) auto
  show ?thesis
    unfolding bracket_step [OF assms(1) 1(1) 2(1)]
    using 1 2 by (simp add: parse_bracket_def isEndOfInstr_def reads_def)
qed

lemma parse_mem_reg:
  assumes "tok_type tok = TOKEN_OPEN_BRACKET"
    and "before line (TOKEN_REGISTER (ucast r) # TOKEN_CLOSE_BRACKET # rest) stale lx"
  shows "reads (parse_instrOPE old tok lx) (OPERAND_MEM_REG r) line rest stale"
proof -
  obtain t1 lx1 where 1: "lexer_next_token lx = Done (t1, LEXER_OK, lx1)" "tok_type t1 = TOKEN_REGISTER (ucast r)"
    "before line (TOKEN_CLOSE_BRACKET # rest) stale lx1"
    by (rule next_tok [OF assms(2) spellable_register(1)])
  obtain t2 lx2 where 2: "lexer_next_token lx1 = Done (t2, LEXER_OK, lx2)" "tok_type t2 = TOKEN_CLOSE_BRACKET"
    "tok_line t2 = line" "before line rest stale lx2"
    by (rule next_tok [OF 1(3)]) auto
  show ?thesis
    unfolding bracket_step [OF assms(1) 1(1) 2(1)]
    using 1 2 by (simp add: parse_bracket_def isEndOfInstr_def reads_def ucast_back)
qed

lemma parse_mem_idx:
  assumes "tok_type tok = TOKEN_OPEN_BRACKET" "number_ok off"
    and "before line (TOKEN_REGISTER (ucast r) # plus_number off @ TOKEN_CLOSE_BRACKET # rest) stale lx"
  shows "reads (parse_instrOPE old tok lx) (OPERAND_MEM_IDX r off) line rest stale"
proof -
  obtain t1 lx1 where 1: "lexer_next_token lx = Done (t1, LEXER_OK, lx1)" "tok_type t1 = TOKEN_REGISTER (ucast r)"
    "before line (plus_number off @ TOKEN_CLOSE_BRACKET # rest) stale lx1"
    by (rule next_tok [OF assms(3) spellable_register(1)])
  obtain t2 lx2 where 2: "lexer_next_token lx1 = Done (t2, LEXER_OK, lx2)"
    "tok_type t2 = TOKEN_MINUS \<or> tok_type t2 = TOKEN_PLUS"
    "reads (parse_offset (tok_type t2 = TOKEN_MINUS) (OPERAND_MEM_IDX r 0) lx2) (OPERAND_MEM_IDX r off) line rest stale"
    using parse_signed_offset [OF 1(3) assms(2), of "OPERAND_MEM_IDX r 0"] by auto
  show ?thesis
    unfolding bracket_step [OF assms(1) 1(1) 2(1)]
    using 1 2 by (auto simp: parse_bracket_def isEndOfInstr_def ucast_back)
qed

lemma parse_mem_idx_ident:
  assumes "tok_type tok = TOKEN_OPEN_BRACKET" "number_ok off" "name_ok w"
    and "before line (TOKEN_IDENT w # plus_number off @ TOKEN_CLOSE_BRACKET # rest) stale lx"
  shows "reads (parse_instrOPE old tok lx) (OPERAND_MEM_IDX_IDENT w off) line rest stale"
proof -
  obtain t1 lx1 where 1: "lexer_next_token lx = Done (t1, LEXER_OK, lx1)" "tok_type t1 = TOKEN_IDENT w"
    "before line (plus_number off @ TOKEN_CLOSE_BRACKET # rest) stale lx1"
    by (rule next_tok [OF assms(4) name_ok_spellable [OF assms(3)]])
  obtain t2 lx2 where 2: "lexer_next_token lx1 = Done (t2, LEXER_OK, lx2)"
    "tok_type t2 = TOKEN_MINUS \<or> tok_type t2 = TOKEN_PLUS"
    "reads (parse_offset (tok_type t2 = TOKEN_MINUS) (OPERAND_MEM_IDX_IDENT w 0) lx2) (OPERAND_MEM_IDX_IDENT w off) line rest stale"
    using parse_signed_offset [OF 1(3) assms(2), of "OPERAND_MEM_IDX_IDENT w 0"] by auto
  show ?thesis
    unfolding bracket_step [OF assms(1) 1(1) 2(1)]
    using 1 2 by (auto simp: parse_bracket_def isEndOfInstr_def)
qed

lemma parse_mem_ident:
  assumes "tok_type tok = TOKEN_OPEN_BRACKET" "name_ok w"
    and "before line [TOKEN_IDENT w, TOKEN_CLOSE_BRACKET] stale lx"
  shows "\<exists>t lx'. parse_instrOPE old tok lx = Done (Inr (OPERAND_MEM_IDENT w), t, lx') \<and> at_nul line stale lx'"
proof -
  obtain t1 lx1 where 1: "lexer_next_token lx = Done (t1, LEXER_OK, lx1)" "tok_type t1 = TOKEN_IDENT w"
    "before line [TOKEN_CLOSE_BRACKET] stale lx1"
    by (rule next_tok [OF assms(3) name_ok_spellable [OF assms(2)]])
  obtain t2 lx2 where 2: "lexer_next_token lx1 = Done (t2, LEXER_OK, lx2)" "tok_type t2 = TOKEN_CLOSE_BRACKET"
    "before line [] stale lx2"
    by (rule next_tok [OF 1(3)]) auto
  obtain t3 lx3 where 3: "lexer_next_token lx2 = Done (t3, LEXER_OK, lx3)" "tok_type t3 = TOKEN_NEWLINE"
    "at_nul line stale lx3"
    by (rule next_end [OF 2(3)])
  show ?thesis
    unfolding bracket_step [OF assms(1) 1(1) 2(1)]
    using 1 2 3 by (simp add: parse_bracket_def isEndOfInstr_def stepping at_end_def)
qed

lemma parse_number:
  assumes "number_ok v" "minus_number v = t # ts" "tok_type tok = t" "tok_line tok = line"
    and "before line (ts @ rest) stale lx"
  shows "reads (parse_instrOPE old tok lx) (OPERAND_VALUE v) line rest stale"
proof (cases "sint v < 0")
  case True
  with assms have b: "before line (TOKEN_NUMBER (- v) # rest) stale lx" and t: "tok_type tok = TOKEN_MINUS"
    by (auto simp: minus_number_def)
  have sp: "spellable (TOKEN_NUMBER (- v))" using unat_minus_number [OF assms(1) True] by simp
  obtain t1 lx1 where 1: "lexer_next_token lx = Done (t1, LEXER_OK, lx1)" "tok_type t1 = TOKEN_NUMBER (- v)"
    "tok_line t1 = line" "before line rest stale lx1"
    by (rule next_tok [OF b sp])
  with t show ?thesis by (simp add: parse_instrOPE_def stepping reads_def)
next
  case False
  with assms have "tok_type tok = TOKEN_NUMBER v" "before line rest stale lx" by (simp_all add: minus_number_def)
  with assms(4) show ?thesis by (simp add: parse_instrOPE_def reads_def)
qed

lemma parse_operand:
  assumes "operand_ok ope" "\<not> is_mem_ident ope" "operand_tokens ope = t # ts"
    and "tok_type tok = t" "tok_line tok = line" "before line (ts @ rest) stale lx"
  shows "reads (parse_instrOPE old tok lx) ope line rest stale"
proof (cases ope)
  case (OPERAND_VALUE v)
  with assms parse_number show ?thesis by simp
next
  case (OPERAND_REG r)
  with assms have "tok_type tok = TOKEN_REGISTER (ucast r)" "before line rest stale lx" by simp_all
  with OPERAND_REG assms(5) spellable_register(2) [of r] show ?thesis
    by (simp add: parse_instrOPE_def reads_def ucast_back)
next
  case (OPERAND_IDENT w)
  with assms have "tok_type tok = TOKEN_IDENT w" "before line rest stale lx" by simp_all
  with OPERAND_IDENT assms(5) show ?thesis by (simp add: parse_instrOPE_def reads_def)
qed (use assms parse_mem_value parse_mem_reg parse_mem_idx parse_mem_idx_ident in auto)

lemma operand_start:
  assumes "operand_ok ope" "ope \<noteq> OPERAND_NONE"
  shows "\<exists>t ts. operand_tokens ope = t # ts \<and> spellable t \<and> \<not> isEndOfInstr t"
proof (cases ope)
  case (OPERAND_VALUE v)
  with assms spellable_numbers(1) [of v] show ?thesis by (auto simp: minus_number_def isEndOfInstr_def)
next
  case (OPERAND_REG r)
  with spellable_register show ?thesis by (auto simp: isEndOfInstr_def)
qed (use assms name_ok_spellable in \<open>auto simp: isEndOfInstr_def\<close>)

section \<open>Lines\<close>

lemma parse_label_line:
  "before line [TOKEN_COLON] stale lx \<Longrightarrow> parses (parse_label name lx) name line"
  by (erule next_tok) (simp_all add: parse_label_def stepping end_at_end [unfolded stepping])

lemma parse_dir_argument:
  assumes "dir_operand_ok v" "before line (operand_tokens v) stale lx"
  shows "parses (next_token lx (parse_dir_arg d)) (d, v) line"
proof (cases v)
  case OPERAND_NONE
  with assms obtain tok lx1 where "lexer_next_token lx = Done (tok, LEXER_OK, lx1)" "tok_type tok = TOKEN_NEWLINE"
    "tok_line tok = line" by (auto elim: next_end)
  with OPERAND_NONE show ?thesis by (simp add: stepping parse_dir_arg_def parses_def)
next
  case (OPERAND_VALUE x)
  show ?thesis
  proof (cases "sint x < 0")
    case True
    with OPERAND_VALUE assms have b: "before line [TOKEN_MINUS, TOKEN_NUMBER (- x)] stale lx"
      by (simp add: minus_number_def)
    have sp: "spellable (TOKEN_NUMBER (- x))"
      using unat_minus_number [of x] True OPERAND_VALUE assms(1) by simp
    obtain t1 lx1 where 1: "lexer_next_token lx = Done (t1, LEXER_OK, lx1)" "tok_type t1 = TOKEN_MINUS"
      "before line [TOKEN_NUMBER (- x)] stale lx1"
      by (rule next_tok [OF b]) auto
    obtain t2 lx2 where 2: "lexer_next_token lx1 = Done (t2, LEXER_OK, lx2)" "tok_type t2 = TOKEN_NUMBER (- x)"
      "before line [] stale lx2"
      by (rule next_tok [OF 1(3) sp])
    from 1 2 end_at_end [OF 2(3), of "(d, v)"] OPERAND_VALUE show ?thesis
      by (simp add: next_token_def [of lx] next_token_def [of lx1] parse_dir_arg_def)
  next
    case False
    with OPERAND_VALUE assms have b: "before line [TOKEN_NUMBER x] stale lx"
      by (simp add: minus_number_def)
    have sp: "spellable (TOKEN_NUMBER x)" using False sint_neg [of x] by simp
    obtain t1 lx1 where 1: "lexer_next_token lx = Done (t1, LEXER_OK, lx1)" "tok_type t1 = TOKEN_NUMBER x"
      "before line [] stale lx1"
      by (rule next_tok [OF b sp])
    from 1 end_at_end [OF 1(3), of "(d, v)"] OPERAND_VALUE show ?thesis
      by (simp add: next_token_def [of lx] parse_dir_arg_def)
  qed
next
  case (OPERAND_IDENT w)
  then have b: "before line [TOKEN_IDENT w] stale lx" "spellable (TOKEN_IDENT w)"
    using assms name_ok_spellable by simp_all
  obtain t1 lx1 where 1: "lexer_next_token lx = Done (t1, LEXER_OK, lx1)" "tok_type t1 = TOKEN_IDENT w"
    "before line [] stale lx1"
    by (rule next_tok [OF b])
  from 1 end_at_end [OF 1(3), of "(d, v)"] OPERAND_IDENT show ?thesis
    by (simp add: next_token_def [of lx] parse_dir_arg_def)
next
  case (OPERAND_STRING str)
  then have b: "before line [TOKEN_STRING (butlast str)] stale lx" "spellable (TOKEN_STRING (butlast str))"
    using assms by (auto dest: in_set_butlastD)
  have str: "butlast str @ [0] = str" using OPERAND_STRING assms(1) append_butlast_last_id [of str] by auto
  obtain t1 lx1 where 1: "lexer_next_token lx = Done (t1, LEXER_OK, lx1)" "tok_type t1 = TOKEN_STRING (butlast str)"
    "before line [] stale lx1"
    by (rule next_tok [OF b])
  from 1 end_at_end [OF 1(3), of "(d, v)"] OPERAND_STRING str show ?thesis
    by (simp add: next_token_def [of lx] parse_dir_arg_def)
qed (use assms in simp_all)

lemma parse_dir_line:
  assumes "d \<noteq> DIR_COUNT" "dir_operand_ok v"
    and "before line (TOKEN_IDENT (the (getDirStr d)) # operand_tokens v) stale lx"
  shows "parses (parse_dir lx) (d, v) line"
proof -
  obtain m where m: "getDirStr d = Some m" "dir_lookup m = d" "m \<noteq> []" "islower (hd m)" "list_all ident_char m"
    using dir_lookup_name [OF assms(1)] by blast
  then have sp: "spellable (TOKEN_IDENT (the (getDirStr d)))" by (cases m) simp_all
  obtain t1 lx1 where 1: "lexer_next_token lx = Done (t1, LEXER_OK, lx1)" "tok_type t1 = TOKEN_IDENT m"
    "before line (operand_tokens v) stale lx1"
    by (rule next_tok [OF assms(3) sp]) (simp add: m(1))
  with parse_dir_argument [OF assms(2) 1(3), of d] m(2) assms(1) show ?thesis
    by (simp add: parse_dir_def next_token_def [of lx] Let_def)
qed

text \<open>The second operand, up to the end of the line.\<close>

lemma parse_last_operand:
  assumes "operand_ok b" "b \<noteq> OPERAND_NONE" "before line (operand_tokens b) stale lx"
  shows "parses (next_token lx (\<lambda>tok lx. chk_parser (parse_instrOPE old tok lx)
    (\<lambda>b tok lx. next_token lx (at_end (x, a, b))))) (x, a, b) line"
proof (cases "is_mem_ident b")
  case True
  then obtain w where w: "b = OPERAND_MEM_IDENT w" by (cases b) auto
  with assms have bf: "before line [TOKEN_OPEN_BRACKET, TOKEN_IDENT w, TOKEN_CLOSE_BRACKET] stale lx" "name_ok w"
    by simp_all
  obtain t1 lx1 where 1: "lexer_next_token lx = Done (t1, LEXER_OK, lx1)" "tok_type t1 = TOKEN_OPEN_BRACKET"
    "before line [TOKEN_IDENT w, TOKEN_CLOSE_BRACKET] stale lx1"
    by (rule next_tok [OF bf(1)]) auto
  obtain t lx2 where "parse_instrOPE old t1 lx1 = Done (Inr b, t, lx2)" "at_nul line stale lx2"
    using parse_mem_ident [OF 1(2) bf(2) 1(3)] w by blast
  with 1(1) nul_at_end [of line stale lx2 "(x, a, b)"] show ?thesis
    by (simp add: next_token_def [of lx] chk_parser_def)
next
  case False
  obtain t ts where t: "operand_tokens b = t # ts" "spellable t" using operand_start [OF assms(1,2)] by blast
  with assms(3) have bf: "before line (t # ts @ []) stale lx" by simp
  obtain t1 lx1 where 1: "lexer_next_token lx = Done (t1, LEXER_OK, lx1)" "tok_type t1 = t" "tok_line t1 = line"
    "before line (ts @ []) stale lx1"
    by (rule next_tok [OF bf t(2)])
  from parse_operand [OF assms(1) False t(1) 1(2-4), of old]
  obtain t2 lx2 where "parse_instrOPE old t1 lx1 = Done (Inr b, t2, lx2)" "before line [] stale lx2"
    by (auto simp: reads_def)
  with 1(1) end_at_end [of line stale lx2 "(x, a, b)"] show ?thesis
    by (simp add: next_token_def [of lx] chk_parser_def)
qed

text \<open>An instruction, from behind its mnemonic.\<close>

lemma parse_instr_line:
  assumes "writable (IR_INSTR l op a b)" "op_lookup m = op" "tok_line tok = line"
    and "before line (operand_tokens a @ (if b = OPERAND_NONE then [] else TOKEN_COMMA # operand_tokens b)) stale lx"
  shows "parses (parse_instr m old_a old_b tok lx) (op, a, b) line"
proof (cases "a = OPERAND_NONE")
  case True
  with assms have b: "b = OPERAND_NONE" "before line [] stale lx" by simp_all
  obtain t1 lx1 where "lexer_next_token lx = Done (t1, LEXER_OK, lx1)" "tok_type t1 = TOKEN_NEWLINE" "tok_line t1 = line"
    by (rule next_end [OF b(2)])
  with True b assms(1,2) show ?thesis by (simp add: parse_instr_def Let_def stepping parses_def)
next
  case False
  let ?rest = "if b = OPERAND_NONE then [] else TOKEN_COMMA # operand_tokens b"
  have ok: "op \<noteq> OP_COUNT" "operand_ok a" "operand_ok b" "b \<noteq> OPERAND_NONE \<longrightarrow> \<not> is_mem_ident a"
    using assms(1) by simp_all
  obtain t ts where t: "operand_tokens a = t # ts" "spellable t" "\<not> isEndOfInstr t"
    using operand_start [OF ok(2) False] by blast
  have bf: "before line (t # ts @ ?rest) stale lx" using assms(4) t(1) by simp
  obtain t1 lx1 where 1: "lexer_next_token lx = Done (t1, LEXER_OK, lx1)" "tok_type t1 = t" "tok_line t1 = line"
    "before line (ts @ ?rest) stale lx1"
    by (rule next_tok [OF bf t(2)])
  show ?thesis
  proof (cases "is_mem_ident a")
    case True
    then obtain w where w: "a = OPERAND_MEM_IDENT w" by (cases a) auto
    have b: "b = OPERAND_NONE" using ok(4) True by blast
    have m1: "tok_type t1 = TOKEN_OPEN_BRACKET" "before line [TOKEN_IDENT w, TOKEN_CLOSE_BRACKET] stale lx1" "name_ok w"
      using 1 t(1) w b ok(2) by auto
    obtain t2 lx2 where 2: "parse_instrOPE old_a t1 lx1 = Done (Inr a, t2, lx2)" "at_nul line stale lx2"
      using parse_mem_ident [OF m1(1,3,2)] w by blast
    obtain t3 lx3 where "lexer_next_token lx2 = Done (t3, LEXER_OK, lx3)" "tok_type t3 = TOKEN_EOF" "tok_line t3 = line"
      using next_token_nul [OF 2(2)] by blast
    with 1(1) 2(1) m1(1) b assms(2) ok(1) show ?thesis
      by (simp add: parse_instr_def Let_def stepping chk_parser_def parses_def isEndOfInstr_def)
  next
    case nm: False
    from parse_operand [OF ok(2) nm t(1) 1(2-4), of old_a]
    obtain t2 lx2 where 2: "parse_instrOPE old_a t1 lx1 = Done (Inr a, t2, lx2)" "before line ?rest stale lx2"
      by (auto simp: reads_def)
    show ?thesis
    proof (cases "b = OPERAND_NONE")
      case True
      then have e: "before line [] stale lx2" using 2(2) by simp
      obtain t3 lx3 where "lexer_next_token lx2 = Done (t3, LEXER_OK, lx3)" "tok_type t3 = TOKEN_NEWLINE" "tok_line t3 = line"
        by (rule next_end [OF e])
      with 1(1,2) 2(1) t(3) True assms(2) ok(1) show ?thesis
        by (simp add: parse_instr_def Let_def stepping chk_parser_def parses_def)
    next
      case b: False
      then have e: "before line (TOKEN_COMMA # operand_tokens b) stale lx2" using 2(2) by simp
      obtain t3 lx3 where 3: "lexer_next_token lx2 = Done (t3, LEXER_OK, lx3)" "tok_type t3 = TOKEN_COMMA"
        "before line (operand_tokens b) stale lx3"
        by (rule next_tok [OF e]) auto
      from parse_last_operand [OF ok(3) b 3(3), of old_b op a]
      show ?thesis
        using 1(1,2) 2(1) 3(1,2) t(3) assms(2) ok(1)
        by (simp add: parse_instr_def Let_def next_token_def [of lx] next_token_def [of lx2])
    qed
  qed
qed

text \<open>A line of source is parsed to its node.\<close>

fun relabel :: "u64 \<Rightarrow> IR_Node \<Rightarrow> IR_Node" where
  "relabel l (IR_INSTR line op a b) = IR_INSTR l op a b"
| "relabel l (IR_LABEL line name) = IR_LABEL l name"
| "relabel l (IR_DIR line d v) = IR_DIR l d v"

lemma parse_line_text:
  assumes "writable n"
  shows "\<exists>lx. parse_line old \<lparr>lx_cursor = line_text n @ 0 # stale, lx_line = line, lx_column = col\<rparr> =
    Done (PARSER_OK, relabel (line + 1) n, lx)"
proof -
  let ?lx = "\<lparr>lx_cursor = line_text n @ 0 # stale, lx_line = line, lx_column = col\<rparr>"
  have b: "before line (node_tokens n) stale ?lx"
    unfolding before_def by (auto simp: line_text_def intro!: exI [of _ "[]"])
  show ?thesis
  proof (cases n)
    case (IR_LABEL l name)
    with assms b have b': "before line (TOKEN_IDENT name # [TOKEN_COLON]) stale ?lx" "spellable (TOKEN_IDENT name)"
      using name_ok_spellable by simp_all
    obtain t lx1 where 1: "lexer_next_token ?lx = Done (t, LEXER_OK, lx1)" "tok_type t = TOKEN_IDENT name"
      "before line [TOKEN_COLON] stale lx1"
      by (rule next_tok [OF b'])
    from parse_label_line [OF 1(3), of name] obtain t2 lx2 where
      "parse_label name lx1 = Done (Inr name, t2, lx2)" "tok_line t2 = line" by (auto simp: parses_def)
    with 1(1,2) IR_LABEL show ?thesis by (simp add: parse_line_def next_token_def)
  next
    case (IR_DIR l d v)
    with assms b have b': "before line (TOKEN_DOT # TOKEN_IDENT (the (getDirStr d)) # operand_tokens v) stale ?lx"
      "d \<noteq> DIR_COUNT" "dir_operand_ok v" by simp_all
    obtain t lx1 where 1: "lexer_next_token ?lx = Done (t, LEXER_OK, lx1)" "tok_type t = TOKEN_DOT"
      "before line (TOKEN_IDENT (the (getDirStr d)) # operand_tokens v) stale lx1"
      by (rule next_tok [OF b'(1)]) auto
    from parse_dir_line [OF b'(2,3) 1(3)] obtain t2 lx2 where
      "parse_dir lx1 = Done (Inr (d, v), t2, lx2)" "tok_line t2 = line" by (auto simp: parses_def)
    with 1(1,2) IR_DIR show ?thesis by (simp add: parse_line_def next_token_def)
  next
    case (IR_INSTR l op a b')
    then obtain m where m: "getOpStr op = Some m" "op_lookup m = op" "m \<noteq> []" "list_all isupper m"
      using op_lookup_name [of op] assms by auto
    with IR_INSTR b have bf: "before line (TOKEN_MNEMONIC m # operand_tokens a @
        (if b' = OPERAND_NONE then [] else TOKEN_COMMA # operand_tokens b')) stale ?lx"
      and sp: "spellable (TOKEN_MNEMONIC m)" by simp_all
    obtain t lx1 where 1: "lexer_next_token ?lx = Done (t, LEXER_OK, lx1)" "tok_type t = TOKEN_MNEMONIC m"
      "tok_line t = line" "before line (operand_tokens a @
        (if b' = OPERAND_NONE then [] else TOKEN_COMMA # operand_tokens b')) stale lx1"
      by (rule next_tok [OF bf sp])
    have "writable (IR_INSTR l op a b')" using assms IR_INSTR by simp
    from parse_instr_line [OF this m(2) 1(3,4), of "slot_a old" "slot_b old"] obtain t2 lx2 where
      "parse_instr m (slot_a old) (slot_b old) t lx1 = Done (Inr (op, a, b'), t2, lx2)" "tok_line t2 = line"
      by (auto simp: parses_def)
    with 1(1,2) IR_INSTR show ?thesis by (simp add: parse_line_def next_token_def)
  qed
qed

section \<open>Files\<close>

lemma digits_no_newline: "list_all isdigit ds \<Longrightarrow> 10 \<notin> set ds"
  by (auto simp: list_all_iff isdigit_def)

lemma spell_no_newline:
  assumes "spellable t" "t \<noteq> TOKEN_NEWLINE"
  shows "10 \<notin> set (spell t)"
proof (cases t)
  case (TOKEN_NUMBER v)
  then show ?thesis using digits_no_newline [OF decimal_digits] by simp
next
  case (TOKEN_REGISTER v)
  then show ?thesis using digits_no_newline [OF decimal_digits] by simp
next
  case (TOKEN_STRING str)
  then show ?thesis by (auto simp: spell_char_def split: if_splits)
next
  case (TOKEN_IDENT w)
  with assms(1) have "list_all ident_char w"
    by (cases w) (auto simp: ident_char_def isalnum_def)
  with TOKEN_IDENT show ?thesis by (auto simp: list_all_iff ident_char_def char_classes)
next
  case (TOKEN_MNEMONIC w)
  with assms(1) show ?thesis by (auto simp: list_all_iff isupper_def)
qed (use assms in auto)

lemma operand_tokens_spellable:
  "operand_ok v \<or> dir_operand_ok v \<Longrightarrow> t \<in> set (operand_tokens v) \<Longrightarrow> spellable t \<and> t \<noteq> TOKEN_NEWLINE"
proof (cases v)
  case (OPERAND_VALUE x)
  then show "operand_ok v \<or> dir_operand_ok v \<Longrightarrow> t \<in> set (operand_tokens v) \<Longrightarrow> ?thesis"
    using spellable_numbers(1) [of x] by (auto simp: minus_number_def list_all_iff split: if_splits)
next
  case (OPERAND_MEM_IDX r x)
  then show "operand_ok v \<or> dir_operand_ok v \<Longrightarrow> t \<in> set (operand_tokens v) \<Longrightarrow> ?thesis"
    using spellable_numbers(2) [of x] spellable_register(1) [of r]
    by (auto simp: plus_number_def list_all_iff split: if_splits)
next
  case (OPERAND_MEM_IDX_IDENT w x)
  then show "operand_ok v \<or> dir_operand_ok v \<Longrightarrow> t \<in> set (operand_tokens v) \<Longrightarrow> ?thesis"
    using spellable_numbers(2) [of x] name_ok_spellable [of w]
    by (auto simp: plus_number_def list_all_iff split: if_splits)
next
  case (OPERAND_STRING str)
  then show "operand_ok v \<or> dir_operand_ok v \<Longrightarrow> t \<in> set (operand_tokens v) \<Longrightarrow> ?thesis"
    by (auto dest: in_set_butlastD)
qed (use spellable_register(1) name_ok_spellable in auto)

lemma node_tokens_spellable:
  assumes "writable n" "t \<in> set (node_tokens n)"
  shows "spellable t \<and> t \<noteq> TOKEN_NEWLINE"
proof (cases n)
  case (IR_LABEL l name)
  with assms name_ok_spellable show ?thesis by auto
next
  case (IR_DIR l d v)
  with assms(1) obtain m where m: "getDirStr d = Some m" "m \<noteq> []" "islower (hd m)" "list_all ident_char m"
    using dir_lookup_name [of d] by (cases "d = DIR_COUNT") auto
  then have "spellable (TOKEN_IDENT m)" by (cases m) simp_all
  with IR_DIR assms m(1) operand_tokens_spellable [of v t] show ?thesis by auto
next
  case (IR_INSTR l op a b)
  with assms(1) obtain m where "getOpStr op = Some m" "m \<noteq> []" "list_all isupper m"
    using op_lookup_name [of op] by (cases "op = OP_COUNT") auto
  with IR_INSTR assms operand_tokens_spellable [of a t] operand_tokens_spellable [of b t] show ?thesis
    by (auto split: if_splits)
qed

lemma line_text_newline:
  assumes "writable n"
  obtains w where "line_text n = w @ [10]" "10 \<notin> set w"
proof
  show "line_text n = concat (map (\<lambda>t. spell t @ [32]) (node_tokens n)) @ [10]"
    by (simp add: line_text_def tokens_text_def)
  show "10 \<notin> set (concat (map (\<lambda>t. spell t @ [32]) (node_tokens n)))"
    using node_tokens_spellable [OF assms] spell_no_newline by auto
qed

lemma fgets_line:
  assumes "writable n" "length (line_text n) \<le> 254"
  shows "fgets (line_text n @ rest) str =
    Some (line_text n @ 0 # drop (length (line_text n) + 1) str, rest)"
proof -
  obtain w where w: "line_text n = w @ [10]" "10 \<notin> set w" using line_text_newline [OF assms(1)] .
  have "list_all (\<lambda>c. c \<noteq> 10) w" using w(2) by (auto simp: list_all_iff)
  then have "takeWhile (\<lambda>c. c \<noteq> 10) (line_text n @ rest) = w"
    using takeWhile_class [of "\<lambda>c. c \<noteq> 10" w 10 rest] by (simp add: w(1))
  then have "line_length (line_text n @ rest) = length (line_text n)"
    using assms(2) w(1) by (simp add: line_length_def INSTR_LEN_def)
  then show ?thesis using w(1) by (simp add: fgets_def Let_def)
qed

text \<open>The nodes of a file, each with the number of its line.\<close>

fun number_lines :: "u64 \<Rightarrow> IR_Node list \<Rightarrow> IR_Node list" where
  "number_lines line [] = []"
| "number_lines line (n # ns) = relabel (line + 1) n # number_lines (line + 1) ns"

definition source_text :: "IR_Node list \<Rightarrow> u8 list" where
  "source_text ns = concat (map line_text ns)"

text \<open>The rounds of the loop: a written line, an empty line, a line that finds the array full.\<close>

lemma parse_loop_line:
  assumes "writable n" "length (line_text n) \<le> 254" "length nodes \<noteq> 128"
  shows "parse_loop junk (line_text n @ rest) str line nodes cur =
    parse_loop junk rest (line_text n @ 0 # drop (length (line_text n) + 1) str) (line + 1)
      (nodes @ [relabel (line + 1) n]) (junk (length nodes + 1))"
proof -
  let ?str = "line_text n @ 0 # drop (length (line_text n) + 1) str"
  obtain lx where "parse_line cur \<lparr>lx_cursor = ?str, lx_line = line, lx_column = 0\<rparr> =
      Done (PARSER_OK, relabel (line + 1) n, lx)"
    using parse_line_text [OF assms(1), of cur] by fastforce
  with fgets_line [OF assms(1,2)] assms(3) show ?thesis by (subst parse_loop.simps) (simp add: NODES_def)
qed

lemma parse_loop_empty_line:
  assumes "length nodes \<noteq> 128"
  shows "parse_loop junk (10 # rest) str line nodes cur =
    parse_loop junk rest (10 # 0 # drop 2 str) (line + 1) nodes zero_slot"
proof -
  let ?lx = "\<lparr>lx_cursor = 10 # 0 # drop 2 str, lx_line = line, lx_column = 0\<rparr>"
  have "before line [] (drop 2 str) ?lx" by (auto simp: before_def tokens_text_def)
  then obtain t lx where "lexer_next_token ?lx = Done (t, LEXER_OK, lx)" "tok_type t = TOKEN_NEWLINE"
    by (rule next_end)
  then have "parse_line cur ?lx = Done (PARSER_EMPTY, slot_node cur, lx)"
    by (simp add: parse_line_def next_token_def isEndOfInstr_def)
  moreover have "fgets (10 # rest) str = Some (10 # 0 # drop 2 str, rest)"
    by (simp add: fgets_def line_length_def INSTR_LEN_def numeral_2_eq_2)
  ultimately show ?thesis using assms by (subst parse_loop.simps) (simp add: NODES_def)
qed

lemma parse_loop_full:
  "content \<noteq> [] \<Longrightarrow> length nodes = 128 \<Longrightarrow> parse_loop junk content str line nodes cur = Undefined"
  by (subst parse_loop.simps) (simp add: fgets_def NODES_def Let_def)

lemma parse_loop_text:
  assumes "list_all (\<lambda>n. writable n \<and> length (line_text n) \<le> 254) ns" "length nodes + length ns \<le> 128"
  shows "parse_loop junk (source_text ns) str line nodes cur = Done (nodes @ number_lines line ns)"
  using assms
proof (induction ns arbitrary: str line nodes cur)
  case Nil
  then show ?case by (subst parse_loop.simps) (simp add: source_text_def fgets_def)
next
  case (Cons n ns)
  have "source_text (n # ns) = line_text n @ source_text ns" by (simp add: source_text_def)
  with Cons show ?case by (simp add: parse_loop_line)
qed

text \<open>Files with empty lines among the written ones: a line holds a node or none.\<close>

fun entry_text :: "IR_Node option \<Rightarrow> u8 list" where
  "entry_text None = [10]"
| "entry_text (Some n) = line_text n"

fun number_entries :: "u64 \<Rightarrow> IR_Node option list \<Rightarrow> IR_Node list" where
  "number_entries line [] = []"
| "number_entries line (None # es) = number_entries (line + 1) es"
| "number_entries line (Some n # es) = relabel (line + 1) n # number_entries (line + 1) es"

definition entry_ok :: "IR_Node option \<Rightarrow> bool" where
  "entry_ok e \<longleftrightarrow> (case e of None \<Rightarrow> True | Some n \<Rightarrow> writable n \<and> length (line_text n) \<le> 254)"

definition stored :: "IR_Node option list \<Rightarrow> nat" where
  "stored es = length (filter (\<lambda>e. e \<noteq> None) es)"

lemma stored_Cons [simp]: "stored [] = 0" "stored (e # es) = (if e = None then 0 else 1) + stored es"
  by (simp_all add: stored_def)

lemma entry_round:
  assumes "entry_ok e" "length nodes \<noteq> 128"
  obtains str' cur' where "parse_loop junk (entry_text e @ rest) str line nodes cur =
    parse_loop junk rest str' (line + 1) (nodes @ number_entries line [e]) cur'"
proof (cases e)
  case None
  with that parse_loop_empty_line [OF assms(2)] show ?thesis by simp
next
  case (Some n)
  with assms(1) have "writable n" "length (line_text n) \<le> 254" by (simp_all add: entry_ok_def)
  from that Some parse_loop_line [OF this assms(2)] show ?thesis by simp
qed

lemma number_entries_Cons: "number_entries line (e # es) = number_entries line [e] @ number_entries (line + 1) es"
  by (cases e) simp_all

lemma length_number_entries: "length (number_entries line es) = stored es"
  by (induction line es rule: number_entries.induct) simp_all

lemma parse_loop_entries:
  "list_all entry_ok es \<Longrightarrow> es = [] \<or> length nodes + stored (butlast es) < 128 \<Longrightarrow> length nodes \<le> 128 \<Longrightarrow>
    parse_loop junk (concat (map entry_text es)) str line nodes cur = Done (nodes @ number_entries line es)"
proof (induction es arbitrary: str line nodes cur)
  case Nil
  then show ?case by (subst parse_loop.simps) (simp add: fgets_def)
next
  case (Cons e es)
  then have e: "entry_ok e" "length nodes \<noteq> 128" by (auto split: if_splits)
  let ?nodes = "nodes @ number_entries line [e]"
  have "length ?nodes = length nodes + (if e = None then 0 else 1)"
    using length_number_entries [of line "[e]"] by simp
  with Cons.prems e(2) have n: "es = [] \<or> length ?nodes + stored (butlast es) < 128" "length ?nodes \<le> 128"
    by (auto split: if_splits)
  obtain str' cur' where "parse_loop junk (entry_text e @ concat (map entry_text es)) str line nodes cur =
      parse_loop junk (concat (map entry_text es)) str' (line + 1) ?nodes cur'"
    by (rule entry_round [OF e])
  with Cons.IH [OF _ n, of str' "line + 1" cur'] Cons.prems(1) show ?case
    by (simp add: number_entries_Cons [of line e es])
qed

lemma parse_loop_overfull:
  "list_all entry_ok es \<Longrightarrow> length nodes \<le> 128 \<Longrightarrow> 128 \<le> length nodes + stored es \<Longrightarrow> rest \<noteq> [] \<Longrightarrow>
    parse_loop junk (concat (map entry_text es) @ rest) str line nodes cur = Undefined"
proof (induction es arbitrary: str line nodes cur)
  case Nil
  then show ?case by (simp add: parse_loop_full)
next
  case (Cons e es)
  show ?case
  proof (cases "length nodes = 128")
    case True
    with Cons.prems(4) show ?thesis by (simp add: parse_loop_full)
  next
    case False
    let ?nodes = "nodes @ number_entries line [e]"
    have "length ?nodes = length nodes + (if e = None then 0 else 1)"
      using length_number_entries [of line "[e]"] by simp
    with Cons.prems False have n: "length ?nodes \<le> 128" "128 \<le> length ?nodes + stored es"
      by (auto split: if_splits)
    from Cons.prems(1) have e: "entry_ok e" by simp
    obtain str' cur' where "parse_loop junk (entry_text e @ concat (map entry_text es) @ rest) str line nodes cur =
        parse_loop junk (concat (map entry_text es) @ rest) str' (line + 1) ?nodes cur'"
      by (rule entry_round [OF e False])
    with Cons.IH [OF _ n Cons.prems(4), of str' "line + 1" cur'] Cons.prems(1) show ?thesis by simp
  qed
qed

text \<open>A file for the witnesses: \<open>.text\<close>, \<open>s :\<close>, \<open>LD R0 , 7\<close>, \<open>JMP s\<close>, \<open>.entry s\<close>.\<close>

definition listing :: "IR_Node list" where
  "listing = [IR_DIR 1 DIR_TEXT OPERAND_NONE, IR_LABEL 2 [115],
     IR_INSTR 3 OP_LD (OPERAND_REG 0) (OPERAND_VALUE 7),
     IR_INSTR 4 OP_JMP (OPERAND_IDENT [115]) OPERAND_NONE, IR_DIR 5 DIR_ENTRY (OPERAND_IDENT [115])]"

lemma writable_listing: "list_all (\<lambda>n. writable n \<and> length (line_text n) \<le> 254) listing"
  by (simp add: listing_def name_ok_def number_ok_def char_classes line_text_def tokens_text_def
      getOpStr_def op_map_def getDirStr_def dir_map_def minus_number_def decimal.simps)

lemma number_listing: "number_lines 0 listing = listing"
  by (simp add: listing_def)

section \<open>Properties\<close>

text \<open>
  C3: what is written is parsed. A file of at most 128 lines, each written from a node that has a
  source form and at most 254 bytes long, is parsed to exactly these nodes with the numbers of
  their lines, whatever the array of nodes held before.
\<close>

theorem source_roundtrip:
  assumes "list_all (\<lambda>n. writable n \<and> length (line_text n) \<le> 254) ns" "length ns \<le> 128"
  shows "parser junk (Some (concat (map line_text ns))) = Done (number_lines 0 ns)"
  using parse_loop_text [OF assms(1), of "[]"] assms(2) by (simp add: parser_def source_text_def)

theorem source_roundtrip_witness:
  "parser (\<lambda>_. zero_slot) (Some (concat (map line_text listing))) = Done listing"
  using source_roundtrip [OF writable_listing, of "\<lambda>_. zero_slot"] number_listing by (simp add: listing_def)

text \<open>
  C38: the array of nodes holds 128 and does not grow. Take a file of written lines, of at most 254
  bytes each, and empty lines anywhere between. As long as fewer than 128 nodes stand before its last
  line, it is parsed to exactly its nodes with the numbers of their lines. Once 128 nodes are stored, any
  further line is undefined, whatever it is, an empty line included: the code calls \<open>realloc\<close> with
  \<open>2 * prog_size\<close>, a number of elements, as the number of bytes, drops the pointer that it returns
  and forms \<open>&IRList[i]\<close> from the one that it took before the line is parsed.
\<close>

theorem node_capacity:
  assumes "list_all entry_ok es"
  shows "(stored (butlast es) < 128 \<longrightarrow>
      parser junk (Some (concat (map entry_text es))) = Done (number_entries 0 es)) \<and>
    (128 \<le> stored es \<and> rest \<noteq> [] \<longrightarrow>
      parser junk (Some (concat (map entry_text es) @ rest)) = Undefined)"
  using parse_loop_entries [OF assms, of "[]"] parse_loop_overfull [OF assms, of "[]" rest]
  by (simp add: parser_def)

theorem node_capacity_witness:
  "parser (\<lambda>_. zero_slot) (Some (concat (replicate 128 (line_text (IR_DIR 0 DIR_TEXT OPERAND_NONE))) @ [10])) = Undefined \<and>
   (\<exists>ns. parser (\<lambda>_. zero_slot) (Some (10 # concat (replicate 128 (line_text (IR_DIR 0 DIR_TEXT OPERAND_NONE))))) = Done ns \<and>
     length ns = 128)"
proof -
  let ?e = "Some (IR_DIR 0 DIR_TEXT OPERAND_NONE)"
  have len: "length (line_text (IR_DIR 0 DIR_TEXT OPERAND_NONE)) \<le> 254"
    by (simp add: line_text_def tokens_text_def getDirStr_def dir_map_def)
  then have ok: "list_all entry_ok (replicate 128 ?e)" "list_all entry_ok (None # replicate 128 ?e)"
    by (auto simp: entry_ok_def list_all_iff)
  have st: "stored (replicate 128 ?e) = 128" "stored (butlast (None # replicate 128 ?e)) = 127"
    "length (number_entries 0 (None # replicate 128 ?e)) = 128"
    by (simp_all add: stored_def length_number_entries butlast_conv_take)
  show ?thesis
    using node_capacity [OF ok(1), of "\<lambda>_. zero_slot" "[10]"] node_capacity [OF ok(2), of "\<lambda>_. zero_slot" "[]"] st
    by (simp add: map_replicate)
qed

text \<open>
  a token names every operation, or directive, whose name it begins: a proper prefix of a
  mnemonic is accepted as the first operation of the table that starts with it.
\<close>

theorem names_by_prefix:
  "(op_lookup w \<noteq> OP_COUNT \<longleftrightarrow> (\<exists>op m. getOpStr op = Some m \<and> take (length w) m = w)) \<and>
   (dir_lookup w \<noteq> DIR_COUNT \<longleftrightarrow> (\<exists>d m. getDirStr d = Some m \<and> take (length w) m = w)) \<and>
   (op = OP_COUNT \<or> op_lookup (the (getOpStr op)) = op) \<and>
   (d = DIR_COUNT \<or> dir_lookup (the (getDirStr d)) = d) \<and>
   op_lookup (bytes_of ''J'') = OP_JMP \<and> dir_lookup (bytes_of ''s'') = DIR_STRING"
proof (intro conjI)
  show "op_lookup w \<noteq> OP_COUNT \<longleftrightarrow> (\<exists>op m. getOpStr op = Some m \<and> take (length w) m = w)"
    unfolding op_lookup_iff using op_names by auto
  show "dir_lookup w \<noteq> DIR_COUNT \<longleftrightarrow> (\<exists>d m. getDirStr d = Some m \<and> take (length w) m = w)"
    unfolding dir_lookup_iff using dir_names by auto
  show "op = OP_COUNT \<or> op_lookup (the (getOpStr op)) = op"
    using op_lookup_name [of op] by (cases "op = OP_COUNT") auto
  show "d = DIR_COUNT \<or> dir_lookup (the (getDirStr d)) = d"
    using dir_lookup_name [of d] by (cases "d = DIR_COUNT") auto
  show "op_lookup (bytes_of ''J'') = OP_JMP" "dir_lookup (bytes_of ''s'') = DIR_STRING"
    by (simp_all add: op_lookup_def op_map_def dir_lookup_def dir_map_def strncmp_equal_def)
qed

text \<open>
  a line that starts with a token that can start none is reported to no one. The parser takes
  the element of the array as the node of the line, with whatever it held, and goes on.
\<close>

theorem bad_line_accepted:
  assumes "fgets content str = Some (str', rest)" "length nodes < 128"
    and "lexer_next_token \<lparr>lx_cursor = str', lx_line = line, lx_column = 0\<rparr> = Done (tok, LEXER_OK, lx)"
    and "\<not> isEndOfInstr (tok_type tok)" "tok_type tok \<noteq> TOKEN_DOT"
    and "\<forall>w. tok_type tok \<noteq> TOKEN_IDENT w \<and> tok_type tok \<noteq> TOKEN_MNEMONIC w"
  shows "parse_loop junk content str line nodes cur =
    parse_loop junk rest str' (line + 1) (nodes @ [slot_node cur]) (junk (length nodes + 1))"
proof -
  have "\<exists>e lx'. e \<noteq> PARSER_EMPTY \<and>
      parse_line cur \<lparr>lx_cursor = str', lx_line = line, lx_column = 0\<rparr> = Done (e, slot_node cur, lx')"
    using assms(3-6) by (cases "tok_type tok") (auto simp: parse_line_def next_token_def)
  then show ?thesis
    using assms(1,2) by (subst parse_loop.simps) (auto simp: NODES_def)
qed

theorem bad_line_accepted_witness:
  "parse_loop (\<lambda>_. zero_slot) [44, 10] (replicate 256 0) 0 [] zero_slot =
    Done [IR_INSTR 0 OP_ADD OPERAND_NONE OPERAND_NONE]"
proof -
  let ?str = "[44, 10, 0] @ replicate 253 0 :: u8 list"
  have f: "fgets [44, 10] (replicate 256 0) = Some (?str, [])"
    by (simp add: fgets_def line_length_def INSTR_LEN_def)
  have l: "lexer_next_token \<lparr>lx_cursor = ?str, lx_line = 0, lx_column = 0\<rparr> =
      Done (\<lparr>tok_type = TOKEN_COMMA, tok_line = 0, tok_column = 0\<rparr>, LEXER_OK,
        \<lparr>lx_cursor = tl ?str, lx_line = 0, lx_column = 1\<rparr>)"
    by (simp add: lexer_next_token_def lex_at_def punctuation_def token_def)
  have "parse_loop (\<lambda>_. zero_slot) [44, 10] (replicate 256 0) 0 [] zero_slot =
      parse_loop (\<lambda>_. zero_slot) [] ?str (0 + 1) ([] @ [slot_node zero_slot]) zero_slot"
    by (rule bad_line_accepted [OF f _ l]) (simp_all add: isEndOfInstr_def)
  then show ?thesis
    by (simp only:) (subst parse_loop.simps, simp add: fgets_def zero_slot_def)
qed

text \<open>
  a register in brackets is not checked: \<open>[R256]\<close> is \<open>[R0]\<close>, while \<open>R256\<close> alone is refused.
\<close>

theorem bracket_register_truncated:
  assumes "tok_type t1 = TOKEN_REGISTER r" "tok_type t2 = TOKEN_CLOSE_BRACKET"
  shows "parse_bracket old t1 t2 lx = Done (Inr (OPERAND_MEM_REG (ucast r)), t2, lx)"
    and "255 < r \<Longrightarrow> parse_instrOPE old t1 lx = Done (Inl PARSER_INVALID_REGISTER, t1, lx)"
  using assms by (simp_all add: parse_bracket_def parse_instrOPE_def isEndOfInstr_def)

text \<open>A negative address in brackets is a syntax error.\<close>

lemma negative_address_refused:
  "tok_type t1 = TOKEN_MINUS \<Longrightarrow> parse_bracket old t1 t2 lx \<noteq> Done (Inr ope, tok, lx')"
  by (cases "tok_type t2") (simp_all add: parse_bracket_def isEndOfInstr_def Let_def)

text \<open>
  A label in brackets takes one token too many: at the end of a file without a newline the next one
  is read behind the NUL, from an earlier line.
\<close>

lemma label_operand_reads_on:
  "parse_line zero_slot \<lparr>lx_cursor = bytes_of ''PUSH [x]'' @ [0, 44, 0, 0], lx_line = 0, lx_column = 0\<rparr> = Exit_failure"
  by code_simp

lemma label_operand_stale_end:
  "returns (\<lambda>_. True) (parse_line zero_slot \<lparr>lx_cursor = bytes_of ''PUSH [x]'' @ [0, 0, 0], lx_line = 0, lx_column = 0\<rparr>)"
  by code_simp

text \<open>Two signs and a number in brackets pass for an operand, which stays what the element held.\<close>

lemma signs_as_operand:
  "returns (\<lambda>(status, n, lx). status = PARSER_OK \<and> n = IR_INSTR 1 OP_PUSH (OPERAND_REG 9) OPERAND_NONE)
     (parse_line (zero_slot\<lparr>slot_a := OPERAND_REG 9\<rparr>)
       \<lparr>lx_cursor = bytes_of ''PUSH [+ + 5]'' @ [0, 0], lx_line = 0, lx_column = 0\<rparr>)"
  by code_simp

end
