(* ===== verification/Grammar.thy ===== *)
theory Grammar
  imports Source
begin

text \<open>
  The language of the parser. The lexer turns a line into a list of tokens; a recogniser on such
  lists is what the parsing functions compute over the lexer, and the lines it accepts are given by
  a grammar.
\<close>

unbundle bit_operations_syntax

section \<open>Lines of tokens\<close>

text \<open>The lexer never changes the number of the line.\<close>

definition on_line :: "u64 \<Rightarrow> Token \<times> LexerError \<times> Lexer \<Rightarrow> bool" where
  "on_line line r \<longleftrightarrow> (case r of (tok, st, lx) \<Rightarrow> tok_line tok = line \<and> lx_line lx = line)"

lemma lex_rest_line: "post (on_line (lx_line lx)) (lex_rest c lx)"
  by (auto simp: lex_rest_def lex_number_def lex_string_def lex_word_def on_line_def post_iff obind_Done_iff Let_def
      split: if_splits)

lemma lex_at_line: "post (on_line (lx_line lx)) (lex_at c lx)"
  using lex_rest_line [of lx]
  by (auto simp: lex_at_def lex_comment_def lex_register_def on_line_def post_iff obind_Done_iff Let_def
      split: option.splits if_splits list.splits)

lemma lexer_next_token_line: "post (on_line (lx_line lx)) (lexer_next_token lx)"
  unfolding lexer_next_token_def
  by (intro post_obind)
    (use lex_at_line in \<open>force simp: post_iff on_line_def\<close>)

text \<open>
  \<open>stream line ts lx\<close>: the lexer, on line \<open>line\<close>, reads the tokens \<open>ts\<close>, none of them the end, and
  then twice the end of the line: a newline and the NUL behind it, or a newline after a comment,
  which stays unread.
\<close>

definition ended :: "u64 \<Rightarrow> Lexer \<Rightarrow> bool" where
  "ended line lx \<longleftrightarrow> (\<exists>tok lx'. lexer_next_token lx = Done (tok, LEXER_OK, lx') \<and>
     isEndOfInstr (tok_type tok) \<and> tok_line tok = line)"

fun stream :: "u64 \<Rightarrow> TokenType list \<Rightarrow> Lexer \<Rightarrow> bool" where
  "stream line [] lx \<longleftrightarrow> (\<exists>tok lx'. lexer_next_token lx = Done (tok, LEXER_OK, lx') \<and>
     isEndOfInstr (tok_type tok) \<and> tok_line tok = line \<and> ended line lx')"
| "stream line (t # ts) lx \<longleftrightarrow> (\<exists>tok lx'. lexer_next_token lx = Done (tok, LEXER_OK, lx') \<and>
     tok_type tok = t \<and> \<not> isEndOfInstr t \<and> tok_line tok = line \<and> stream line ts lx')"

text \<open>What a parsing function may assume of the next token.\<close>

lemma stream_unchecked:
  assumes "stream line ts lx"
    and "\<And>tok lx'. ts = [] \<Longrightarrow> tok_type tok = TOKEN_NEWLINE \<or> tok_type tok = TOKEN_EOF \<Longrightarrow> tok_line tok = line \<Longrightarrow>
      ended line lx' \<Longrightarrow> P (k tok lx')"
    and "\<And>t ts' tok lx'. ts = t # ts' \<Longrightarrow> tok_type tok = t \<Longrightarrow> t \<noteq> TOKEN_NEWLINE \<Longrightarrow> t \<noteq> TOKEN_EOF \<Longrightarrow>
      tok_line tok = line \<Longrightarrow> stream line ts' lx' \<Longrightarrow> P (k tok lx')"
  shows "P (next_unchecked lx k)"
  using assms by (cases ts) (fastforce simp: next_unchecked_def isEndOfInstr_def)+

lemma stream_token:
  assumes "stream line ts lx"
    and "\<And>tok lx'. ts = [] \<Longrightarrow> tok_type tok = TOKEN_NEWLINE \<or> tok_type tok = TOKEN_EOF \<Longrightarrow> tok_line tok = line \<Longrightarrow>
      ended line lx' \<Longrightarrow> P (k tok lx')"
    and "\<And>t ts' tok lx'. ts = t # ts' \<Longrightarrow> tok_type tok = t \<Longrightarrow> t \<noteq> TOKEN_NEWLINE \<Longrightarrow> t \<noteq> TOKEN_EOF \<Longrightarrow>
      tok_line tok = line \<Longrightarrow> stream line ts' lx' \<Longrightarrow> P (k tok lx')"
  shows "P (next_token lx k)"
  using assms by (cases ts) (fastforce simp: next_token_def isEndOfInstr_def)+

lemma ended_token:
  assumes "ended line lx"
    and "\<And>tok lx'. tok_type tok = TOKEN_NEWLINE \<or> tok_type tok = TOKEN_EOF \<Longrightarrow> tok_line tok = line \<Longrightarrow> P (k tok lx')"
  shows "P (next_token lx k)"
  using assms by (fastforce simp: ended_def next_token_def isEndOfInstr_def)

section \<open>The recogniser\<close>

fun ref_offset :: "bool \<Rightarrow> Operand \<Rightarrow> TokenType list \<Rightarrow> (Operand \<times> TokenType list) option" where
  "ref_offset neg ope (TOKEN_NUMBER v # TOKEN_CLOSE_BRACKET # ts) = Some (set_offset (if neg then - v else v) ope, ts)"
| "ref_offset neg ope ts = None"

definition ref_base :: "Operand \<Rightarrow> Operand \<Rightarrow> TokenType \<Rightarrow> TokenType list \<Rightarrow> (Operand \<times> TokenType list) option" where
  "ref_base simple indexed t ts =
     (if t = TOKEN_PLUS then ref_offset False indexed ts
      else if t = TOKEN_MINUS then ref_offset True indexed ts
      else if t = TOKEN_CLOSE_BRACKET then Some (simple, ts)
      else None)"

fun ref_bracket :: "Operand \<Rightarrow> TokenType list \<Rightarrow> (Operand \<times> TokenType list) option" where
  "ref_bracket old (t1 # t2 # ts) =
     (case t1 of
        TOKEN_NUMBER v \<Rightarrow> if t2 = TOKEN_CLOSE_BRACKET then Some (OPERAND_MEM_VALUE v, ts) else None
      | TOKEN_REGISTER r \<Rightarrow> ref_base (OPERAND_MEM_REG (ucast r)) (OPERAND_MEM_IDX (ucast r) 0) t2 ts
      | TOKEN_IDENT w \<Rightarrow>
          if t2 = TOKEN_CLOSE_BRACKET \<and> ts \<noteq> [] then None
          else ref_base (OPERAND_MEM_IDENT w) (OPERAND_MEM_IDX_IDENT w 0) t2 ts
      | TOKEN_PLUS \<Rightarrow> ref_offset False old ts
      | TOKEN_MNEMONIC w \<Rightarrow> ref_offset False old ts
      | TOKEN_STRING str \<Rightarrow> ref_offset False old ts
      | _ \<Rightarrow> None)"
| "ref_bracket old ts = None"

fun ref_operand :: "Operand \<Rightarrow> TokenType list \<Rightarrow> (Operand \<times> TokenType list) option" where
  "ref_operand old (t # ts) =
     (case t of
        TOKEN_IDENT w \<Rightarrow> Some (OPERAND_IDENT w, ts)
      | TOKEN_NUMBER v \<Rightarrow> Some (OPERAND_VALUE v, ts)
      | TOKEN_MINUS \<Rightarrow> (case ts of TOKEN_NUMBER v # ts \<Rightarrow> Some (OPERAND_VALUE (- v), ts) | _ \<Rightarrow> None)
      | TOKEN_REGISTER r \<Rightarrow> if r > 255 then None else Some (OPERAND_REG (ucast r), ts)
      | TOKEN_OPEN_BRACKET \<Rightarrow> ref_bracket old ts
      | _ \<Rightarrow> None)"
| "ref_operand old [] = None"

section \<open>The parsing functions compute the recogniser\<close>

text \<open>
  A parsing function against the recogniser: they fail together; otherwise the results agree and the
  lexer is before the rest of the tokens, possibly with the end of the line already read.
\<close>

definition at_rest :: "u64 \<Rightarrow> TokenType list \<Rightarrow> Lexer \<Rightarrow> bool" where
  "at_rest line ts lx \<longleftrightarrow> stream line ts lx \<or> ts = [] \<and> ended line lx"

fun agrees :: "u64 \<Rightarrow> (Operand \<times> TokenType list) option \<Rightarrow> Operand parsed \<Rightarrow> bool" where
  "agrees line None p \<longleftrightarrow> (\<exists>e r. p = Done (Inl e, r))"
| "agrees line (Some (a, ts)) p \<longleftrightarrow> (\<exists>tok lx. p = Done (Inr a, tok, lx) \<and> at_rest line ts lx)"

lemma parse_offset_agrees:
  assumes "stream line ts lx"
  shows "agrees line (ref_offset neg ope ts) (parse_offset neg ope lx)"
  unfolding parse_offset_def
proof (rule stream_unchecked [OF assms], goal_cases)
  case (2 t ts1 tok lx1)
  show ?case
  proof (cases t)
    case (TOKEN_NUMBER v)
    have "agrees line (ref_offset neg ope (TOKEN_NUMBER v # ts1)) (next_unchecked lx1 (\<lambda>tok lx.
        if tok_type tok \<noteq> TOKEN_CLOSE_BRACKET then Done (Inl PARSER_SYNTAX_ERROR, tok, lx)
        else Done (Inr (set_offset (if neg then - v else v) ope), tok, lx)))"
    proof (rule stream_unchecked [OF 2(6)], goal_cases)
      case (2 t2 ts2 tok lx2)
      then show ?case by (cases t2) (auto simp: at_rest_def)
    qed auto
    with 2 TOKEN_NUMBER show ?thesis by simp
  qed (use 2 in auto)
qed auto

lemma ref_base_agrees:
  assumes "stream line ts lx"
  shows "agrees line (ref_base simple indexed t ts)
    (if t = TOKEN_MINUS \<or> t = TOKEN_PLUS then parse_offset (t = TOKEN_MINUS) indexed lx
     else if t \<noteq> TOKEN_CLOSE_BRACKET then Done (Inl PARSER_SYNTAX_ERROR, suiv, lx)
     else Done (Inr simple, suiv, lx))"
  using parse_offset_agrees [OF assms, of _ indexed] assms by (auto simp: ref_base_def at_rest_def)

lemma parse_bracket_agrees:
  assumes "stream line ts lx" "tok_type tok = t1" "tok_type suiv = t2"
    and "\<not> isEndOfInstr t1" "\<not> isEndOfInstr t2"
  shows "agrees line (ref_bracket old (t1 # t2 # ts)) (parse_bracket old tok suiv lx)"
proof (cases t1)
  case (TOKEN_IDENT w)
  have end_ok: "agrees line (if ts \<noteq> [] then None else Some (OPERAND_MEM_IDENT w, ts))
      (next_token lx (at_end (OPERAND_MEM_IDENT w)))"
    by (rule stream_token [OF assms(1)]) (auto simp: at_end_def at_rest_def isEndOfInstr_def)
  show ?thesis
    using assms TOKEN_IDENT end_ok ref_base_agrees [OF assms(1), of "OPERAND_MEM_IDENT w" "OPERAND_MEM_IDX_IDENT w 0" t2 suiv]
    by (auto simp: parse_bracket_def ref_base_def Let_def)
next
  case (TOKEN_REGISTER r)
  show ?thesis
    using assms TOKEN_REGISTER
      ref_base_agrees [OF assms(1), of "OPERAND_MEM_REG (ucast r)" "OPERAND_MEM_IDX (ucast r) 0" t2 suiv]
    by (auto simp: parse_bracket_def Let_def)
qed (use assms parse_offset_agrees [OF assms(1), of False old] in
    \<open>auto simp: parse_bracket_def Let_def at_rest_def isEndOfInstr_def split: TokenType.splits\<close>)

lemma parse_instrOPE_agrees:
  assumes "stream line ts lx" "tok_type tok = t" "\<not> isEndOfInstr t"
  shows "agrees line (ref_operand old (t # ts)) (parse_instrOPE old tok lx)"
proof (cases t)
  case TOKEN_OPEN_BRACKET
  have "agrees line (ref_bracket old ts)
    (next_token lx (\<lambda>tok lx. next_token lx (\<lambda>suiv lx. parse_bracket old tok suiv lx)))"
  proof (rule stream_token [OF assms(1)], goal_cases)
    case (1 tok lx1)
    show ?case by (rule ended_token [OF 1(4)]) (use 1 in \<open>auto simp: parse_bracket_def isEndOfInstr_def Let_def\<close>)
  next
    case (2 t1 ts1 tok lx1)
    note outer = 2
    show ?case
    proof (rule stream_token [OF outer(6)], goal_cases)
      case (1 suiv lx2)
      with outer show ?case by (auto simp: parse_bracket_def isEndOfInstr_def Let_def)
    next
      case (2 t2 ts2 suiv lx2)
      with outer parse_bracket_agrees [of line ts2 lx2 tok t1 suiv t2 old] show ?case by (simp add: isEndOfInstr_def)
    qed
  qed
  with assms TOKEN_OPEN_BRACKET show ?thesis by (simp add: parse_instrOPE_def)
next
  case TOKEN_MINUS
  have "agrees line (case ts of TOKEN_NUMBER v # ts \<Rightarrow> Some (OPERAND_VALUE (- v), ts) | _ \<Rightarrow> None)
    (next_token lx (\<lambda>tok lx. case tok_type tok of
       TOKEN_NUMBER v \<Rightarrow> Done (Inr (OPERAND_VALUE (- v)), tok, lx)
     | _ \<Rightarrow> Done (Inl PARSER_SYNTAX_ERROR, tok, lx)))"
    by (rule stream_token [OF assms(1)]) (auto simp: at_rest_def split: TokenType.splits)
  with assms TOKEN_MINUS show ?thesis by (simp add: parse_instrOPE_def)
qed (use assms in \<open>auto simp: parse_instrOPE_def at_rest_def isEndOfInstr_def\<close>)

fun ref_arg :: "TokenType list \<Rightarrow> Operand option" where
  "ref_arg [] = Some OPERAND_NONE"
| "ref_arg [t] =
     (case t of
        TOKEN_NUMBER v \<Rightarrow> Some (OPERAND_VALUE v)
      | TOKEN_IDENT w \<Rightarrow> Some (OPERAND_IDENT w)
      | TOKEN_STRING str \<Rightarrow> Some (OPERAND_STRING (str @ [0]))
      | _ \<Rightarrow> None)"
| "ref_arg [t, u] =
     (case u of TOKEN_NUMBER v \<Rightarrow> if t = TOKEN_MINUS then Some (OPERAND_VALUE (- v)) else None | _ \<Rightarrow> None)"
| "ref_arg ts = None"

lemma ref_arg_simple:
  "t \<noteq> TOKEN_MINUS \<Longrightarrow> ref_arg (t # ts) = (if ts = [] then ref_arg [t] else None)"
  by (cases ts; cases "tl ts") (auto split: TokenType.splits)

text \<open>A function that parses the rest of a line accepts what the recogniser accepts.\<close>

fun decides :: "u64 \<Rightarrow> 'a option \<Rightarrow> 'a parsed \<Rightarrow> bool" where
  "decides line None p \<longleftrightarrow> p = Exit_failure \<or> (\<exists>e r. p = Done (Inl e, r))"
| "decides line (Some x) p \<longleftrightarrow> (\<exists>tok lx. p = Done (Inr x, tok, lx) \<and> tok_line tok = line)"

lemma at_end_decides:
  assumes "at_rest line ts lx"
  shows "decides line (if ts = [] then Some x else None) (next_token lx (at_end x))"
proof (cases "stream line ts lx")
  case True
  then show ?thesis by (rule stream_token) (auto simp: at_end_def isEndOfInstr_def)
next
  case False
  with assms have "ts = []" "ended line lx" by (auto simp: at_rest_def)
  from this(2) show ?thesis by (rule ended_token) (auto simp: at_end_def isEndOfInstr_def \<open>ts = []\<close>)
qed

lemma at_end_stream: "stream line ts lx \<Longrightarrow> decides line (if ts = [] then Some x else None) (next_token lx (at_end x))"
  by (rule at_end_decides) (simp add: at_rest_def)

lemma at_end_pair:
  "stream line ts lx \<Longrightarrow>
    decides line (map_option (Pair d) (if ts = [] then Some v else None)) (next_token lx (at_end (d, v)))"
  using at_end_stream [of line ts lx "(d, v)"] by (cases "ts = []") simp_all

lemma parse_dir_arg_decides:
  assumes "stream line ts lx" "tok_type tok = t" "\<not> isEndOfInstr t"
  shows "decides line (map_option (Pair d) (ref_arg (t # ts))) (parse_dir_arg d tok lx)"
proof (cases t)
  case TOKEN_MINUS
  have "decides line (map_option (Pair d) (ref_arg (TOKEN_MINUS # ts))) (next_token lx (\<lambda>tok lx.
      case tok_type tok of
        TOKEN_NUMBER v \<Rightarrow> next_token lx (at_end (d, OPERAND_VALUE (- v)))
      | _ \<Rightarrow> Done (Inl PARSER_SYNTAX_ERROR, tok, lx)))"
  proof (rule stream_token [OF assms(1)], goal_cases)
    case (2 u ts1 tok lx1)
    then show ?case
      using at_end_stream [OF 2(6), of "(d, OPERAND_VALUE (- v))" for v] by (cases u; cases ts1) auto
  qed auto
  with assms(2) TOKEN_MINUS show ?thesis by (simp add: parse_dir_arg_def)
qed (use assms in \<open>simp_all add: parse_dir_arg_def ref_arg_simple isEndOfInstr_def at_end_pair [OF assms(1)]
    split del: if_split cong: if_cong\<close>)

lemma parse_dir_decides:
  assumes "stream line ts lx"
  shows "decides line
    (case ts of TOKEN_IDENT w # ts \<Rightarrow> if dir_lookup w = DIR_COUNT then None else map_option (Pair (dir_lookup w)) (ref_arg ts)
     | _ \<Rightarrow> None) (parse_dir lx)"
  unfolding parse_dir_def
proof (rule stream_token [OF assms], goal_cases)
  case (2 t ts1 tok lx1)
  have "decides line (map_option (Pair d) (ref_arg ts1)) (next_token lx1 (parse_dir_arg d))" for d
  proof (rule stream_token [OF 2(6)], goal_cases)
    case (2 u ts2 tok lx2)
    then show ?case using parse_dir_arg_decides [of line ts2 lx2 tok u d] by (simp add: isEndOfInstr_def)
  qed (auto simp: parse_dir_arg_def isEndOfInstr_def)
  with 2 show ?case by (cases t) (auto simp: Let_def)
qed auto

lemma parse_label_decides:
  assumes "stream line ts lx"
  shows "decides line (if ts = [TOKEN_COLON] then Some name else None) (parse_label name lx)"
  unfolding parse_label_def
proof (rule stream_token [OF assms], goal_cases)
  case (2 t ts1 tok lx1)
  with at_end_stream [OF 2(6), of name] show ?case by auto
qed (auto simp: isEndOfInstr_def)

lemma parse_second_decides:
  assumes "stream line ts lx"
  shows "decides line (case ref_operand old ts of Some (b, []) \<Rightarrow> Some (op, a, b) | _ \<Rightarrow> None)
    (next_token lx (\<lambda>tok lx. chk_parser (parse_instrOPE old tok lx) (\<lambda>b tok lx. next_token lx (at_end (op, a, b)))))"
proof (rule stream_token [OF assms], goal_cases)
  case (2 t ts1 tok lx1)
  then have *: "agrees line (ref_operand old ts) (parse_instrOPE old tok lx1)"
    using parse_instrOPE_agrees [of line ts1 lx1 tok t old] by (simp add: isEndOfInstr_def)
  show ?case
  proof (cases "ref_operand old ts")
    case None
    with * show ?thesis by (auto simp: chk_parser_def)
  next
    case (Some r)
    obtain b rest where r: "r = (b, rest)" by (cases r)
    with * Some obtain tok2 lx2 where "parse_instrOPE old tok lx1 = Done (Inr b, tok2, lx2)" "at_rest line rest lx2"
      by auto
    with at_end_decides [OF this(2), of "(op, a, b)"] Some r show ?thesis by (cases rest) (simp_all add: chk_parser_def)
  qed
qed (auto simp: parse_instrOPE_def chk_parser_def)

lemma parse_first_decides:
  assumes "at_rest line rest lx"
  shows "decides line
    (case rest of [] \<Rightarrow> Some (op, a, OPERAND_NONE)
     | t # ts \<Rightarrow> if t \<noteq> TOKEN_COMMA then None
        else (case ref_operand old_b ts of Some (b, []) \<Rightarrow> Some (op, a, b) | _ \<Rightarrow> None))
    (next_token lx (\<lambda>tok lx.
       if \<not> isEndOfInstr (tok_type tok) \<and> tok_type tok \<noteq> TOKEN_COMMA then
         if isSyntaxElement (tok_type tok) then Done (Inl PARSER_SYNTAX_ERROR, tok, lx)
         else Done (Inl PARSER_TOO_MANY_OPE, tok, lx)
       else if isEndOfInstr (tok_type tok) then Done (Inr (op, a, OPERAND_NONE), tok, lx)
       else next_token lx (\<lambda>tok lx.
         chk_parser (parse_instrOPE old_b tok lx) (\<lambda>b tok lx. next_token lx (at_end (op, a, b))))))"
proof (cases "stream line rest lx")
  case True
  show ?thesis
    by (rule stream_token [OF True])
      (use parse_second_decides [where old = old_b and op = op and a = a] in \<open>auto simp: isEndOfInstr_def\<close>)
next
  case False
  with assms have "rest = []" "ended line lx" by (auto simp: at_rest_def)
  from this(2) show ?thesis by (rule ended_token) (auto simp: isEndOfInstr_def \<open>rest = []\<close>)
qed

definition ref_instr_of :: "OP_CODE \<Rightarrow> Operand \<Rightarrow> Operand \<Rightarrow> TokenType list \<Rightarrow> (OP_CODE \<times> Operand \<times> Operand) option" where
  "ref_instr_of op old_a old_b ts =
     (if ts = [] then Some (op, OPERAND_NONE, OPERAND_NONE)
      else case ref_operand old_a ts of
          None \<Rightarrow> None
        | Some (a, rest) \<Rightarrow>
            (case rest of [] \<Rightarrow> Some (op, a, OPERAND_NONE)
             | t # ts \<Rightarrow> if t \<noteq> TOKEN_COMMA then None
                else (case ref_operand old_b ts of Some (b, []) \<Rightarrow> Some (op, a, b) | _ \<Rightarrow> None)))"

lemma parse_instr_decides:
  assumes "stream line ts lx"
  shows "decides line (if op_lookup w = OP_COUNT then None else ref_instr_of (op_lookup w) old_a old_b ts)
    (parse_instr w old_a old_b tok lx)"
proof (cases "op_lookup w = OP_COUNT")
  case False
  show ?thesis
    unfolding parse_instr_def Let_def if_not_P [OF False]
  proof (rule stream_token [OF assms], goal_cases)
    case (2 t ts1 tok lx1)
    then have *: "agrees line (ref_operand old_a ts) (parse_instrOPE old_a tok lx1)"
      using parse_instrOPE_agrees [of line ts1 lx1 tok t old_a] by (simp add: isEndOfInstr_def)
    have ne: "\<not> isEndOfInstr (tok_type tok)" using 2 by (simp add: isEndOfInstr_def)
    show ?case
    proof (cases "ref_operand old_a ts")
      case None
      with * ne 2(1) show ?thesis by (auto simp: chk_parser_def ref_instr_of_def)
    next
      case (Some r)
      obtain a rest where r: "r = (a, rest)" by (cases r)
      with * Some obtain tok2 lx2 where "parse_instrOPE old_a tok lx1 = Done (Inr a, tok2, lx2)" "at_rest line rest lx2"
        by auto
      with parse_first_decides [OF this(2), of "op_lookup w" a old_b] Some r ne 2(1) show ?thesis
        by (simp only: ref_instr_of_def) (simp add: chk_parser_def)
    qed
  qed (auto simp: ref_instr_of_def isEndOfInstr_def)
qed (simp add: parse_instr_def)

section \<open>The grammar\<close>

text \<open>
  The operands of instructions. The last rule is an accident: \<open>old\<close> is what the node held before.
\<close>

inductive operand_form :: "Operand \<Rightarrow> TokenType list \<Rightarrow> Operand \<Rightarrow> bool" for old where
  ident: "operand_form old [TOKEN_IDENT w] (OPERAND_IDENT w)"
| number: "operand_form old [TOKEN_NUMBER v] (OPERAND_VALUE v)"
| negative: "operand_form old [TOKEN_MINUS, TOKEN_NUMBER v] (OPERAND_VALUE (- v))"
| register: "r \<le> 255 \<Longrightarrow> operand_form old [TOKEN_REGISTER r] (OPERAND_REG (ucast r))"
| mem_value: "operand_form old [TOKEN_OPEN_BRACKET, TOKEN_NUMBER v, TOKEN_CLOSE_BRACKET] (OPERAND_MEM_VALUE v)"
| mem_ident: "operand_form old [TOKEN_OPEN_BRACKET, TOKEN_IDENT w, TOKEN_CLOSE_BRACKET] (OPERAND_MEM_IDENT w)"
| mem_reg: "operand_form old [TOKEN_OPEN_BRACKET, TOKEN_REGISTER r, TOKEN_CLOSE_BRACKET] (OPERAND_MEM_REG (ucast r))"
| mem_idx: "operand_form old [TOKEN_OPEN_BRACKET, TOKEN_REGISTER r, TOKEN_PLUS, TOKEN_NUMBER v, TOKEN_CLOSE_BRACKET]
    (OPERAND_MEM_IDX (ucast r) v)"
| mem_idx_neg: "operand_form old [TOKEN_OPEN_BRACKET, TOKEN_REGISTER r, TOKEN_MINUS, TOKEN_NUMBER v, TOKEN_CLOSE_BRACKET]
    (OPERAND_MEM_IDX (ucast r) (- v))"
| mem_idx_ident: "operand_form old [TOKEN_OPEN_BRACKET, TOKEN_IDENT w, TOKEN_PLUS, TOKEN_NUMBER v, TOKEN_CLOSE_BRACKET]
    (OPERAND_MEM_IDX_IDENT w v)"
| mem_idx_ident_neg: "operand_form old [TOKEN_OPEN_BRACKET, TOKEN_IDENT w, TOKEN_MINUS, TOKEN_NUMBER v, TOKEN_CLOSE_BRACKET]
    (OPERAND_MEM_IDX_IDENT w (- v))"
| stale: "t1 = TOKEN_PLUS \<or> (\<exists>w. t1 = TOKEN_MNEMONIC w \<or> t1 = TOKEN_STRING w) \<Longrightarrow>
    operand_form old [TOKEN_OPEN_BRACKET, t1, t2, TOKEN_NUMBER v, TOKEN_CLOSE_BRACKET] (set_offset v old)"

text \<open>The operands of directives.\<close>

inductive arg_form :: "TokenType list \<Rightarrow> Operand \<Rightarrow> bool" where
  "arg_form [] OPERAND_NONE"
| "arg_form [TOKEN_NUMBER v] (OPERAND_VALUE v)"
| "arg_form [TOKEN_MINUS, TOKEN_NUMBER v] (OPERAND_VALUE (- v))"
| "arg_form [TOKEN_IDENT w] (OPERAND_IDENT w)"
| "arg_form [TOKEN_STRING str] (OPERAND_STRING (str @ [0]))"

text \<open>
  The lines. A label in brackets is no first of two operands.
\<close>

inductive line_form :: "slot \<Rightarrow> u64 \<Rightarrow> TokenType list \<Rightarrow> IR_Node \<Rightarrow> bool" for old line where
  label: "line_form old line [TOKEN_IDENT w, TOKEN_COLON] (IR_LABEL line w)"
| directive: "dir_lookup w \<noteq> DIR_COUNT \<Longrightarrow> arg_form xs v \<Longrightarrow>
    line_form old line (TOKEN_DOT # TOKEN_IDENT w # xs) (IR_DIR line (dir_lookup w) v)"
| operation: "op_lookup w \<noteq> OP_COUNT \<Longrightarrow>
    line_form old line [TOKEN_MNEMONIC w] (IR_INSTR line (op_lookup w) OPERAND_NONE OPERAND_NONE)"
| operation1: "op_lookup w \<noteq> OP_COUNT \<Longrightarrow> operand_form (slot_a old) xs a \<Longrightarrow>
    line_form old line (TOKEN_MNEMONIC w # xs) (IR_INSTR line (op_lookup w) a OPERAND_NONE)"
| operation2: "op_lookup w \<noteq> OP_COUNT \<Longrightarrow> operand_form (slot_a old) xs a \<Longrightarrow> operand_form (slot_b old) ys b \<Longrightarrow>
    (\<And>v. xs \<noteq> [TOKEN_OPEN_BRACKET, TOKEN_IDENT v, TOKEN_CLOSE_BRACKET]) \<Longrightarrow>
    line_form old line (TOKEN_MNEMONIC w # xs @ TOKEN_COMMA # ys) (IR_INSTR line (op_lookup w) a b)"

lemma ref_arg_iff: "ref_arg ts = Some v \<longleftrightarrow> arg_form ts v"
  by (induction ts rule: ref_arg.induct) (auto simp: arg_form.simps split: TokenType.splits)

lemma ref_offset_Some:
  "ref_offset neg ope ts = Some (a, rest) \<longleftrightarrow>
    (\<exists>v. ts = TOKEN_NUMBER v # TOKEN_CLOSE_BRACKET # rest \<and> a = set_offset (if neg then - v else v) ope)"
  by (induction neg ope ts rule: ref_offset.induct) auto

text \<open>An operand at the front of a list of tokens.\<close>

definition operand_front :: "Operand \<Rightarrow> TokenType list \<Rightarrow> Operand \<Rightarrow> TokenType list \<Rightarrow> bool" where
  "operand_front old ts a rest \<longleftrightarrow> (\<exists>xs. ts = xs @ rest \<and> operand_form old xs a \<and>
     (\<forall>v. xs = [TOKEN_OPEN_BRACKET, TOKEN_IDENT v, TOKEN_CLOSE_BRACKET] \<longrightarrow> rest = []))"

lemma operand_frontI:
  "operand_form old xs a \<Longrightarrow> (\<And>v. xs = [TOKEN_OPEN_BRACKET, TOKEN_IDENT v, TOKEN_CLOSE_BRACKET] \<Longrightarrow> rest = []) \<Longrightarrow>
    operand_front old (xs @ rest) a rest"
  by (auto simp: operand_front_def)

lemmas fronts = operand_form.intros [THEN operand_frontI, simplified]

lemma ref_bracket_front:
  assumes "ref_bracket old ts = Some (a, rest)"
  shows "operand_front old (TOKEN_OPEN_BRACKET # ts) a rest"
proof -
  obtain t1 t2 ts1 where ts: "ts = t1 # t2 # ts1" using assms by (cases ts; cases "tl ts") auto
  show ?thesis
    using assms fronts unfolding ts
    by (cases t1) (auto simp: ref_base_def ref_offset_Some split: if_splits)
qed

lemma ref_operand_front:
  assumes "ref_operand old ts = Some (a, rest)"
  shows "operand_front old ts a rest"
proof -
  obtain t ts1 where ts: "ts = t # ts1" using assms by (cases ts) auto
  show ?thesis
    using assms ref_bracket_front [of old ts1 a rest] fronts(1-4) unfolding ts
    by (cases t) (auto simp: not_less split: if_splits list.splits TokenType.splits)
qed

lemma form_ref_operand:
  assumes "operand_form old xs a"
    and "\<And>v. xs = [TOKEN_OPEN_BRACKET, TOKEN_IDENT v, TOKEN_CLOSE_BRACKET] \<Longrightarrow> rest = []"
  shows "ref_operand old (xs @ rest) = Some (a, rest)"
  using assms by cases (auto simp: ref_base_def not_less)

lemma operand_form_not_Nil: "operand_form old xs a \<Longrightarrow> xs \<noteq> []"
  by (cases rule: operand_form.cases) auto

lemma ref_instr_of_form:
  assumes "op_lookup w \<noteq> OP_COUNT" "ref_instr_of (op_lookup w) (slot_a old) (slot_b old) ts = Some (op, a, b)"
  shows "line_form old line (TOKEN_MNEMONIC w # ts) (IR_INSTR line op a b)"
proof (cases "ts = []")
  case True
  with assms show ?thesis by (auto simp: ref_instr_of_def intro: line_form.intros)
next
  case False
  with assms(2) obtain a' rest where r: "ref_operand (slot_a old) ts = Some (a', rest)"
    by (auto simp: ref_instr_of_def split: option.splits)
  obtain xs where xs: "ts = xs @ rest" "operand_form (slot_a old) xs a'"
    "\<forall>v. xs = [TOKEN_OPEN_BRACKET, TOKEN_IDENT v, TOKEN_CLOSE_BRACKET] \<longrightarrow> rest = []"
    using ref_operand_front [OF r] by (auto simp: operand_front_def)
  show ?thesis
  proof (cases rest)
    case Nil
    with assms r xs(1,2) False show ?thesis by (auto simp: ref_instr_of_def intro: line_form.operation1)
  next
    case (Cons t ys)
    with assms(2) r False have *: "t = TOKEN_COMMA" "ref_operand (slot_b old) ys = Some (b, [])" "op = op_lookup w" "a = a'"
      by (auto simp: ref_instr_of_def split: if_splits option.splits list.splits)
    have "operand_form (slot_b old) ys b" using ref_operand_front [OF *(2)] by (auto simp: operand_front_def)
    with assms(1) xs * Cons show ?thesis by (auto intro!: line_form.operation2)
  qed
qed

lemma form_ref_instr_of:
  assumes "line_form old line (TOKEN_MNEMONIC w # ts) n"
  shows "op_lookup w \<noteq> OP_COUNT \<and> (\<exists>op a b. ref_instr_of (op_lookup w) (slot_a old) (slot_b old) ts = Some (op, a, b) \<and>
    n = IR_INSTR line op a b)"
  using assms
proof cases
  case (operation1 a)
  from form_ref_operand [OF operation1(3), of "[]"] operand_form_not_Nil [OF operation1(3)] operation1 show ?thesis
    by (simp add: ref_instr_of_def)
next
  case (operation2 xs a ys b)
  have "ref_operand (slot_a old) (xs @ TOKEN_COMMA # ys) = Some (a, TOKEN_COMMA # ys)"
    by (rule form_ref_operand [OF operation2(4)]) (use operation2(6) in blast)
  moreover have "ref_operand (slot_b old) ys = Some (b, [])"
    using form_ref_operand [OF operation2(5), of "[]"] by simp
  ultimately show ?thesis using operation2(1-3) by (simp add: ref_instr_of_def)
qed (simp add: ref_instr_of_def)

lemma dir_form_iff:
  "line_form old line (TOKEN_DOT # ts) n \<longleftrightarrow>
    (\<exists>w xs v. ts = TOKEN_IDENT w # xs \<and> dir_lookup w \<noteq> DIR_COUNT \<and> ref_arg xs = Some v \<and>
      n = IR_DIR line (dir_lookup w) v)"
  by (auto simp: ref_arg_iff line_form.simps)

lemma label_form_iff:
  "line_form old line (TOKEN_IDENT w # ts) n \<longleftrightarrow> ts = [TOKEN_COLON] \<and> n = IR_LABEL line w"
  by (auto simp: line_form.simps)

lemma mnemonic_form_iff:
  "line_form old line (TOKEN_MNEMONIC w # ts) n \<longleftrightarrow> op_lookup w \<noteq> OP_COUNT \<and>
    (\<exists>op a b. ref_instr_of (op_lookup w) (slot_a old) (slot_b old) ts = Some (op, a, b) \<and> n = IR_INSTR line op a b)"
  using form_ref_instr_of ref_instr_of_form by blast

lemma no_form:
  "line_form old line (t # ts) n \<Longrightarrow> t = TOKEN_DOT \<or> (\<exists>w. t = TOKEN_IDENT w \<or> t = TOKEN_MNEMONIC w)"
  "\<not> line_form old line [] n"
  by (auto elim: line_form.cases)

section \<open>Lines\<close>

lemma chk_decides:
  assumes "decides line res p" "res = None \<Longrightarrow> \<not> Q"
    and "\<And>x tok lx. res = Some x \<Longrightarrow> tok_line tok = line \<Longrightarrow>
      (\<exists>lx'. k x tok lx = Done (PARSER_OK, n, lx')) \<longleftrightarrow> Q"
  shows "(\<exists>lx'. chk_parser p k = Done (PARSER_OK, n :: IR_Node, lx' :: Lexer)) \<longleftrightarrow> Q"
proof (cases res)
  case (Some x)
  with assms(1) obtain tok lx where "p = Done (Inr x, tok, lx)" "tok_line tok = line" by auto
  with assms(3) [OF Some] show ?thesis by simp
qed (use assms(1,2) in \<open>auto simp: chk_parser_def\<close>)

lemma parse_line_form:
  assumes "stream line ts lx"
  shows "(\<exists>lx'. parse_line old lx = Done (PARSER_OK, n, lx')) \<longleftrightarrow> line_form old (line + 1) ts n"
  unfolding parse_line_def
proof (rule stream_token [OF assms], goal_cases)
  case (2 t ts1 tok lx1)
  have "(\<exists>lx'. chk_parser (parse_dir lx1) (\<lambda>(d, v) tok lx. Done (PARSER_OK, IR_DIR (tok_line tok + 1) d v, lx)) =
      Done (PARSER_OK, n, lx')) \<longleftrightarrow> line_form old (line + 1) (TOKEN_DOT # ts1) n"
    by (rule chk_decides [OF parse_dir_decides [OF 2(6)]])
      (auto simp: dir_form_iff split: list.splits TokenType.splits if_splits)
  moreover have "(\<exists>lx'. chk_parser (parse_label w lx1) (\<lambda>name tok lx. Done (PARSER_OK, IR_LABEL (tok_line tok + 1) name, lx)) =
      Done (PARSER_OK, n, lx')) \<longleftrightarrow> line_form old (line + 1) (TOKEN_IDENT w # ts1) n" for w
    by (rule chk_decides [OF parse_label_decides [OF 2(6)]]) (auto simp: label_form_iff split: if_splits)
  moreover have "(\<exists>lx'. chk_parser (parse_instr w (slot_a old) (slot_b old) tok lx1)
        (\<lambda>(op, a, b) tok lx. Done (PARSER_OK, IR_INSTR (tok_line tok + 1) op a b, lx)) =
      Done (PARSER_OK, n, lx')) \<longleftrightarrow> line_form old (line + 1) (TOKEN_MNEMONIC w # ts1) n" for w
    by (rule chk_decides [OF parse_instr_decides [OF 2(6)]]) (auto simp: mnemonic_form_iff split: if_splits)
  ultimately show ?case
    using 2 no_form(1) [of old "line + 1" t ts1 n] by (cases t) (auto simp: isEndOfInstr_def)
qed (auto simp: isEndOfInstr_def no_form(2))

definition line_outcome :: "bool \<Rightarrow> (ParserError \<times> IR_Node \<times> Lexer) outcome \<Rightarrow> bool" where
  "line_outcome e r \<longleftrightarrow> r = Exit_failure \<or> returns (\<lambda>(status, n, lx). status = PARSER_EMPTY \<longleftrightarrow> e) r"

lemma line_outcome_simps [simp]:
  "line_outcome e Exit_failure" "line_outcome e (Done (status, n, lx)) \<longleftrightarrow> (status = PARSER_EMPTY \<longleftrightarrow> e)"
  by (simp_all add: line_outcome_def)

lemma chk_outcome:
  assumes "decides line res p" "\<And>x tok lx. line_outcome e (k x tok lx)"
  shows "line_outcome e (chk_parser p k)"
  using assms(1,2) by (cases res) (auto simp: chk_parser_def)

lemma parse_line_outcome:
  assumes "stream line ts lx"
  shows "line_outcome (ts = []) (parse_line old lx)"
  unfolding parse_line_def
proof (rule stream_token [OF assms], goal_cases)
  case (2 t ts1 tok lx1)
  then show ?case
    by (cases t) (auto simp: isEndOfInstr_def intro: chk_outcome [OF parse_dir_decides]
        chk_outcome [OF parse_label_decides] chk_outcome [OF parse_instr_decides] split: prod.splits)
qed (auto simp: isEndOfInstr_def)

lemma stream_text:
  "list_all (\<lambda>t. spellable t \<and> \<not> isEndOfInstr t) ts \<Longrightarrow> before line ts stale lx \<Longrightarrow> stream line ts lx"
proof (induction ts arbitrary: lx)
  case Nil
  then obtain tok lx' where "lexer_next_token lx = Done (tok, LEXER_OK, lx')" "tok_type tok = TOKEN_NEWLINE"
    "tok_line tok = line" "at_nul line stale lx'" by (auto elim: next_end)
  with next_token_nul [of line stale lx'] show ?case by (auto simp: ended_def isEndOfInstr_def)
next
  case (Cons t ts)
  from Cons.prems obtain tok lx' where "lexer_next_token lx = Done (tok, LEXER_OK, lx')" "tok_type tok = t"
    "tok_line tok = line" "before line ts stale lx'" by (auto elim: next_tok)
  with Cons show ?case by auto
qed

lemma parse_line_empty:
  "stream line [] lx \<Longrightarrow> \<exists>lx'. parse_line old lx = Done (PARSER_EMPTY, slot_node old, lx')"
  by (auto simp: parse_line_def next_token_def)

section \<open>Properties\<close>

text \<open>
  C4: the language of the parser. On a line of tokens the parser returns a node if and only if the
  grammar derives it from these tokens; it reports an empty line exactly for no tokens at all; and
  otherwise it reports an error or ends the process, without undefined behaviour.
\<close>

theorem line_language:
  assumes "stream line ts lx"
  shows "((\<exists>lx'. parse_line old lx = Done (PARSER_OK, n, lx')) \<longleftrightarrow> line_form old (line + 1) ts n) \<and>
    ((\<exists>n lx'. parse_line old lx = Done (PARSER_EMPTY, n, lx')) \<longleftrightarrow> ts = []) \<and>
    parse_line old lx \<noteq> Undefined"
  using parse_line_form [OF assms] parse_line_outcome [OF assms, of old] parse_line_empty [of line lx old] assms
  by (auto simp: line_outcome_def)

theorem line_language_witness:
  "\<nexists>n lx'. parse_line zero_slot
      \<lparr>lx_cursor = bytes_of ''PUSH [ - 5 ] '' @ [10, 0], lx_line = 0, lx_column = 0\<rparr> = Done (PARSER_OK, n, lx')"
proof -
  let ?ts = "[TOKEN_MNEMONIC (bytes_of ''PUSH''), TOKEN_OPEN_BRACKET, TOKEN_MINUS, TOKEN_NUMBER 5, TOKEN_CLOSE_BRACKET]"
  let ?lx = "\<lparr>lx_cursor = tokens_text ?ts @ [0], lx_line = 0, lx_column = 0\<rparr>"
  have "list_all (\<lambda>t. spellable t \<and> \<not> isEndOfInstr t) ?ts" by (simp add: isEndOfInstr_def isupper_def)
  moreover have "before 0 ?ts [] ?lx" unfolding before_def by (auto intro: exI [of _ "[]"])
  ultimately have "stream 0 ?ts ?lx" by (rule stream_text)
  from line_language [OF this, of zero_slot]
  have "\<nexists>n lx'. parse_line zero_slot ?lx = Done (PARSER_OK, n, lx')"
    by (auto simp: mnemonic_form_iff ref_instr_of_def ref_base_def)
  then show ?thesis by (simp add: tokens_text_def decimal.simps)
qed

end
