(* ===== verification/Messages.thy ===== *)
theory Messages
  imports Parser Assembler Tokens
begin

text \<open>
  What the programs print, as the bytes they write: tokens, nodes and the machine, and the
  messages of the errors. A C string printed with \<open>%s\<close> ends at its first NUL.
\<close>

unbundle bit_operations_syntax

section \<open>Formats\<close>

definition newline :: "u8 list" where "newline = [10]"

definition percent_s :: "u8 list \<Rightarrow> u8 list" where
  "percent_s str = takeWhile (\<lambda>c. c \<noteq> 0) str"

text \<open>\<open>%lu\<close> and \<open>%hhu\<close>, \<open>%ld\<close>, \<open>%lx\<close>.\<close>

definition percent_u :: "'a::len word \<Rightarrow> u8 list" where
  "percent_u v = decimal (unat v)"

definition percent_ld :: "u64 \<Rightarrow> u8 list" where
  "percent_ld v = (if sint v < 0 then ch CHR ''-'' # decimal (nat (- sint v)) else decimal (nat (sint v)))"

fun hexadecimal :: "nat \<Rightarrow> u8 list" where
  "hexadecimal n =
     (let d = word_of_nat (if n mod 16 < 10 then 48 + n mod 16 else 87 + n mod 16)
      in if n < 16 then [d] else hexadecimal (n div 16) @ [d])"

declare hexadecimal.simps [simp del]

definition percent_x :: "'a::len word \<Rightarrow> u8 list" where
  "percent_x v = hexadecimal (unat v)"

section \<open>Tokens and nodes\<close>

fun printToken :: "TokenType \<Rightarrow> u8 list" where
  "printToken TOKEN_CLOSE_BRACKET = bytes_of ''CLOSE_BRACKET'' @ newline"
| "printToken TOKEN_OPEN_BRACKET = bytes_of ''OPEN_BRACKET'' @ newline"
| "printToken TOKEN_COMMA = bytes_of ''COMMA'' @ newline"
| "printToken TOKEN_DOT = bytes_of ''DOT'' @ newline"
| "printToken TOKEN_COLON = bytes_of ''COLON'' @ newline"
| "printToken TOKEN_MINUS = bytes_of ''MOINS'' @ newline"
| "printToken TOKEN_PLUS = bytes_of ''PLUS'' @ newline"
| "printToken TOKEN_NEWLINE = bytes_of ''NEWLINE'' @ newline"
| "printToken TOKEN_EOF = bytes_of ''EOF'' @ newline"
| "printToken (TOKEN_NUMBER v) = bytes_of ''NUMBER('' @ percent_ld v @ bytes_of '')'' @ newline"
| "printToken (TOKEN_REGISTER r) = bytes_of ''REG('' @ percent_u r @ bytes_of '')'' @ newline"
| "printToken (TOKEN_STRING str) = bytes_of ''STR('' @ str @ bytes_of '')'' @ newline"
| "printToken (TOKEN_MNEMONIC w) = bytes_of ''MNEMONIC('' @ w @ bytes_of '')'' @ newline"
| "printToken (TOKEN_IDENT w) = bytes_of ''IDENTIFIER('' @ w @ bytes_of '')'' @ newline"

fun printinstrOPE :: "Operand \<Rightarrow> u8 list" where
  "printinstrOPE OPERAND_NONE = []"
| "printinstrOPE (OPERAND_IDENT str) = percent_s str @ bytes_of '' ''"
| "printinstrOPE (OPERAND_REG r) = bytes_of ''R'' @ percent_u r"
| "printinstrOPE (OPERAND_VALUE v) = percent_ld v"
| "printinstrOPE (OPERAND_MEM_IDENT str) = bytes_of ''['' @ percent_s str @ bytes_of '']''"
| "printinstrOPE (OPERAND_MEM_REG r) = bytes_of ''[R'' @ percent_u r @ bytes_of '']''"
| "printinstrOPE (OPERAND_MEM_VALUE v) = bytes_of ''['' @ percent_ld v @ bytes_of '']''"
| "printinstrOPE (OPERAND_MEM_IDX r off) =
     bytes_of ''[R'' @ percent_u r @ bytes_of ''+'' @ percent_ld off @ bytes_of '']''"
| "printinstrOPE (OPERAND_MEM_IDX_IDENT str off) =
     bytes_of ''['' @ percent_s str @ bytes_of ''+'' @ percent_ld off @ bytes_of '']''"
| "printinstrOPE (OPERAND_STRING str) = bytes_of ''*''"

text \<open>
  The name of a label is written with \<open>fwrite\<close> in its whole \<open>ident.length\<close>, the NUL included.
  A name that the table does not have is a null pointer for \<open>%s\<close>.
\<close>

fun printIRNode :: "IR_Node \<Rightarrow> u8 list outcome" where
  "printIRNode (IR_DIR line d v) =
     (case getDirStr d of
        None \<Rightarrow> Undefined
      | Some m \<Rightarrow> Done (bytes_of ''DIR : .'' @ m @ bytes_of '' '' @
          (case v of
             OPERAND_STRING str \<Rightarrow> percent_s str
           | OPERAND_IDENT str \<Rightarrow> percent_s str
           | OPERAND_VALUE x \<Rightarrow> percent_ld x
           | OPERAND_NONE \<Rightarrow> bytes_of ''no argument''
           | _ \<Rightarrow> bytes_of ''wrong operand type'') @ newline))"
| "printIRNode (IR_LABEL line name) = Done (bytes_of ''LABEL : '' @ (name @ [0]) @ newline)"
| "printIRNode (IR_INSTR line op a b) =
     (case getOpStr op of
        None \<Rightarrow> Undefined
      | Some m \<Rightarrow> Done (bytes_of ''OP : '' @ m @ bytes_of '' '' @
          (if a = OPERAND_NONE then newline
           else printinstrOPE a @
             (if b = OPERAND_NONE then newline else bytes_of '', '' @ printinstrOPE b @ newline))))"

section \<open>Errors of the tools\<close>

definition at_token :: "u8 list \<Rightarrow> Token \<Rightarrow> string \<Rightarrow> u8 list" where
  "at_token prog tok msg = percent_s prog @ bytes_of '':'' @ percent_u (tok_line tok + 1) @ bytes_of ''.'' @
     percent_u (tok_column tok + 1) @ bytes_of '' : '' @ bytes_of msg @ newline"

fun printParserStatus :: "u8 list \<Rightarrow> ParserError \<Rightarrow> Token \<Rightarrow> u8 list" where
  "printParserStatus prog PARSER_OK tok = percent_s prog @ bytes_of '' OK'' @ newline"
| "printParserStatus prog PARSER_EMPTY tok = newline"
| "printParserStatus prog PARSER_INVALID_REGISTER tok = at_token prog tok ''register number invalid''"
| "printParserStatus prog PARSER_TOO_MANY_OPE tok = at_token prog tok ''too many arguments''"
| "printParserStatus prog PARSER_SYNTAX_ERROR tok = at_token prog tok ''syntax error''"
| "printParserStatus prog PARSER_TOO_FEW_OPE tok = at_token prog tok ''too few arguments''"
| "printParserStatus prog PARSER_UNKNOWN_INSTR tok = at_token prog tok ''unknown instruction''"
| "printParserStatus prog PARSER_UNKNOWN_DIR tok = at_token prog tok ''unknown directive''"
| "printParserStatus prog PARSER_UNKNOWN_OP tok = at_token prog tok ''unknown operation''"
| "printParserStatus prog PARSER_INVALID_ARGS tok = at_token prog tok ''invalid argument''"

fun printLexerStatus :: "u8 list \<Rightarrow> LexerError \<Rightarrow> Token \<Rightarrow> u8 list" where
  "printLexerStatus prog LEXER_OK tok = percent_s prog @ bytes_of '' OK'' @ newline"
| "printLexerStatus prog LEXER_ERROR_MISSING_QUOTE tok = at_token prog tok ''missing quote''"
| "printLexerStatus prog LEXER_INVALID_TOKEN tok = at_token prog tok ''invalid token''"
| "printLexerStatus prog LEXER_UNKNOWN_ESCAPE_SEQUENCE tok = at_token prog tok ''unknown escape sequence''"

fun asm_message :: "AsmError \<Rightarrow> string" where
  "asm_message ASM_OK = ''asm ok''"
| "asm_message ASM_ENTRY_REDEFINED = ''entry point redefined''"
| "asm_message ASM_LABEL_REDEFINED = ''label already exists''"
| "asm_message ASM_LABEL_UNDEFINED = ''label does not exist''"
| "asm_message ASM_SECTION_UNDEFINED = ''section is undefined (directive .text or .data is missing)''"
| "asm_message ASM_TOO_FEW_ARGUMENTS = ''arguments are missing''"
| "asm_message ASM_TOO_MANY_ARGUMENTS = ''expected less arguments''"
| "asm_message ASM_WRONG_ARGUMENT_TYPE = ''wrong argument type''"
| "asm_message ASM_INVALID_ADRESSING_MODE = ''operation does not support this adressing mode''"
| "asm_message ASM_NOT_A_DATA_SECTION = ''should be in a data section''"
| "asm_message ASM_NOT_A_TEXT_SECTION = ''should be in a text section''"

definition printAsmStatus :: "u8 list \<Rightarrow> AsmError \<Rightarrow> u64 \<Rightarrow> u8 list" where
  "printAsmStatus prog status line =
     percent_s prog @ bytes_of '':'' @ percent_u line @ bytes_of '' '' @ bytes_of (asm_message status) @ newline"

section \<open>The machine\<close>

text \<open>
  \<open>memcpy(str, literal, n)\<close> into the 64 bytes of \<open>malloc\<close>: the bytes of the block it sets. The
  source is in UTF-8.
\<close>

definition copy_literal :: "u8 list \<Rightarrow> nat \<Rightarrow> u8 list outcome" where
  "copy_literal literal n =
     (if n \<le> length literal + 1 \<and> n \<le> 64 then Done (take n (literal @ [0])) else Undefined)"

definition e_acute :: "u8 list" where "e_acute = [0xC3, 0xA9]"
definition e_grave :: "u8 list" where "e_grave = [0xC3, 0xA8]"

fun errorToString :: "VM_Error \<Rightarrow> u8 list outcome" where
  "errorToString VM_OK = copy_literal (bytes_of ''VM OK'') 6"
| "errorToString VM_DIV_ZERO = copy_literal (bytes_of ''Division par zero'') 18"
| "errorToString VM_INSTR_PRIV =
     copy_literal (bytes_of ''Instruction privil'' @ e_acute @ bytes_of ''gi'' @ e_acute @ bytes_of ''e'') 26"
| "errorToString VM_INSTR_TRAP = copy_literal (bytes_of ''Instruction TRAP'') 17"
| "errorToString VM_ILL_MEM_ACCESS =
     copy_literal (bytes_of ''Acc'' @ e_grave @ bytes_of ''s m'' @ e_acute @ bytes_of ''moire ill'' @ e_acute @
       bytes_of ''gal'') 25"
| "errorToString VM_ILL_REGISTER = copy_literal (bytes_of ''Registre invalide'') 18"
| "errorToString VM_STACK_UNDERFLOW = copy_literal (bytes_of ''Stack Underflow'') 16"
| "errorToString VM_STACK_OVERFLOW = copy_literal (bytes_of ''Stack Overflow'') 15"
| "errorToString VM_INVALID_JMP = copy_literal (bytes_of ''Jump hors du segment de code'') 29"
| "errorToString VM_CODE_LOAD_OUT_OF_BOUNDS = copy_literal (bytes_of ''Espace du segment code insuffisant'') 35"
| "errorToString VM_DATA_LOAD_OUT_OF_BOUNDS = copy_literal (bytes_of ''Espace du segment data insuffisant'') 35"
| "errorToString VM_INVALID_EXECUTION_ADDRESS = copy_literal (bytes_of ''PC pointe hors du segment de code'') 34"
| "errorToString VM_TRUNCATED_INSTR = copy_literal (bytes_of ''Instruction tronqu'' @ e_acute @ bytes_of ''e'') 22"
| "errorToString VM_UNKNOWN_INSTR = copy_literal (bytes_of ''Instruction ind'' @ e_acute @ bytes_of ''finie'') 23"
| "errorToString VM_UNKNOWN_SYSCALL = copy_literal (bytes_of ''Syscall ind'' @ e_acute @ bytes_of ''fini'') 18"
| "errorToString VM_HEAP_OUT_OF_MEMORY = copy_literal (bytes_of ''Heap is out of memory'') 22"
| "errorToString VM_MEM_ALREADY_FREE = copy_literal (bytes_of ''Memory if already free'') 23"
| "errorToString VM_OUT_OF_THE_HEAP = copy_literal (bytes_of ''Address points out of the heap'') 31"
| "errorToString VM_FREE_OUT_OF_THE_HEAP = copy_literal (bytes_of ''Tried to free memory out of the heap'') 37"

definition print_register :: "nat \<Rightarrow> u64 \<Rightarrow> u8 list" where
  "print_register i v = bytes_of ''R'' @ decimal i @ [9] @ bytes_of '': '' @ percent_x v @ newline"

definition print_cell :: "nat \<Rightarrow> u8 \<Rightarrow> u8 list" where
  "print_cell i c = hexadecimal i @ [9] @ bytes_of '': '' @ percent_x c @ newline"

definition printVM :: "vm \<Rightarrow> u8 list" where
  "printVM vm =
     bytes_of ''------Affichage------'' @ newline @ bytes_of ''--Etat--'' @ newline @ newline @
     bytes_of (if running vm then ''Running !'' else ''Halted !'') @ newline @ newline @
     bytes_of ''--REGISTERS--'' @ newline @ newline @
     concat (map (\<lambda>i. print_register i (registers vm ! i)) [0..<unat N_REG]) @
     newline @ bytes_of ''PC : '' @ percent_x (pc vm) @ newline @ bytes_of ''SP : '' @ percent_x (sp vm) @ newline @
     bytes_of ''SR : '' @ percent_x (sr vm) @ newline @ newline @ bytes_of ''--MEMORY--'' @ newline @ newline @
     concat (map (\<lambda>i. print_cell i (memory vm ! i)) [0..<unat MEM_SIZE]) @
     bytes_of ''------Fin------'' @ newline @ newline"

section \<open>Lemmas\<close>

lemma copy_literal_whole:
  "n = length literal + 1 \<Longrightarrow> n \<le> 64 \<Longrightarrow> copy_literal literal n = Done (literal @ [0])"
  by (simp add: copy_literal_def)

definition vm_errors :: "VM_Error list" where
  "vm_errors = [VM_OK, VM_DIV_ZERO, VM_INSTR_PRIV, VM_INSTR_TRAP, VM_ILL_MEM_ACCESS, VM_ILL_REGISTER,
     VM_STACK_UNDERFLOW, VM_STACK_OVERFLOW, VM_INVALID_JMP, VM_CODE_LOAD_OUT_OF_BOUNDS,
     VM_DATA_LOAD_OUT_OF_BOUNDS, VM_INVALID_EXECUTION_ADDRESS, VM_TRUNCATED_INSTR, VM_UNKNOWN_INSTR,
     VM_UNKNOWN_SYSCALL, VM_OUT_OF_THE_HEAP, VM_HEAP_OUT_OF_MEMORY, VM_MEM_ALREADY_FREE, VM_FREE_OUT_OF_THE_HEAP]"

lemma all_errors: "st \<in> set vm_errors"
  by (cases st) (simp_all add: vm_errors_def)

lemma messages_distinct: "distinct (map errorToString vm_errors)"
  by (simp add: vm_errors_def copy_literal_def e_acute_def e_grave_def)

lemma errorToString_message: "\<exists>s. errorToString st = Done (s @ [0]) \<and> 0 \<notin> set s \<and> length s < 64"
  by (cases st) (simp_all add: copy_literal_def e_acute_def e_grave_def)

section \<open>Properties\<close>

text \<open>
  every error of the machine has a message of its own. It ends with a NUL, has none before,
  and fits the 64 bytes it is copied to.
\<close>

theorem error_messages:
  "(\<exists>s. errorToString st = Done (s @ [0]) \<and> 0 \<notin> set s \<and> length s < 64) \<and>
   (errorToString st = errorToString st' \<longleftrightarrow> st = st')"
  using errorToString_message [of st] messages_distinct all_errors [of st] all_errors [of st']
  by (auto simp: distinct_map inj_on_def)

end
