(* ===== verification/Nodes.thy ===== *)
theory Nodes
  imports Source Messages
begin

text \<open>
  The types of the nodes the parser builds, whatever its input: what the assembler and the printer
  may rely on.
\<close>

unbundle bit_operations_syntax

section \<open>Well-typed nodes\<close>

text \<open>Names are C strings: no NUL in them. Strings carry the NUL that ends them.\<close>

definition c_name :: "u8 list \<Rightarrow> bool" where
  "c_name w \<longleftrightarrow> w \<noteq> [] \<and> 0 \<notin> set w"

fun operand_typed :: "Operand \<Rightarrow> bool" where
  "operand_typed (OPERAND_IDENT w) = c_name w"
| "operand_typed (OPERAND_MEM_IDENT w) = c_name w"
| "operand_typed (OPERAND_MEM_IDX_IDENT w off) = c_name w"
| "operand_typed (OPERAND_STRING str) = False"
| "operand_typed _ = True"

fun dir_operand_typed :: "Operand \<Rightarrow> bool" where
  "dir_operand_typed (OPERAND_IDENT w) = c_name w"
| "dir_operand_typed (OPERAND_STRING str) = (str \<noteq> [] \<and> last str = 0)"
| "dir_operand_typed OPERAND_NONE = True"
| "dir_operand_typed (OPERAND_VALUE v) = True"
| "dir_operand_typed _ = False"

fun node_typed :: "IR_Node \<Rightarrow> bool" where
  "node_typed (IR_INSTR line op a b) = (op \<noteq> OP_COUNT \<and> operand_typed a \<and> operand_typed b)"
| "node_typed (IR_LABEL line name) = c_name name"
| "node_typed (IR_DIR line d v) = (d \<noteq> DIR_COUNT \<and> dir_operand_typed v)"

text \<open>
  What an array element \<open>s\<close> can become: a typed node; the node it held before; or an instruction of
  the table in which a typed operand is, or the operand found there with an offset put into it. A zeroed
  element only becomes a typed node.
\<close>

definition operand_from :: "Operand \<Rightarrow> Operand \<Rightarrow> bool" where
  "operand_from old v \<longleftrightarrow> operand_typed v \<or> (\<exists>off. v = set_offset off old)"

definition node_from :: "slot \<Rightarrow> IR_Node \<Rightarrow> bool" where
  "node_from s n \<longleftrightarrow> node_typed n \<or> n = slot_node s \<or>
    (\<exists>line op a b. n = IR_INSTR line op a b \<and> op \<noteq> OP_COUNT \<and>
      operand_from (slot_a s) a \<and> operand_from (slot_b s) b)"

lemma operand_from_typed: "operand_typed v \<Longrightarrow> operand_from old v"
  by (simp add: operand_from_def)

lemma operand_from_offset: "operand_from old (set_offset off old)"
  by (auto simp: operand_from_def)

lemma set_offset_typed [simp]: "operand_typed (set_offset off v) = operand_typed v"
  by (cases v) simp_all

lemma node_from_typed: "node_typed n \<Longrightarrow> node_from s n"
  by (simp add: node_from_def)

lemma node_from_zero_slot: "node_from zero_slot n \<Longrightarrow> node_typed n"
  by (auto simp: node_from_def operand_from_def zero_slot_def)

section \<open>Parsing functions\<close>

definition parsed_ok :: "('a \<Rightarrow> bool) \<Rightarrow> (ParserError + 'a) \<times> Token \<times> Lexer \<Rightarrow> bool" where
  "parsed_ok P r \<longleftrightarrow> (case fst r of Inl e \<Rightarrow> True | Inr x \<Rightarrow> P x)"

lemma parsed_ok_simps [simp]: "parsed_ok P (Inl e, r)" "parsed_ok P (Inr x, r) = P x"
  by (simp_all add: parsed_ok_def)

lemma ident_c_name: "type_ok (TOKEN_IDENT w) \<Longrightarrow> c_name w"
  by (cases w) (auto simp: c_name_def list_all_iff ident_char_def char_classes)

text \<open>The next token is well made.\<close>

lemma post_next_token [intro]:
  "(\<And>tok lx. type_ok (tok_type tok) \<Longrightarrow> post P (k tok lx)) \<Longrightarrow> post P (next_token lx k)"
  using lexer_next_token_ok [of lx] unfolding next_token_def
  by (cases "lexer_next_token lx") (auto simp: token_ok_def)

lemma post_next_unchecked [intro]:
  "(\<And>tok lx. type_ok (tok_type tok) \<Longrightarrow> post P (k tok lx)) \<Longrightarrow> post P (next_unchecked lx k)"
  using lexer_next_token_ok [of lx] unfolding next_unchecked_def
  by (cases "lexer_next_token lx") (auto simp: token_ok_def)

lemma post_chk_parser [intro]:
  "post (parsed_ok Q) p \<Longrightarrow> (\<And>x tok lx. Q x \<Longrightarrow> post P (k x tok lx)) \<Longrightarrow> post P (chk_parser p k)"
  unfolding chk_parser_def by (cases p) (auto split: sum.splits)

lemma post_at_end [intro]: "P x \<Longrightarrow> post (parsed_ok P) (at_end x tok lx)"
  by (simp add: at_end_def)

lemma parse_dir_typed: "post (parsed_ok (\<lambda>(d, v). d \<noteq> DIR_COUNT \<and> dir_operand_typed v)) (parse_dir lx)"
proof -
  have "post (parsed_ok (\<lambda>(d, v). d \<noteq> DIR_COUNT \<and> dir_operand_typed v)) (parse_dir_arg d tok lx)"
    if "d \<noteq> DIR_COUNT" "type_ok (tok_type tok)" for d tok lx
    using that ident_c_name
    by (cases "tok_type tok")
      (auto simp: parse_dir_arg_def intro!: post_next_token post_at_end split: TokenType.splits)
  then show ?thesis
    unfolding parse_dir_def by (intro post_next_token) (auto simp: Let_def split: TokenType.splits)
qed

lemma parse_label_typed: "P name \<Longrightarrow> post (parsed_ok P) (parse_label name lx)"
  unfolding parse_label_def by (intro post_next_token) auto

lemma parse_offset_typed: "post (parsed_ok (\<lambda>r. \<exists>off. r = set_offset off v)) (parse_offset neg v lx)"
  unfolding parse_offset_def by (auto intro!: post_next_unchecked split: TokenType.splits) (rule exI, rule refl)+

lemma parse_offset_from:
  "operand_typed v \<or> v = old \<Longrightarrow> post (parsed_ok (operand_from old)) (parse_offset neg v lx)"
  by (rule post_mono [OF parse_offset_typed]) (auto simp: parsed_ok_def operand_from_def split: sum.splits)

lemma parse_bracket_typed:
  assumes "type_ok (tok_type tok)"
  shows "post (parsed_ok (operand_from old)) (parse_bracket old tok suiv lx)"
  using assms ident_c_name
  by (cases "tok_type tok")
    (auto simp: parse_bracket_def Let_def operand_from_typed
      intro!: parse_offset_from post_next_token post_at_end split: TokenType.splits)

lemma parse_instrOPE_typed:
  assumes "type_ok (tok_type tok)"
  shows "post (parsed_ok (operand_from old)) (parse_instrOPE old tok lx)"
  using assms ident_c_name
  by (cases "tok_type tok")
    (auto simp: parse_instrOPE_def operand_from_typed
      intro!: parse_bracket_typed post_next_token split: TokenType.splits)

lemma parse_instr_typed:
  "post (parsed_ok (\<lambda>(op, a, b). op \<noteq> OP_COUNT \<and> operand_from old_a a \<and> operand_from old_b b))
    (parse_instr w old_a old_b tok lx)"
  unfolding parse_instr_def Let_def
  by (intro post_if post_next_token post_chk_parser [OF parse_instrOPE_typed])
    (auto simp: operand_from_typed)

lemma parse_line_typed: "post (\<lambda>(status, n, lx). node_from old n) (parse_line old lx)"
  unfolding parse_line_def
proof (intro post_next_token, goal_cases)
  case (1 tok lx)
  have "node_from old (slot_node old)" by (simp add: node_from_def)
  moreover have "node_from old (IR_INSTR line op a b)"
    if "op \<noteq> OP_COUNT" "operand_from (slot_a old) a" "operand_from (slot_b old) b" for line op a b
    using that by (auto simp: node_from_def)
  ultimately show ?case
    using ident_c_name 1
    by (cases "tok_type tok")
      (auto simp: node_from_typed intro!: post_chk_parser [OF parse_dir_typed] post_chk_parser [OF parse_instr_typed]
        post_chk_parser [OF parse_label_typed [of c_name]])
qed

text \<open>The k-th node comes from the k-th element of the array, as it was allocated or zeroed by an empty line.\<close>

lemma parse_loop_typed:
  "cur = junk (length nodes) \<or> cur = zero_slot \<Longrightarrow> \<forall>k<length nodes. node_from (junk k) (nodes ! k) \<Longrightarrow>
    post (\<lambda>ns. \<forall>k<length ns. node_from (junk k) (ns ! k)) (parse_loop junk content str line nodes cur)"
proof (induction content arbitrary: str line nodes cur rule: measure_induct_rule [where f = length])
  case (less content)
  show ?case
  proof (cases "fgets content str")
    case None
    with less.prems show ?thesis by (subst parse_loop.simps) simp
  next
    case (Some f)
    then obtain str' rest where f: "fgets content str = Some (str', rest)" by (cases f) simp
    let ?lx = "\<lparr>lx_cursor = str', lx_line = line, lx_column = 0\<rparr>"
    note IH = less.IH [OF fgets_shorter [OF f]]
    show ?thesis
    proof (cases "parse_line cur ?lx")
      case (Done r)
      obtain st n lx where r: "r = (st, n, lx)" by (cases r)
      with Done parse_line_typed [of cur ?lx] have "node_from cur n" by simp
      with less.prems(1) have "node_from (junk (length nodes)) n"
        using node_from_typed node_from_zero_slot by blast
      with less.prems(2) have "\<forall>k<length (nodes @ [n]). node_from (junk k) ((nodes @ [n]) ! k)"
        by (simp add: nth_append less_Suc_eq)
      with IH [of "junk (Suc (length nodes))" "nodes @ [n]"] IH [of zero_slot nodes] less.prems(2) Done r f
      show ?thesis by (subst parse_loop.simps) simp
    qed (use f in \<open>subst parse_loop.simps, simp\<close>)+
  qed
qed

lemma printIRNode_typed: "node_typed n \<Longrightarrow> returns (\<lambda>out. last out = 10) (printIRNode n)"
  using op_lookup_name dir_lookup_name
  by (cases n) (fastforce simp: newline_def)+

section \<open>Properties\<close>

text \<open>
  C10: the types of the nodes. Whatever the file holds and whatever the allocated array held, each
  node the parser returns is of one of three kinds. It is well typed: its operation or directive is one of
  the tables, no instruction has a string for an operand, the operand of a directive is a
  number, a name or a string that ends with its NUL, no name has a NUL inside, and the printer then
  writes it. Or it is what its own array element held, untouched, where a line was wrongly accepted. Or it
  is an instruction of the table in which an operand is what the element held there, but for an offset.
\<close>

theorem parser_nodes_typed:
  assumes "parser junk (Some content) = Done ns" "k < length ns"
  shows "(node_typed (ns ! k) \<and> (\<exists>out. printIRNode (ns ! k) = Done out)) \<or>
    ns ! k = slot_node (junk k) \<or>
    (\<exists>line op a b. ns ! k = IR_INSTR line op a b \<and> op \<noteq> OP_COUNT \<and>
      (operand_typed a \<or> (\<exists>off. a = set_offset off (slot_a (junk k)))) \<and>
      (operand_typed b \<or> (\<exists>off. b = set_offset off (slot_b (junk k)))))"
proof -
  have "post (\<lambda>ns. \<forall>k<length ns. node_from (junk k) (ns ! k)) (parser junk (Some content))"
    using parse_loop_typed [of "junk 0" junk "[]"] by (simp add: parser_def)
  with assms have "node_from (junk k) (ns ! k)" by simp
  with printIRNode_typed [of "ns ! k"] show ?thesis
    by (auto simp: node_from_def operand_from_def returns_iff)
qed

text \<open>Elements that hold no typed node, to show that nothing of them is in the nodes of the listing.\<close>

definition raw_slot :: slot where
  "raw_slot = \<lparr>slot_node = IR_DIR 0 DIR_COUNT OPERAND_NONE, slot_a = OPERAND_STRING [], slot_b = OPERAND_STRING []\<rparr>"

theorem parser_nodes_typed_witness:
  "parser (\<lambda>_. raw_slot) (Some (source_text listing)) = Done listing \<and> node_typed (listing ! 1)"
proof -
  have p: "parser (\<lambda>_. raw_slot) (Some (source_text listing)) = Done listing"
    using parse_loop_text [OF writable_listing, of "[]" "\<lambda>_. raw_slot" "replicate (INSTR_LEN + 1) 0" 0 raw_slot]
      number_listing
    by (simp add: parser_def listing_def)
  from parser_nodes_typed [OF p, of 1] p show ?thesis by (simp add: listing_def raw_slot_def)
qed

end
