(* ===== verification/Programs.thy ===== *)
theory Programs
  imports Nodes Assembled
begin

text \<open>
  The two programs, \<^verbatim>\<open>src/bin/main_bsm.c\<close> (the assembler) and \<^verbatim>\<open>src/bin/main_bsvm.c\<close> (the
  machine), composed from their parts, and what holds from the source text to the exit code.
  Files are their contents, \<open>None\<close> when \<open>open\<close> fails; \<open>argc\<close> is the number of arguments. The
  models keep no allocation, so the calls of \<open>free\<close> at the end have no counterpart.
\<close>

unbundle bit_operations_syntax

section \<open>The assembler\<close>

text \<open>The assembler before the first pass: all fields zero.\<close>

definition zero_assembler :: Assembler where
  "zero_assembler = \<lparr>symtable = \<lparr>sym_table = [], sym_next = 0, sym_size = 0, sym_bytes = 0\<rparr>,
     bin = \<lparr>headers = blank_header, bytecode = [], data = []\<rparr>, error_line = 0\<rparr>"

fun print_nodes :: "IR_Node list \<Rightarrow> u8 list outcome" where
  "print_nodes [] = Done []"
| "print_nodes (n # ns) = obind (printIRNode n) (\<lambda>o1. obind (print_nodes ns) (\<lambda>o2. Done (o1 @ o2)))"

definition print_symbols :: "Symbol_table \<Rightarrow> u8 list" where
  "print_symbols t = concat (map (\<lambda>e. percent_s (sym_string e) @ bytes_of '' : '' @ percent_u (sym_addr e) @ newline)
     (take (unat (sym_next t)) (sym_table t)))"

text \<open>
  What it prints and the file it writes. \<open>junk\<close> is what the array of nodes held, \<open>host\<close> the
  unwritten memory the assembler reads, \<open>created\<close> whether the output can be opened.
\<close>

definition main_bsm :: "host \<Rightarrow> (nat \<Rightarrow> slot) \<Rightarrow> bool \<Rightarrow> nat \<Rightarrow> u8 list option \<Rightarrow> (u8 list \<times> u8 list) outcome" where
  "main_bsm host junk created argc source =
     (if argc \<noteq> 3 then Exit_failure
      else obind (parser junk source) (\<lambda>IRList.
        obind (print_nodes IRList) (\<lambda>nodes_out.
        let out = bytes_of ''prog size : '' @ percent_u (word_of_nat (length IRList) :: u64) @ newline @ nodes_out @
              bytes_of ''PARSER OK'' @ newline @ newline @ newline
        in obind (assemblerFirstPass zero_assembler IRList) (\<lambda>(status, ass).
        if status \<noteq> ASM_OK then Exit_failure
        else let out = out @ bytes_of ''ASM first pass OK'' @ newline @ newline @ print_symbols (symtable ass) @ newline
        in obind (assemblerSecondPass host ass IRList) (\<lambda>(status, ass).
        if status \<noteq> ASM_OK then Exit_failure
        else let out = out @ bytes_of ''ASM second pass OK'' @ newline @ newline
        in obind (writeBinaryFile created (bin ass)) (\<lambda>content. Done (out, content)))))))"

section \<open>The machine\<close>

text \<open>
  The exit code it prints, the low byte of \<open>R0\<close>, and the machine at the end; \<open>None\<close> when it runs
  for ever. A failure prints the message of its error first.
\<close>

definition fail_with :: "VM_Error \<Rightarrow> 'a outcome" where
  "fail_with status = obind (errorToString status) (\<lambda>_. Exit_failure)"

definition report :: "VM_Error \<times> vm \<Rightarrow> (u8 \<times> vm) outcome" where
  "report r = (case r of (status, vm) \<Rightarrow>
     if status \<noteq> VM_OK then fail_with status else Done (ucast (registers vm ! 0), destroyVM vm))"

definition main_bsvm :: "(nat \<Rightarrow> env) \<Rightarrow> vm \<Rightarrow> nat \<Rightarrow> u8 list option \<Rightarrow> (u8 \<times> vm) outcome option" where
  "main_bsvm envs uninit argc file =
     (if argc \<noteq> 2 then Some Exit_failure
      else let vm = initVM uninit;
               code = zeros (unat DATA_BASE); data = zeros (unat (STACK_BASE - DATA_BASE));
               bin = \<lparr>headers = blank_header, bytecode = code, data = data\<rparr>
      in case obind (readBinaryFile file bin) (\<lambda>bin. loadProgram vm bin 0) of
          Exit_failure \<Rightarrow> Some Exit_failure
        | Undefined \<Rightarrow> Some Undefined
        | Done (status, vm) \<Rightarrow>
            if status \<noteq> VM_OK then Some (fail_with status)
            else map_option (\<lambda>r. obind r report) (vm_run envs vm))"

section \<open>What the programs do\<close>

lemma fail_with_exits [simp]: "fail_with status = Exit_failure"
  using errorToString_message [of status] by (auto simp: fail_with_def)

lemma print_nodes_typed: "list_all node_typed ns \<Longrightarrow> returns (\<lambda>_. True) (print_nodes ns)"
proof (induction ns)
  case (Cons n ns)
  then have "returns (\<lambda>out. last out = 10) (printIRNode n)" using printIRNode_typed [of n] by simp
  with Cons show ?case by (auto simp: returns_iff)
qed simp

text \<open>The file of an accepted program.\<close>

definition executable :: "host \<Rightarrow> IR_Node list \<Rightarrow> u8 list" where
  "executable h ns = (let t = table_of (symbols ns) in
     header_bytes \<lparr>magic_number = MAGIC_NUMBER, entry_point = entry_of t 0 ns,
       code_size = word_of_nat (text_total ns), data_size = word_of_nat (data_total ns)\<rparr> @
     concat (map encoding (instructions t ns)) @ data_image h t ns)"

lemma writeBinaryFile_exact:
  assumes "unat (code_size (headers b)) = length (bytecode b)" "unat (data_size (headers b)) = length (data b)"
  shows "writeBinaryFile True b = Done (header_bytes (headers b) @ bytecode b @ data b)"
  using assms by (simp add: writeBinaryFile_def write_file_def HDR_SIZE_def)

lemma passes:
  assumes "text_total ns < 2 ^ 64" "data_total ns < 2 ^ 64"
  shows "if accepted ns \<and> (\<forall>n \<in> set ns. refs_ok (table_of (symbols ns)) n)
    then \<exists>ass1 ass2. assemblerFirstPass zero_assembler ns = Done (ASM_OK, ass1) \<and>
      assemblerSecondPass h ass1 ns = Done (ASM_OK, ass2) \<and>
      writeBinaryFile True (bin ass2) = Done (executable h ns)
    else \<forall>ass1. assemblerFirstPass zero_assembler ns = Done (ASM_OK, ass1) \<longrightarrow>
      (\<exists>ass2. assemblerSecondPass h ass1 ns = Done (ASM_LABEL_UNDEFINED, ass2))"
proof (cases "accepted ns")
  case True
  let ?a = "laid_out zero_assembler ns" and ?t = "table_of (symbols ns)"
  have f: "assemblerFirstPass zero_assembler ns = Done (ASM_OK, ?a)" by (simp add: assemblerFirstPass_iff True)
  show ?thesis
  proof (cases "\<forall>n \<in> set ns. refs_ok ?t n")
    case refs: True
    have t: "symtable ?a = ?t" by (simp add: laid_out_def)
    have s: "assemblerSecondPass h ?a ns = Done (ASM_OK, assembled h ?a ns)"
      using assemblerSecondPass_laid_out [OF True assms, of h zero_assembler] refs by simp
    have b: "bin (assembled h ?a ns) = \<lparr>headers = \<lparr>magic_number = MAGIC_NUMBER, entry_point = entry_of ?t 0 ns,
        code_size = word_of_nat (text_total ns), data_size = word_of_nat (data_total ns)\<rparr>,
        bytecode = bytecode.image (instructions ?t ns), data = data_image h ?t ns\<rparr>"
      by (simp add: assembled_def Let_def t laid_out_def with_sizes_def zero_assembler_def blank_header_def)
    have "length (concat (map encoding (instructions ?t ns))) = text_total ns"
      using length_code_image [OF True, of ?t] by (simp add: bytecode.image_def)
    then have "writeBinaryFile True (bin (assembled h ?a ns)) = Done (executable h ns)"
      using assms unfolding b
      by (subst writeBinaryFile_exact)
        (simp_all add: unat_of_nat length_data_image [OF True] executable_def bytecode.image_def Let_def)
    with f s True refs show ?thesis by auto
  next
    case False
    with assemblerSecondPass_laid_out [OF True assms, of h zero_assembler] show ?thesis
      by (auto simp: assemblerFirstPass_iff)
  qed
next
  case False
  then show ?thesis by (simp add: assemblerFirstPass_iff)
qed

lemma main_bsm_Done:
  assumes "parser junk source = Done ns" "list_all node_typed ns" "text_total ns < 2 ^ 64" "data_total ns < 2 ^ 64"
  shows "if accepted ns \<and> (\<forall>n \<in> set ns. refs_ok (table_of (symbols ns)) n)
    then \<exists>out. main_bsm h junk True 3 source = Done (out, executable h ns)
    else \<forall>r. main_bsm h junk created 3 source \<noteq> Done r"
proof -
  obtain out where "print_nodes ns = Done out" using print_nodes_typed [OF assms(2)] by (auto simp: returns_iff)
  with passes [OF assms(3,4), of h] assms(1) show ?thesis
    by (cases "assemblerFirstPass zero_assembler ns") (auto simp: main_bsm_def Let_def split: if_splits prod.splits)
qed

text \<open>The machine on the file of an accepted program.\<close>

lemma bsvm_runs:
  assumes "accepted ns" "text_total ns \<le> 1023" "data_total ns < 256"
  shows "\<exists>vm'. (\<forall>envs. main_bsvm envs uninit 2 (Some (executable h ns)) =
      map_option (\<lambda>r. obind r report) (vm_run envs vm')) \<and> wf_vm vm' \<and>
    pc vm' = entry_of (table_of (symbols ns)) 0 ns \<and>
    take (data_total ns) (drop 1024 (memory vm')) = data_image h (table_of (symbols ns)) ns \<and>
    executes (instructions (table_of (symbols ns)) ns) vm' \<and>
    vm' = (initVM uninit)\<lparr>memory := memory vm', pc := pc vm'\<rparr>"
proof -
  let ?t = "table_of (symbols ns)"
  let ?b = "\<lparr>headers = \<lparr>magic_number = MAGIC_NUMBER, entry_point = entry_of ?t 0 ns,
      code_size = word_of_nat (text_total ns), data_size = word_of_nat (data_total ns)\<rparr>,
      bytecode = bytecode.image (instructions ?t ns), data = data_image h ?t ns\<rparr>"
  let ?dst = "\<lparr>headers = blank_header, bytecode = zeros (unat DATA_BASE), data = zeros (unat (STACK_BASE - DATA_BASE))\<rparr>"
  have sz: "unat (code_size (headers ?b)) = length (bytecode ?b)" "unat (data_size (headers ?b)) = length (data ?b)"
    using assms by (simp_all add: unat_of_nat length_code_image length_data_image)
  then have "writeBinaryFile True ?b = Done (executable h ns)"
    by (subst writeBinaryFile_exact) (simp_all add: executable_def bytecode.image_def Let_def)
  from binary_executes [OF assms wf_initVM, of ?dst ?b ?t h _ uninit, OF _ _ _ _ _ _ sz this]
  obtain b vm' where "readBinaryFile (Some (executable h ns)) ?dst = Done b"
    "loadProgram (initVM uninit) b 0 = Done (VM_OK, vm')" "wf_vm vm'" "pc vm' = entry_of ?t 0 ns"
    "take (data_total ns) (drop 1024 (memory vm')) = data_image h ?t ns" "executes (instructions ?t ns) vm'"
    "vm' = (initVM uninit)\<lparr>memory := memory vm', pc := pc vm'\<rparr>"
    by (auto simp: zeros_def memory_map)
  then show ?thesis by (intro exI [of _ vm']) (simp add: main_bsvm_def Let_def)
qed

section \<open>From source text\<close>

lemma name_ok_c_name: "name_ok w \<Longrightarrow> c_name w"
  by (rule ident_c_name) (simp add: name_ok_def)

lemma operand_ok_typed: "operand_ok v \<Longrightarrow> operand_typed v" "dir_operand_ok v \<Longrightarrow> dir_operand_typed v"
  using name_ok_c_name by (cases v; auto)+

lemma writable_typed: "writable n \<Longrightarrow> node_typed (relabel l n)"
  using name_ok_c_name operand_ok_typed by (cases n) auto

lemma number_lines_typed: "list_all writable ns \<Longrightarrow> list_all node_typed (number_lines l ns)"
  by (induction ns arbitrary: l) (simp_all add: writable_typed)

lemma parser_text:
  assumes "list_all (\<lambda>n. writable n \<and> length (line_text n) \<le> 254) ns" "length ns \<le> 128"
  shows "parser junk (Some (concat (map line_text ns))) = Done (number_lines 0 ns)"
    and "list_all node_typed (number_lines 0 ns)"
  using parse_loop_text [OF assms(1), of "[]"] assms number_lines_typed [of ns]
  by (simp_all add: parser_def source_text_def list_all_iff)

lemma bsm_text:
  assumes "list_all (\<lambda>n. writable n \<and> length (line_text n) \<le> 254) ns" "length ns \<le> 128"
    and "accepted (number_lines 0 ns)" "\<forall>n \<in> set (number_lines 0 ns). refs_ok (table_of (symbols (number_lines 0 ns))) n"
    and "text_total (number_lines 0 ns) \<le> 1023" "data_total (number_lines 0 ns) < 256"
  shows "\<exists>out. main_bsm h junk True 3 (Some (concat (map line_text ns))) = Done (out, executable h (number_lines 0 ns))"
proof -
  have "text_total (number_lines 0 ns) < 2 ^ 64" "data_total (number_lines 0 ns) < 2 ^ 64" using assms(5,6) by simp_all
  from main_bsm_Done [OF parser_text [OF assms(1,2)] this, of h] assms(3,4) show ?thesis by simp
qed

section \<open>A program that sets its exit code\<close>

text \<open>\<open>.text\<close>, \<open>LD R0 , v\<close>, \<open>HALT\<close>\<close>

definition exit_program :: "u64 \<Rightarrow> IR_Node list" where
  "exit_program v = [IR_DIR 1 DIR_TEXT OPERAND_NONE, IR_INSTR 2 OP_LD (OPERAND_REG 0) (OPERAND_VALUE v),
     IR_INSTR 3 OP_HALT OPERAND_NONE OPERAND_NONE]"

lemma length_decimal: "n < 10 ^ k \<Longrightarrow> 0 < k \<Longrightarrow> length (decimal n) \<le> k"
proof (induction n arbitrary: k rule: decimal.induct)
  case (1 n)
  show ?case
  proof (cases "n < 10")
    case True
    then show ?thesis using "1.prems" by (subst decimal.simps) simp
  next
    case False
    then obtain k' where k: "k = Suc k'" "0 < k'" using "1.prems" by (cases k; cases "k - 1") auto
    with "1.prems" have "n div 10 < 10 ^ k'" by (simp add: less_mult_imp_div_less)
    from "1.IH" [OF False this k(2)] False k(1) show ?thesis by (subst decimal.simps) simp
  qed
qed

lemma length_spell_number:
  assumes "number_ok v"
  shows "length (concat (map (\<lambda>t. spell t @ [32]) (minus_number v))) \<le> 23"
proof -
  have "length (decimal (unat w)) \<le> 20" for w :: u64
    by (rule length_decimal) (use unat64 [of w] in simp_all)
  from this [of v] this [of "- v"] show ?thesis by (simp add: minus_number_def)
qed

lemma exit_program_text:
  assumes "number_ok v"
  shows "list_all (\<lambda>n. writable n \<and> length (line_text n) \<le> 254) (exit_program v)"
  using assms length_spell_number [OF assms]
  by (simp add: exit_program_def line_text_def tokens_text_def getOpStr_def op_map_def getDirStr_def dir_map_def
      decimal.simps)

lemma exit_program_modes:
  "node_mode OP_LD (OPERAND_REG 0) (OPERAND_VALUE v) = MODE_IMM"
  "node_mode OP_HALT OPERAND_NONE OPERAND_NONE = MODE_NONE"
  by (simp_all add: node_mode_def getModeFromOperands_def getArgsCount_def)

lemma exit_program_handlers:
  "get_handler env OP_LD MODE_IMM = Some instrLD" "get_handler env OP_HALT MODE_NONE = Some instrHALT"
  by (simp_all add: get_handler_def dispatchLD_def dispatchHALT_def)

lemma exit_program_facts:
  "number_lines 0 (exit_program v) = exit_program v" "symbols (exit_program v) = []"
  "accepted (exit_program v)" "\<forall>n \<in> set (exit_program v). refs_ok t n"
  "text_total (exit_program v) = 13" "data_total (exit_program v) = 0" "entry_of t 0 (exit_program v) = 0"
  "instructions t (exit_program v) = [instr OP_LD MODE_IMM 0 0 v, instr OP_HALT MODE_NONE 0 0 0]"
  by (simp_all add: exit_program_def section_of_def getModeFromOperands_def getArgsCount_def supported_def
      exit_program_modes exit_program_handlers last_operand_def entry_of_def node_instruction_def instr_def)

lemma running_init: "vm = (initVM uninit)\<lparr>memory := m, pc := p\<rparr> \<Longrightarrow> running vm"
  by (simp add: initVM_def)

lemma exit_program_runs:
  assumes "wf_vm vm" "executes [instr OP_LD MODE_IMM 0 0 v, instr OP_HALT MODE_NONE 0 0 0] vm" "pc vm = 0"
    "running vm"
  shows "\<exists>vm'. vm_run envs vm = Some (Done (VM_OK, vm')) \<and>
    registers vm' ! 0 = args (junk_instr (envs 0)) OR v"
proof -
  let ?p = "[instr OP_LD MODE_IMM 0 0 v, instr OP_HALT MODE_NONE 0 0 0]"
  let ?x = "args (junk_instr (envs 0)) OR v"
  let ?vm1 = "(set_reg 0 ?x vm)\<lparr>pc := 11\<rparr>" and ?vm2 = "(set_reg 0 ?x vm)\<lparr>running := False, pc := 13\<rparr>"
  have regs: "length (registers vm) = 2" using assms(1) by (rule wf_vmD)
  have wf: "wf_vm ?vm1" using assms(1) by (simp add: wf_vm_def)
  have i: "opcode (instr op m a b x) = op" "mode (instr op m a b x) = m" for op m a b x
    by (simp_all add: instr_def)
  have d: "ins_a (decoded_over j (instr OP_LD MODE_IMM 0 0 v)) = 0" 
    "args (decoded_over j (instr OP_LD MODE_IMM 0 0 v)) = args j OR v" for j
    by (simp_all add: decoded_over_def instr_def codecARGS_def)
  have sz: "instr_size (instr OP_LD MODE_IMM 0 0 v) = 11" by (simp add: instr_size_def instr_def)
  have "cpu_step (envs 0) vm = Done (VM_OK, ?vm1)"
    using assms(2) [unfolded executes_def, rule_format, of 0 vm "envs 0" instrLD] assms(1,3)
    by (simp add: i exit_program_handlers fits_at_def decode_need_def instrLD_def advance_def d N_REG_def)
  moreover have "cpu_step (envs 1) ?vm1 = Done (VM_OK, ?vm2)"
    using assms(2) [unfolded executes_def, rule_format, of 1 ?vm1 "envs 1" instrHALT] wf
    by (simp add: i exit_program_handlers fits_at_def decode_need_def instrHALT_def advance_def sz)
  ultimately have "run_loop envs 0 vm = Some (Done (VM_OK, 1, ?vm2))"
    using assms(4) by (subst run_loop.simps, simp, subst run_loop.simps) simp
  with regs show ?thesis by (simp add: vm_run_def)
qed

section \<open>Properties\<close>

text \<open>
  C9: what the assembler writes a file for. When the parser returns nodes of the right types, the
  program succeeds if and only if the nodes are an accepted program without undefined labels and
  the output can be opened; the file is then exactly the header, the encodings of the
  instructions and the data. In every other case nothing is written.
\<close>

theorem bsm_classified:
  assumes "parser junk source = Done ns" "list_all node_typed ns" "text_total ns < 2 ^ 64" "data_total ns < 2 ^ 64"
  shows "if accepted ns \<and> (\<forall>n \<in> set ns. refs_ok (table_of (symbols ns)) n)
    then \<exists>out. main_bsm h junk True 3 source = Done (out,
      header_bytes \<lparr>magic_number = MAGIC_NUMBER, entry_point = entry_of (table_of (symbols ns)) 0 ns,
        code_size = word_of_nat (text_total ns), data_size = word_of_nat (data_total ns)\<rparr> @
      concat (map encoding (instructions (table_of (symbols ns)) ns)) @ data_image h (table_of (symbols ns)) ns)
    else \<forall>created r. main_bsm h junk created 3 source \<noteq> Done r"
  using main_bsm_Done [OF assms, of h] by (auto simp: executable_def Let_def split: if_splits)

theorem bsm_classified_witness:
  "\<forall>out content. main_bsm blank_host (\<lambda>_. zero_slot) True 3 (Some (line_text (IR_LABEL 1 [115]))) \<noteq> Done (out, content)"
proof -
  have w: "list_all (\<lambda>n. writable n \<and> length (line_text n) \<le> 254) [IR_LABEL 1 [115]]"
    by (simp add: name_ok_def char_classes line_text_def tokens_text_def)
  have "\<not> accepted [IR_LABEL 1 [115]]" by (simp add: section_of_def)
  with bsm_classified [OF parser_text(1) [OF w, where junk = "\<lambda>_. zero_slot"] parser_text(2) [OF w],
      where h = blank_host]
  show ?thesis by simp
qed



text \<open>
  C13: a whole run. The source \<open>LD R0 , v\<close>, \<open>HALT\<close> is assembled, and the machine given the file
  ends with an exit code: the low byte of \<open>v\<close>, or-ed with what the uninitialised \<open>instr\<close> of
  \<open>cpu_step\<close> held in its argument.
\<close>

theorem exit_code:
  assumes "v \<noteq> 0x8000000000000000"
  shows "\<exists>out content. main_bsm h junk True 3 (Some (concat (map line_text (exit_program v)))) = Done (out, content) \<and>
    (\<exists>vm. main_bsvm envs uninit 2 (Some content) = Some (Done (ucast (args (junk_instr (envs 0)) OR v), vm)))"
proof -
  let ?p = "exit_program v"
  note w = exit_program_text [of v, unfolded number_ok_def, OF assms]
  have len: "length ?p \<le> 128" by (simp add: exit_program_def)
  obtain out where out: "main_bsm h junk True 3 (Some (concat (map line_text ?p))) = Done (out, executable h ?p)"
    using bsm_text [OF w len, of h junk] by (auto simp: exit_program_facts)
  obtain vm where vm: "main_bsvm envs uninit 2 (Some (executable h ?p)) = map_option (\<lambda>r. obind r report) (vm_run envs vm)"
    "wf_vm vm" "pc vm = 0" "executes [instr OP_LD MODE_IMM 0 0 v, instr OP_HALT MODE_NONE 0 0 0] vm"
    "vm = (initVM uninit)\<lparr>memory := memory vm, pc := pc vm\<rparr>"
    using bsvm_runs [OF exit_program_facts(3), of v uninit h] unfolding exit_program_facts by auto
  from exit_program_runs [OF vm(2,4,3) running_init [OF vm(5)], of envs] out vm(1) show ?thesis by (auto simp: report_def)
qed

theorem exit_code_witness:
  "\<exists>out content. main_bsm blank_host (\<lambda>_. zero_slot) True 3 (Some (concat (map line_text (exit_program 7)))) =
      Done (out, content) \<and>
    (\<exists>vm. main_bsvm (\<lambda>_. idle_env) raw_vm 2 (Some content) = Some (Done (7, vm)))"
proof -
  have "args (junk_instr idle_env) = 0" by (simp add: idle_env_def)
  with exit_code [of 7 blank_host "\<lambda>_. zero_slot" "\<lambda>_. idle_env" raw_vm] show ?thesis by simp
qed

end
