(* ===== verification/Spec2Isabelle.thy ===== *)
theory Spec2Isabelle
  imports Traps Loader Assembled Grammar Programs
begin

text \<open>
  BSVM is a virtual machine with its own assembler and executable format. This development models
  both programs completely, from the characters of the source to the exit code.

  \<^bold>\<open>The programs.\<close> \<^verbatim>\<open>src/bin/main_bsm.c\<close> is the assembler: it splits a source file into tokens
  (\<^verbatim>\<open>src/toolchain/lexer.c\<close>), parses each line into a node (\<^verbatim>\<open>src/toolchain/parser.c\<close>), lays
  the nodes out and encodes them in two passes (\<^verbatim>\<open>src/toolchain/assembler.c\<close>), and writes a
  binary file (\<^verbatim>\<open>src/format/binary.c\<close>). \<^verbatim>\<open>src/bin/main_bsvm.c\<close> reads such a file, loads
  it (\<^verbatim>\<open>src/runtime/loader.c\<close>) and runs it (\<^verbatim>\<open>src/runtime/vm.c\<close>): every cycle
  (\<^verbatim>\<open>src/runtime/cpu.c\<close>) decodes an instruction (\<^verbatim>\<open>src/runtime/instructions_codec.c\<close>), finds
  its handler in the dispatch table and calls it (\<^verbatim>\<open>src/runtime/instructions.c\<close>); handlers
  use the memory (\<^verbatim>\<open>src/runtime/memory.c\<close>) and, through TRAP, the heap allocator
  (\<^verbatim>\<open>src/runtime/allocator.c\<close>) and the C library. The memory has 2048 bytes: code below 1024,
  data below 1280, heap below 1536, stack above.

  \<^bold>\<open>Theories.\<close>
  \<^item> \<open>Prelude\<close>: outcomes of C code (\<open>Done\<close>, \<open>Exit_failure\<close>, \<open>Undefined\<close>), checked byte
    accesses, little-endian bytes and their round trips.
  \<^item> \<open>Vm\<close>: \<open>struct VM\<close> as the record \<open>vm\<close>, the flags, \<open>initVM\<close>, the invariant \<open>wf_vm\<close>.
  \<^item> \<open>Memory\<close>: \<open>memRead64\<close> and its companions; the contract \<open>word_store\<close>.
  \<^item> \<open>Allocator\<close>: \<open>vm_alloc\<close>, \<open>vm_free\<close>; the contract \<open>heap_allocator\<close> with the multiset of
    live blocks as the abstract state.
  \<^item> \<open>Codec\<close>: operation codes, modes, \<open>instructionEncode\<close>, \<open>instructionDecode\<close>.
  \<^item> \<open>Alu\<close>, \<open>Arith\<close>, \<open>Bitwise\<close>, \<open>Data_Move\<close>, \<open>Jump\<close>: flag setters and all instruction
    handlers; the contracts \<open>alu_family\<close> and \<open>jump_family\<close>, interpreted for every row of the
    dispatch table.
  \<^item> \<open>Syscall\<close>: the 16 system calls and TRAP, and what each operation keeps.
  \<^item> \<open>Dispatch\<close>: \<open>get_handler\<close>, \<open>getArgsCount\<close>, facts that hold of every handler.
  \<^item> \<open>Cpu\<close>: \<open>cpu_step\<close>, \<open>vm_run\<close>, runs as the relation \<open>cycles\<close>.
  \<^item> \<open>Instruction_Set\<close>, \<open>Stack\<close>, \<open>Traps\<close>, \<open>Machine\<close>: what instructions, stack, system calls
    and whole runs promise; the contract \<open>bounded_stack\<close>.
  \<^item> \<open>Binary\<close>, \<open>Loader\<close>: the file format, \<open>loadProgram\<close>; the contract \<open>sized_format\<close>, and
    the link from an encoded program to its execution.
  \<^item> \<open>IR\<close>, \<open>Assembler\<close>: the nodes between parser and assembler, the symbol table and the two
    passes. \<open>Assembled\<close>: the contract \<open>symbol_store\<close> of the table, the programs the first pass
    accepts, the addresses of their labels, the image the second pass writes, and that the machine
    executes it.
  \<^item> \<open>Lexer\<close>: \<open>lexer_next_token\<close>. \<open>Tokens\<close>: it stays in its buffer, reads back every token
    that has a spelling, and what the tokens look like.
  \<^item> \<open>Parser\<close>: \<open>parse_line\<close> and \<open>parser\<close>. \<open>Source\<close>: a file written from nodes is parsed to
    these nodes; how many nodes the array takes; lookup of names; lines that are wrongly accepted. \<open>Grammar\<close>: the lines the
    parser accepts are those of a grammar over tokens. \<open>Nodes\<close>: the types of the nodes of any
    file, and what of the uninitialised array shows through in them.
  \<^item> \<open>Messages\<close>: what the programs print. \<open>Programs\<close>: the two \<open>main\<close> functions, which sources
    yield a file, and the run of that file.

  \<^bold>\<open>Modelling decisions.\<close> Machine integers keep their width: 64-bit values are \<open>64 word\<close>, read
  with \<open>sint\<close> where the C type is signed. Signed \<open>+\<close>, \<open>-\<close> and \<open>*\<close> wrap (the build asks for
  \<open>-fsanitize=undefined\<close> in its recovering form). What has no defined result is the outcome
  \<open>Undefined\<close>: accesses outside an array, shifts by 64 or more, \<open>INT64_MIN / -1\<close>; a process
  that ends itself is \<open>Exit_failure\<close>. Errors the machine reports are values of \<open>VM_Error\<close>.
  The answers of the C library and the kernel are the parameter \<open>os\<close> of the environment, a
  function of the history of calls, which the field \<open>trace\<close> records; the contents of
  uninitialised C locals are parameters too (\<open>junk_ptr\<close>, \<open>junk_instr\<close>), as are those of the
  blocks \<open>malloc\<close> returns to the parser (\<open>slot\<close>) and the assembler (\<open>host\<close>). A \<open>char *\<close> of
  the lexer is the rest of its buffer, what an earlier line left behind the NUL included. The host's \<open>malloc\<close>
  is assumed to succeed. The loop of \<open>vm_run\<close> may not end: it is a \<open>partial_function\<close> into
  \<open>option\<close>, \<open>None\<close> meaning that it does not return, and no fuel is involved anywhere.

  \<^bold>\<open>Not modelled.\<close> The lifetime of host memory: \<open>free\<close> has no counterpart, neither in the two
  \<open>main\<close> functions nor as \<open>free_IRNode\<close>; \<open>realloc\<close> is modelled where its size is wrong. The
  \<open>main\<close> functions of the TEST builds of lexer and parser, and the usage messages.
\<close>

end
